(* ===== verification/Prelude.thy ===== *)
theory Prelude
  imports "HOL-Library.Word" "HOL-Library.AList"
begin

unbundle bit_operations_syntax

section \<open>Prelude: types, results and hash maps shared by every component\<close>

text \<open>
  The vocabulary of the development. Machine integers keep their width (\<open>u8\<close> to \<open>u128\<close>
  are words), a \<open>ton_types::UInt256\<close> or an \<open>ethabi::Address\<close> is the list of its bytes as
  in the code (32 resp. 20 of them), a hash map (\<open>FxHashMap\<close>, \<open>DashMap\<close>) is the
  association list of its entries in the order an iteration meets them, with distinct keys:
  every theorem holds for every such order, which is what the code may rely on. An
  \<open>anyhow::Result\<close> is a sum whose left side names the error; a panic of the task is an
  error value too.
\<close>

type_synonym u8 = "8 word"
type_synonym u16 = "16 word"
type_synonym u32 = "32 word"
type_synonym u64 = "64 word"
type_synonym u128 = "128 word"
type_synonym usize = "64 word"
type_synonym i32 = "32 word"
type_synonym bytes = "u8 list"
type_synonym uint256 = bytes
type_synonym eth_address = bytes

datatype error =
    AlreadyExists
  | InvalidContractAddress
  | NonZeroResultCode i32
  | ItemsStackLenMismatch usize usize
  | UnexpectedStackItemType usize
  | UnknownChainId
  | UnknownConnector
  | UnknownConfiguration
  | BridgeAccountNotFound
  | InvalidEventConfiguration
  | EventConfigurationAlreadyExists
  | StorageNotReady
  | AccountNotFound uint256
  | TokenMetadataMismatch
  | ExternalTonMessageExpected
  | AccountIsFrozen
  | InvalidRound u32
  | InvalidVotePosition nat
  | InvalidRoundAccount
  | DecodeTransactionError
  | RequiredEthNetworkNotFound
  | UserDataEthAddressMismatch
  | UserDataTonPublicKeyMismatch
  | ChannelClosed
  | Context string
  | Foreign string
  | Panic string

type_synonym 'a res = "error + 'a"

definition rbind :: "'a res \<Rightarrow> ('a \<Rightarrow> 'b res) \<Rightarrow> 'b res" where
  "rbind m f = (case m of Inl e \<Rightarrow> Inl e | Inr x \<Rightarrow> f x)"

definition ok_or :: "error \<Rightarrow> 'a option \<Rightarrow> 'a res" where
  "ok_or e x = (case x of None \<Rightarrow> Inl e | Some y \<Rightarrow> Inr y)"

named_theorems res_simps \<open>evaluation of result-valued code\<close>
named_theorems hm_simps \<open>hash maps: lookups after updates\<close>
named_theorems wf_intros \<open>preservation of well-formedness\<close>

lemma rbind_Inl [simp, res_simps]: "rbind (Inl e) f = Inl e"
  by (simp add: rbind_def)

lemma rbind_Inr [simp, res_simps]: "rbind (Inr x) f = f x"
  by (simp add: rbind_def)

lemma rbind_eq_Inr_iff [res_simps]:
  "rbind m f = Inr y \<longleftrightarrow> (\<exists>x. m = Inr x \<and> f x = Inr y)"
  by (cases m) (auto simp: rbind_def)

lemma ok_or_simps [simp, res_simps]:
  "ok_or e None = Inl e" "ok_or e (Some x) = Inr x"
  by (simp_all add: ok_or_def)

lemma ok_or_eq_Inr_iff [res_simps]: "ok_or e m = Inr x \<longleftrightarrow> m = Some x"
  by (cases m) auto

text \<open>\<open>anyhow\<close>'s \<open>context\<close>: an error is wrapped in a message.\<close>

definition with_context :: "string \<Rightarrow> 'a res \<Rightarrow> 'a res" where
  "with_context msg m = (case m of Inl e \<Rightarrow> Inl (Context msg) | Inr x \<Rightarrow> Inr x)"

lemma with_context_simps [simp, res_simps]:
  "with_context msg (Inl e) = Inl (Context msg)" "with_context msg (Inr x) = Inr x"
  by (simp_all add: with_context_def)

lemma with_context_eq_Inr_iff [simp, res_simps]: "with_context msg m = Inr x \<longleftrightarrow> m = Inr x"
  by (cases m) simp_all

subsection \<open>Hash maps\<close>

type_synonym ('k, 'v) hashmap = "('k \<times> 'v) list"

definition hm_wf :: "('k, 'v) hashmap \<Rightarrow> bool" where
  "hm_wf m \<longleftrightarrow> distinct (map fst m)"

abbreviation hm_get :: "('k, 'v) hashmap \<Rightarrow> 'k \<Rightarrow> 'v option" where
  "hm_get m k \<equiv> map_of m k"

abbreviation hm_insert :: "'k \<Rightarrow> 'v \<Rightarrow> ('k, 'v) hashmap \<Rightarrow> ('k, 'v) hashmap" where
  "hm_insert k v m \<equiv> AList.update k v m"

abbreviation hm_remove :: "'k \<Rightarrow> ('k, 'v) hashmap \<Rightarrow> ('k, 'v) hashmap" where
  "hm_remove k m \<equiv> AList.delete k m"

abbreviation hm_keys :: "('k, 'v) hashmap \<Rightarrow> 'k set" where
  "hm_keys m \<equiv> fst ` set m"

definition hm_retain :: "('k \<Rightarrow> 'v \<Rightarrow> bool) \<Rightarrow> ('k, 'v) hashmap \<Rightarrow> ('k, 'v) hashmap" where
  "hm_retain p m = filter (\<lambda>(k, v). p k v) m"

lemma hm_wf_Nil [simp, wf_intros]: "hm_wf []"
  by (simp add: hm_wf_def)

lemma hm_wf_insert [simp, wf_intros]: "hm_wf m \<Longrightarrow> hm_wf (hm_insert k v m)"
  by (simp add: hm_wf_def distinct_update)

lemma hm_wf_remove [simp, wf_intros]: "hm_wf m \<Longrightarrow> hm_wf (hm_remove k m)"
  by (simp add: hm_wf_def AList.distinct_delete)

lemma distinct_map_filter_fst: "distinct (map fst m) \<Longrightarrow> distinct (map fst (filter p m))"
  by (simp add: distinct_map_filter)

lemma hm_wf_retain [simp, wf_intros]: "hm_wf m \<Longrightarrow> hm_wf (hm_retain p m)"
  by (simp add: hm_wf_def hm_retain_def distinct_map_filter_fst)

lemma hm_get_insert [hm_simps]: "hm_get (hm_insert k v m) k' = (if k' = k then Some v else hm_get m k')"
  by (simp add: update_conv')

lemma hm_get_remove [hm_simps]: "hm_get (hm_remove k m) k' = (if k' = k then None else hm_get m k')"
  by (simp add: delete_conv')

lemma hm_get_retain [hm_simps]:
  "hm_wf m \<Longrightarrow> hm_get (hm_retain p m) k =
     (case hm_get m k of None \<Rightarrow> None | Some v \<Rightarrow> if p k v then Some v else None)"
  by (induction m) (auto simp: hm_wf_def hm_retain_def map_of_eq_None_iff
      split: option.splits dest: map_of_SomeD)

definition option_filter :: "('a \<Rightarrow> bool) \<Rightarrow> 'a option \<Rightarrow> 'a option" where
  "option_filter p x = (case x of None \<Rightarrow> None | Some y \<Rightarrow> if p y then Some y else None)"

lemma option_filter_simps [simp]:
  "option_filter p None = None"
  "option_filter p (Some y) = (if p y then Some y else None)"
  by (simp_all add: option_filter_def)

lemma option_filter_eq_Some [simp]: "option_filter p x = Some y \<longleftrightarrow> x = Some y \<and> p y"
  by (cases x) auto

lemma hm_get_retain_value: "hm_wf m \<Longrightarrow> hm_get (hm_retain (\<lambda>_. p) m) k = option_filter p (hm_get m k)"
  by (simp add: hm_get_retain option_filter_def)

lemma hm_get_None_iff: "hm_get m k = None \<longleftrightarrow> k \<notin> hm_keys m"
  by (simp add: map_of_eq_None_iff)

lemma hm_length_insert_new: "hm_get m k = None \<Longrightarrow> length (hm_insert k v m) = Suc (length m)"
  by (induction m) (auto split: if_splits)

lemma hm_length_insert_old: "hm_get m k = Some w \<Longrightarrow> length (hm_insert k v m) = length m"
  by (induction m) (auto split: if_splits)

lemma hm_remove_absent: "hm_get m k = None \<Longrightarrow> hm_remove k m = m"
  by (simp add: AList.delete_eq map_of_eq_None_iff filter_id_conv image_iff split_beta)

lemma hm_length_remove_old:
  assumes "hm_wf m" "hm_get m k = Some v"
  shows "Suc (length (hm_remove k m)) = length m"
  using assms
proof (induction m)
  case (Cons e m)
  obtain k' w where e: "e = (k', w)" by (cases e)
  show ?case
  proof (cases "k' = k")
    case True
    with Cons.prems e have "hm_get m k = None"
      by (auto simp: hm_wf_def map_of_eq_None_iff)
    with True e show ?thesis by (simp add: hm_remove_absent)
  next
    case False
    with Cons e show ?thesis by (simp add: hm_wf_def)
  qed
qed simp

lemma hm_keys_insert [simp]: "hm_keys (hm_insert k v m) = insert k (hm_keys m)"
  by (simp add: dom_update)

lemma hm_keys_remove [simp]: "hm_keys (hm_remove k m) = hm_keys m - {k}"
  by (auto simp: AList.delete_eq)

lemma hm_keys_retain_subset: "hm_keys (hm_retain p m) \<subseteq> hm_keys m"
  by (auto simp: hm_retain_def)

lemma hm_keys_retain_key: "hm_keys (hm_retain (\<lambda>k _. p k) m) = {k \<in> hm_keys m. p k}"
  by (force simp: hm_retain_def)

lemma hm_get_in_set: "hm_get m k = Some v \<Longrightarrow> (k, v) \<in> set m"
  by (rule map_of_SomeD)

lemma hm_wf_get_iff: "hm_wf m \<Longrightarrow> hm_get m k = Some v \<longleftrightarrow> (k, v) \<in> set m"
  by (simp add: hm_wf_def)

subsection \<open>Words\<close>

lemma unat_ucast_u64: "unat (ucast (x :: u32) :: u64) = unat x"
proof -
  have "unat x < 2 ^ 64" by (rule order_less_le_trans [OF unsigned_less]) simp
  then show ?thesis by (simp only: unsigned_ucast_eq) (simp add: take_bit_nat_eq_self)
qed

subsection \<open>Registries with an entry counter\<close>

text \<open>
  Several components keep a map under a lock and, beside it, an atomic counter that only the
  metrics read. The contract they share: under the component's invariant the keys are
  distinct and the counter is the number of entries, modulo the width of \<open>usize\<close>.
\<close>

locale counted_registry =
  fixes inv :: "'s \<Rightarrow> bool"
    and entries :: "'s \<Rightarrow> ('k, 'v) hashmap"
    and counter :: "'s \<Rightarrow> usize"
  assumes inv_wf: "inv s \<Longrightarrow> hm_wf (entries s)"
    and inv_counter: "inv s \<Longrightarrow> counter s = of_nat (length (entries s))"
begin

lemma counter_card: "inv s \<Longrightarrow> counter s = of_nat (card (hm_keys (entries s)))"
  using inv_wf [of s] inv_counter [of s]
  by (simp add: hm_wf_def) (metis distinct_card length_map list.set_map)

lemma counter_exact:
  assumes "inv s" "length (entries s) < 2 ^ 64"
  shows "unat (counter s) = card (hm_keys (entries s))"
proof -
  have "card (hm_keys (entries s)) = length (entries s)"
    using inv_wf [OF assms(1)] by (simp add: hm_wf_def) (metis distinct_card length_map list.set_map)
  moreover have "unat (of_nat (length (entries s)) :: usize) = length (entries s)"
    using assms(2) by (simp add: unat_of_nat take_bit_eq_mod)
  ultimately show ?thesis using inv_counter [OF assms(1)] by simp
qed

lemma counter_zero_iff:
  assumes "inv s" "length (entries s) < 2 ^ 64"
  shows "counter s = 0 \<longleftrightarrow> entries s = []"
proof -
  have "unat (counter s) = length (entries s)"
    using inv_counter [OF assms(1)] assms(2) by (simp add: unat_of_nat take_bit_eq_mod)
  then show ?thesis by (simp add: unat_eq_0 [symmetric])
qed

end

end
