(* ===== verification/Shards.thy ===== *)
theory Shards
  imports Prelude
begin

section \<open>Shards: which shard an account belongs to\<close>

text \<open>
  \<open>src/utils/shard_utils.rs\<close> decides by bit arithmetic on 64-bit prefixes whether an
  account lies in a shard, and \<open>src/storage/mod.rs\<close> uses the same prefixes for key ranges.
  The operations of \<open>ton_block::ShardIdent\<close> the code calls (\<open>prefix_len\<close>,
  \<open>lower_bits\<close>, \<open>is_full\<close>, \<open>split\<close>) are third-party: they are arguments of the
  definitions, and the locale \<open>shard_lib\<close> states what their documentation promises about
  a tagged prefix (the lowest set bit is the tag).
\<close>

record shard_ident =
  workchain_id :: i32
  shard_prefix_with_tag :: u64

definition SHARD_FULL :: u64 where
  "SHARD_FULL = push_bit 63 1"

definition account_prefix :: "uint256 \<Rightarrow> nat \<Rightarrow> u64" where
  "account_prefix account len =
     (let bytes = len div 8;
          value = fold (\<lambda>(i, byte) value. value OR push_bit (8 * (7 - i)) (ucast byte))
                    (enumerate 0 (take bytes account)) (0 :: u64);
          remainder = len mod 8
      in if remainder > 0
         then (let r = drop_bit (8 - remainder) (account ! bytes)
               in value OR push_bit (8 * (7 - bytes) + 8 - remainder) (ucast r))
         else value)"

definition contains_account :: "(shard_ident \<Rightarrow> nat) \<Rightarrow> shard_ident \<Rightarrow> uint256 \<Rightarrow> bool" where
  "contains_account prefix_len shard account =
     (let shard_prefix = shard_prefix_with_tag shard
      in if shard_prefix = SHARD_FULL then True
         else (let len = prefix_len shard;
                   account_prefix = drop_bit (64 - len) (account_prefix account len);
                   shard_prefix = drop_bit (64 - len) shard_prefix
               in account_prefix = shard_prefix))"

subsection \<open>Tagged prefixes\<close>

definition tagged :: "u64 \<Rightarrow> nat \<Rightarrow> bool" where
  "tagged p t \<longleftrightarrow> t < 64 \<and> bit p t \<and> (\<forall>i<t. \<not> bit p i)"

lemma tagged_take_bit: "tagged p t \<Longrightarrow> take_bit (Suc t) p = push_bit t 1"
  by (rule bit_word_eqI) (auto simp: tagged_def bit_simps less_Suc_eq)

lemma unat_push_bit_one: "t < 64 \<Longrightarrow> unat (push_bit t 1 :: u64) = 2 ^ t"
proof -
  assume "t < 64"
  then have "(2 :: nat) ^ t < 2 ^ 64" by (intro power_strict_increasing) auto
  moreover have "(push_bit t 1 :: u64) = of_nat (2 ^ t)" by (simp add: push_bit_of_1)
  ultimately show ?thesis by (simp only: unat_of_nat take_bit_eq_mod) simp
qed

lemma tagged_unat:
  assumes "tagged p t"
  shows "unat p = 2 ^ Suc t * (unat p div 2 ^ Suc t) + 2 ^ t"
proof -
  have t: "t < 64" using assms by (simp add: tagged_def)
  have "unat p mod 2 ^ Suc t = unat (take_bit (Suc t) p)"
    by (simp add: unsigned_take_bit_eq) (simp add: take_bit_eq_mod)
  also have "\<dots> = 2 ^ t"
    using t by (simp only: tagged_take_bit [OF assms] unat_push_bit_one)
  finally show ?thesis by (metis mult_div_mod_eq)
qed

lemma tagged_unique: "tagged p t \<Longrightarrow> tagged p u \<Longrightarrow> t = u"
  unfolding tagged_def by (metis linorder_neqE_nat)

lemma bit_SHARD_FULL: "bit SHARD_FULL n \<longleftrightarrow> n = 63"
  unfolding SHARD_FULL_def by (simp only: bit_push_bit_iff) (auto simp: possible_bit_word)

lemma tagged_full: "tagged SHARD_FULL 63"
  by (auto simp: tagged_def bit_SHARD_FULL)

lemma tagged_63_full: "tagged p 63 \<Longrightarrow> p = SHARD_FULL"
proof (rule bit_word_eqI)
  fix n assume p: "tagged p 63" and "n < LENGTH(64)"
  then have "n < 63 \<or> n = 63" by auto
  with p show "bit p n = bit SHARD_FULL n"
    by (auto simp: tagged_def bit_SHARD_FULL)
qed

lemma unat_drop_bit_div: "unat (drop_bit n (w :: u64)) = unat w div 2 ^ n"
  by (simp only: unat_drop_bit_eq) (simp add: drop_bit_eq_div)

lemma drop_bit_eq_iff_div:
  "drop_bit n (v :: u64) = drop_bit n w \<longleftrightarrow> unat v div 2 ^ n = unat w div 2 ^ n"
  by (metis unat_drop_bit_div unsigned_word_eqI)

subsection \<open>The prefix of an account\<close>

text \<open>
  \<open>u64::from_be_bytes\<close> and \<open>u64::to_be_bytes\<close>, and the first eight bytes of an
  account as the number the prefix arithmetic is about.
\<close>

definition from_be_bytes :: "bytes \<Rightarrow> u64" where
  "from_be_bytes bs = foldl (\<lambda>v b. push_bit 8 v OR ucast b) 0 bs"

definition to_be_bytes :: "u64 \<Rightarrow> bytes" where
  "to_be_bytes w = map (\<lambda>i. ucast (drop_bit (8 * (7 - i)) w)) [0..<8]"

definition account_head :: "uint256 \<Rightarrow> u64" where
  "account_head account = from_be_bytes (take 8 account)"

lemma from_be_bytes_snoc: "from_be_bytes (bs @ [b]) = push_bit 8 (from_be_bytes bs) OR ucast b"
  by (simp add: from_be_bytes_def)

lemma bit_from_be_bytes:
  "bit (from_be_bytes bs) n \<longleftrightarrow>
     n < 64 \<and> n div 8 < length bs \<and> bit (rev bs ! (n div 8)) (n mod 8)"
proof (induction bs arbitrary: n rule: rev_induct)
  case Nil
  then show ?case by (simp add: from_be_bytes_def)
next
  case (snoc b bs)
  show ?case
  proof (cases "n < 8")
    case True
    then show ?thesis by (simp add: from_be_bytes_snoc bit_simps)
  next
    case False
    then obtain m where "n = m + 8" by (metis add.commute le_Suc_ex not_less)
    moreover have "(m + 8) div 8 = Suc (m div 8)" "(m + 8) mod 8 = m mod 8" by simp_all
    ultimately show ?thesis
      by (auto simp: from_be_bytes_snoc bit_simps snoc.IH dest: bit_imp_le_length)
  qed
qed

lemma bit_account_head:
  assumes "8 \<le> length account"
  shows "bit (account_head account) n \<longleftrightarrow> n < 64 \<and> bit (account ! (7 - n div 8)) (n mod 8)"
proof (cases "n < 64")
  case True
  then have "n div 8 < 8" by auto
  moreover have "rev (take 8 account) ! k = account ! (7 - k)" if "k < 8" for k
    using that assms by (simp add: rev_nth)
  ultimately show ?thesis
    using True assms by (simp add: account_head_def bit_from_be_bytes)
qed (simp add: account_head_def bit_from_be_bytes)

lemma bit_shifted_byte:
  "bit (push_bit m (ucast (b :: u8)) :: u64) n \<longleftrightarrow> m \<le> n \<and> n < 64 \<and> n - m < 8 \<and> bit b (n - m)"
  by (auto simp: bit_simps dest: bit_imp_le_length)

lemma bit_fold_or:
  "bit (fold (\<lambda>(i, byte) value. value OR push_bit (8 * (7 - i)) (ucast (byte :: u8)))
          (enumerate k xs) (v :: u64)) n \<longleftrightarrow>
     bit v n \<or> (\<exists>i < length xs. bit (push_bit (8 * (7 - (k + i))) (ucast (xs ! i)) :: u64) n)"
proof (induction xs arbitrary: k v)
  case (Cons x xs)
  show ?case
    by (subst enumerate_simps, simp add: Cons.IH bit_or_iff)
      (auto simp: less_Suc_eq_0_disj)
qed simp

lemma byte_position:
  fixes i n :: nat
  assumes "i < 8"
  shows "8 * (7 - i) \<le> n \<and> n < 64 \<and> n - 8 * (7 - i) < 8 \<longleftrightarrow> n < 64 \<and> i = 7 - n div 8" (is ?pos)
    and "8 * (7 - i) \<le> n \<Longrightarrow> n - 8 * (7 - i) < 8 \<Longrightarrow> n - 8 * (7 - i) = n mod 8"
proof -
  define a b where "a = n div 8" and "b = n mod 8"
  then have n: "n = 8 * a + b" "b < 8" by simp_all
  show ?pos unfolding a_def [symmetric] using n assms by auto
  show "n - 8 * (7 - i) = n mod 8" if "8 * (7 - i) \<le> n" "n - 8 * (7 - i) < 8"
  proof -
    from that n have "a = 7 - i" by auto
    with n show ?thesis by simp
  qed
qed

lemma byte_bit_position:
  assumes "i < 8"
  shows "bit (push_bit (8 * (7 - i)) (ucast (b :: u8)) :: u64) n \<longleftrightarrow>
           n < 64 \<and> i = 7 - n div 8 \<and> bit b (n mod 8)"
  using byte_position [OF assms, of n] by (auto simp: bit_shifted_byte)

lemma byte_window:
  fixes n q r :: nat
  assumes "n < 64" "r < 8" "8 * q + r \<le> 64"
  shows "7 - n div 8 < q \<or> 0 < r \<and> q = 7 - n div 8 \<and> 64 - (8 * q + r) \<le> n \<longleftrightarrow>
    64 - (8 * q + r) \<le> n"
proof -
  define a b where "a = n div 8" and "b = n mod 8"
  then have n: "n = 8 * a + b" "b < 8" by simp_all
  with assms have "a < 8" by simp
  with n assms(2,3) show ?thesis unfolding a_def [symmetric] by auto
qed

lemma account_prefix_bit:
  assumes len: "len \<le> 64" and acc: "8 \<le> length account"
  shows "bit (account_prefix account len) n \<longleftrightarrow> 64 - len \<le> n \<and> bit (account_head account) n"
proof -
  define q where "q = len div 8"
  define r where "r = len mod 8"
  have qr: "len = 8 * q + r" "r < 8" by (simp_all add: q_def r_def)
  have q8: "q \<le> 8" using len qr by linarith
  have whole: "bit (fold (\<lambda>(i, byte) value. value OR push_bit (8 * (7 - i)) (ucast byte))
                 (enumerate 0 (take q account)) (0 :: u64)) n \<longleftrightarrow>
               n < 64 \<and> 7 - n div 8 < q \<and> bit (account ! (7 - n div 8)) (n mod 8)"
  proof -
    have "bit (push_bit (8 * (7 - (0 + i))) (ucast (take q account ! i)) :: u64) n \<longleftrightarrow>
        n < 64 \<and> i = 7 - n div 8 \<and> bit (account ! i) (n mod 8)" if "i < q" for i
      using that q8 byte_bit_position [of i "take q account ! i" n] by simp
    moreover have "length (take q account) = q" using q8 acc by simp
    ultimately show ?thesis
      by (auto simp: bit_fold_or simp del: nth_take)
  qed
  show ?thesis
  proof (cases "r = 0")
    case True
    have "7 - n div 8 < q \<longleftrightarrow> 64 - len \<le> n" if "n < 64"
      using byte_window [OF that, of r q] qr True len by simp
    with True whole show ?thesis
      by (auto simp: account_prefix_def q_def [symmetric] r_def [symmetric]
          bit_account_head [OF acc])
  next
    case False
    with qr len have q7: "q < 8" by linarith
    have part: "bit (push_bit (8 * (7 - q) + 8 - r) (ucast (drop_bit (8 - r) (account ! q))) :: u64) n \<longleftrightarrow>
        n < 64 \<and> q = 7 - n div 8 \<and> 64 - len \<le> n \<and> bit (account ! (7 - n div 8)) (n mod 8)"
    proof -
      have "bit (push_bit (8 * (7 - q) + 8 - r) (ucast (drop_bit (8 - r) (account ! q))) :: u64) n \<longleftrightarrow>
          8 * (7 - q) + 8 - r \<le> n \<and> n < 64 \<and> n - 8 * (7 - q) < 8 \<and> bit (account ! q) (n - 8 * (7 - q))"
        using qr(2) False by (auto simp: bit_simps dest: bit_imp_le_length)
      moreover have "8 * (7 - q) + 8 - r = 64 - len" using qr q7 by simp
      ultimately have lhs: "bit (push_bit (8 * (7 - q) + 8 - r) (ucast (drop_bit (8 - r) (account ! q))) :: u64) n \<longleftrightarrow>
          64 - len \<le> n \<and> n < 64 \<and> n - 8 * (7 - q) < 8 \<and> bit (account ! q) (n - 8 * (7 - q))"
        by (simp only:)
      have le: "8 * (7 - q) \<le> 64 - len" using qr q7 by simp
      show ?thesis
      proof (cases "8 * (7 - q) \<le> n \<and> n < 64 \<and> n - 8 * (7 - q) < 8")
        case True
        then have "q = 7 - n div 8" "n - 8 * (7 - q) = n mod 8"
          using byte_position [OF q7, of n] by blast+
        with True show ?thesis unfolding lhs by metis
      next
        case out: False
        then have "\<not> (n < 64 \<and> q = 7 - n div 8)"
          using byte_position(1) [OF q7, of n] by blast
        moreover have "\<not> (64 - len \<le> n \<and> n < 64 \<and> n - 8 * (7 - q) < 8)"
          using out le by linarith
        ultimately show ?thesis unfolding lhs by blast
      qed
    qed
    have split: "7 - n div 8 < q \<or> q = 7 - n div 8 \<and> 64 - len \<le> n \<longleftrightarrow> 64 - len \<le> n" if "n < 64"
      using byte_window [OF that, of r q] qr False len by simp
    show ?thesis
      using False whole part split
      by (auto simp: account_prefix_def q_def [symmetric] r_def [symmetric] Let_def bit_or_iff
          bit_account_head [OF acc])
  qed
qed

lemma account_prefix_drop_bit:
  assumes "len \<le> 64" "8 \<le> length account"
  shows "drop_bit (64 - len) (account_prefix account len) = drop_bit (64 - len) (account_head account)"
  by (rule bit_word_eqI) (simp add: bit_drop_bit_eq account_prefix_bit [OF assms])

lemma div_tag: "(2 ^ Suc t * k + 2 ^ t) div 2 ^ Suc t = (k :: nat)"
  by simp

lemma split_tags:
  assumes tag: "tagged p (Suc t)"
  defines "l \<equiv> p - push_bit t 1" and "r \<equiv> p + push_bit t 1"
  shows "unat l = unat p - 2 ^ t" "unat r = unat p + 2 ^ t"
    and "unat l div 2 ^ Suc t = 2 * (unat p div 2 ^ Suc (Suc t))"
    and "unat r div 2 ^ Suc t = Suc (2 * (unat p div 2 ^ Suc (Suc t)))"
proof -
  have t: "Suc t < 64" using tag by (simp add: tagged_def)
  define q where "q = unat p div 2 ^ Suc (Suc t)"
  have p: "unat p = 4 * 2 ^ t * q + 2 * 2 ^ t"
    using tagged_unat [OF tag] by (simp add: q_def)
  have one: "unat (push_bit t 1 :: u64) = 2 ^ t"
    using t by (simp only: unat_push_bit_one)
  have "2 + t + (62 - t) = 64" using t by simp
  then have pow: "2 ^ 2 * 2 ^ t * 2 ^ (62 - t) = (2 :: nat) ^ 64" by (metis power_add)
  have "unat p < 2 ^ 64" using unsigned_less [of p, where ?'a = nat] by simp
  then have "4 * 2 ^ t * q < (2 :: nat) ^ 64" unfolding p by linarith
  then have "2 ^ 2 * 2 ^ t * q < 2 ^ 2 * 2 ^ t * (2 :: nat) ^ (62 - t)" unfolding pow by simp
  then have "q < 2 ^ (62 - t)" by (rule mult_less_cancel1 [THEN iffD1, THEN conjunct2])
  then have "Suc q \<le> 2 ^ (62 - t)" by (rule Suc_leI)
  then have "2 ^ 2 * 2 ^ t * Suc q \<le> 2 ^ 2 * 2 ^ t * (2 :: nat) ^ (62 - t)"
    by (rule mult_le_mono2)
  then have "4 * 2 ^ t * q + 4 * 2 ^ t \<le> (2 :: nat) ^ 64" unfolding pow by simp
  moreover have "(0 :: nat) < 2 ^ t" by simp
  ultimately have sum: "unat p + unat (push_bit t 1 :: u64) < 2 ^ 64"
    unfolding one p by linarith
  show r: "unat r = unat p + 2 ^ t"
    using sum one by (simp add: r_def unat_word_ariths)
  have "push_bit t 1 \<le> p" using p one by (simp add: word_le_nat_alt)
  then show l: "unat l = unat p - 2 ^ t"
    using one by (simp add: l_def unat_sub)
  have "unat l = 2 ^ Suc t * (2 * q) + 2 ^ t" using l p by simp
  then show "unat l div 2 ^ Suc t = 2 * (unat p div 2 ^ Suc (Suc t))"
    by (simp only: div_tag q_def)
  have "unat r = 2 ^ Suc t * Suc (2 * q) + 2 ^ t" using r p by simp
  then show "unat r div 2 ^ Suc t = Suc (2 * (unat p div 2 ^ Suc (Suc t)))"
    by (simp only: div_tag q_def)
qed

lemma tagged_of_unat:
  assumes "unat p = 2 ^ Suc t * q + 2 ^ t" "t < 64"
  shows "tagged p t"
proof -
  have "take_bit (Suc t) p = push_bit t 1"
  proof -
    have "unat (take_bit (Suc t) p) = unat p mod 2 ^ Suc t"
      by (simp add: unsigned_take_bit_eq) (simp add: take_bit_eq_mod)
    also have "\<dots> = 2 ^ t" using assms(1) by simp
    finally show ?thesis
      using unat_push_bit_one [OF assms(2)] by (metis unsigned_word_eqI)
  qed
  then have *: "bit (take_bit (Suc t) p) i \<longleftrightarrow> bit (push_bit t (1 :: u64)) i" for i by simp
  have one: "bit (push_bit t (1 :: u64)) i \<longleftrightarrow> i = t" for i
    using assms(2) by (simp only: bit_push_bit_iff) (auto simp: bit_1_iff)
  have "i < Suc t \<and> bit p i \<longleftrightarrow> i = t" for i
    using * [of i] unfolding one bit_take_bit_iff .
  note bits = this
  have "bit p t" using bits [of t] assms(2) by simp
  moreover have "\<not> bit p i" if "i < t" for i using bits [of i] that by simp
  ultimately show ?thesis using assms(2) by (simp add: tagged_def)
qed

lemma tagged_split:
  assumes "tagged p (Suc t)"
  shows "tagged (p - push_bit t 1) t" "tagged (p + push_bit t 1) t"
proof -
  have t: "t < 64" using assms by (simp add: tagged_def)
  have p: "unat p = 2 ^ Suc t * (2 * (unat p div 2 ^ Suc (Suc t))) + 2 * 2 ^ t"
    using tagged_unat [OF assms] by simp
  show "tagged (p - push_bit t 1) t"
    by (rule tagged_of_unat [OF _ t, where q = "2 * (unat p div 2 ^ Suc (Suc t))"])
      (use p split_tags(1) [OF assms] in simp)
  show "tagged (p + push_bit t 1) t"
    by (rule tagged_of_unat [OF _ t, where q = "Suc (2 * (unat p div 2 ^ Suc (Suc t)))"])
      (use p split_tags(2) [OF assms] in simp)
qed

subsection \<open>The shard operations of the library\<close>

text \<open>
  What the code relies on of \<open>ton_block::ShardIdent\<close>: for a prefix whose tag is bit \<open>t\<close>,
  the prefix length is \<open>63 - t\<close>, \<open>lower_bits\<close> is the tag itself, \<open>is_full\<close> holds
  for the one-bit prefix of the unsplit workchain, and \<open>split\<close>, where it does not fail (it does for prefixes that
  are too long), moves the tag one bit down to the left and to the right child.
\<close>

locale shard_lib =
  fixes prefix_len :: "shard_ident \<Rightarrow> nat"
    and lower_bits :: "u64 \<Rightarrow> u64"
    and is_full :: "shard_ident \<Rightarrow> bool"
    and split_shard_ident :: "shard_ident \<Rightarrow> (shard_ident \<times> shard_ident) res"
  assumes prefix_len_tagged: "tagged (shard_prefix_with_tag s) t \<Longrightarrow> prefix_len s = 63 - t"
    and lower_bits_tagged: "tagged p t \<Longrightarrow> lower_bits p = push_bit t 1"
    and is_full_iff: "is_full s \<longleftrightarrow> shard_prefix_with_tag s = SHARD_FULL"
    and split_tagged: "tagged (shard_prefix_with_tag s) (Suc t) \<Longrightarrow>
      split_shard_ident s = Inr (l, r) \<Longrightarrow>
      l = s\<lparr>shard_prefix_with_tag := shard_prefix_with_tag s - push_bit t 1\<rparr>
      \<and> r = s\<lparr>shard_prefix_with_tag := shard_prefix_with_tag s + push_bit t 1\<rparr>"
begin

lemma contains_account_iff:
  assumes tag: "tagged (shard_prefix_with_tag s) t" and acc: "8 \<le> length account"
  shows "contains_account prefix_len s account \<longleftrightarrow>
    unat (account_head account) div 2 ^ Suc t = unat (shard_prefix_with_tag s) div 2 ^ Suc t"
proof (cases "shard_prefix_with_tag s = SHARD_FULL")
  case True
  then have "t = 63" using tag tagged_full tagged_unique by metis
  moreover have "unat w div 2 ^ 64 = 0" for w :: u64
    using unsigned_less [of w, where ?'a = nat] by simp
  ultimately show ?thesis using True by (simp add: contains_account_def)
next
  case False
  have t: "t < 64" using tag by (simp add: tagged_def)
  have len: "prefix_len s = 63 - t" by (rule prefix_len_tagged [OF tag])
  have "t \<noteq> 63" using tag False tagged_63_full by blast
  with t have "64 - (63 - t) = Suc t" by simp
  moreover have "drop_bit (64 - (63 - t)) (account_prefix account (63 - t)) =
      drop_bit (64 - (63 - t)) (account_head account)"
    by (rule account_prefix_drop_bit) (use acc in simp_all)
  ultimately show ?thesis
    using False by (simp only: contains_account_def Let_def len if_False drop_bit_eq_iff_div)
qed

lemma contains_full:
  "shard_prefix_with_tag s = SHARD_FULL \<Longrightarrow> contains_account prefix_len s account"
  by (simp add: contains_account_def)

text \<open>Splitting a shard partitions its accounts between the two children.\<close>

lemma split_partition:
  assumes tag: "tagged (shard_prefix_with_tag s) (Suc t)" and acc: "8 \<le> length account"
    and split: "split_shard_ident s = Inr (l, r)"
  shows "contains_account prefix_len s account \<longleftrightarrow>
      contains_account prefix_len l account \<or> contains_account prefix_len r account"
    and "\<not> (contains_account prefix_len l account \<and> contains_account prefix_len r account)"
proof -
  note parts = split_tags [OF tag]
  have lr: "shard_prefix_with_tag l = shard_prefix_with_tag s - push_bit t 1"
    "shard_prefix_with_tag r = shard_prefix_with_tag s + push_bit t 1"
    using split_tagged [OF tag split] by auto
  have t: "t < 64" using tag by (simp add: tagged_def)
  have tags: "tagged (shard_prefix_with_tag l) t" "tagged (shard_prefix_with_tag r) t"
    using tagged_split [OF tag] lr by simp_all
  define x where "x = unat (account_head account) div 2 ^ Suc t"
  have parent: "unat (account_head account) div 2 ^ Suc (Suc t) = x div 2"
    by (simp add: x_def div_mult2_eq [symmetric] mult.commute)
  have halves: "x div 2 = q \<longleftrightarrow> x = 2 * q \<or> x = Suc (2 * q)" for q :: nat by auto
  show "contains_account prefix_len s account \<longleftrightarrow>
      contains_account prefix_len l account \<or> contains_account prefix_len r account"
    unfolding contains_account_iff [OF tag acc] contains_account_iff [OF tags(1) acc]
      contains_account_iff [OF tags(2) acc] lr parts(3,4) parent x_def [symmetric]
    by (rule halves)
  show "\<not> (contains_account prefix_len l account \<and> contains_account prefix_len r account)"
    unfolding contains_account_iff [OF tags(1) acc]
      contains_account_iff [OF tags(2) acc] lr parts(3,4) by simp
qed

end

subsection \<open>A concrete instance of the library interface\<close>

text \<open>
  The documented behaviour computed bit by bit: the interface has a model, and the witnesses
  evaluate with it.
\<close>

definition tag_position :: "u64 \<Rightarrow> nat" where
  "tag_position p = length (takeWhile (\<lambda>i. \<not> bit p i) [0..<64])"

definition doc_prefix_len :: "shard_ident \<Rightarrow> nat" where
  "doc_prefix_len s = 63 - tag_position (shard_prefix_with_tag s)"

definition doc_lower_bits :: "u64 \<Rightarrow> u64" where
  "doc_lower_bits p = push_bit (tag_position p) 1"

definition doc_is_full :: "shard_ident \<Rightarrow> bool" where
  "doc_is_full s \<longleftrightarrow> shard_prefix_with_tag s = SHARD_FULL"

definition doc_split :: "shard_ident \<Rightarrow> (shard_ident \<times> shard_ident) res" where
  "doc_split s =
     (let p = shard_prefix_with_tag s; t = tag_position p
      in if t < 4 then Inl (Foreign ''cannot split shard, because its prefix is too long'')
         else Inr (s\<lparr>shard_prefix_with_tag := p - push_bit (t - 1) 1\<rparr>,
                   s\<lparr>shard_prefix_with_tag := p + push_bit (t - 1) 1\<rparr>))"

lemma tag_position_tagged: "tagged p t \<Longrightarrow> tag_position p = t"
proof -
  assume tag: "tagged p t"
  then have "[0..<t + (64 - t)] = [0..<t] @ [t..<t + (64 - t)]"
    by (intro upt_add_eq_append) simp
  moreover have "[t..<t + (64 - t)] = t # [Suc t..<t + (64 - t)]"
    using tag by (intro upt_conv_Cons) (simp add: tagged_def)
  moreover have "takeWhile (\<lambda>i. \<not> bit p i) ([0..<t] @ t # [Suc t..<t + (64 - t)]) = [0..<t]"
    using tag by (subst takeWhile_append2) (auto simp: tagged_def)
  moreover have "t + (64 - t) = 64" using tag by (simp add: tagged_def)
  ultimately show ?thesis by (simp only: tag_position_def length_upt)
qed

interpretation doc_shards: shard_lib doc_prefix_len doc_lower_bits doc_is_full doc_split
  by unfold_locales
    (simp_all add: doc_prefix_len_def doc_lower_bits_def doc_is_full_def doc_split_def
      tag_position_tagged Let_def split: if_split_asm)

lemma doc_split_tagged:
  "tagged (shard_prefix_with_tag s) (Suc t) \<Longrightarrow> 3 \<le> t \<Longrightarrow> doc_split s = Inr
     (s\<lparr>shard_prefix_with_tag := shard_prefix_with_tag s - push_bit t 1\<rparr>,
      s\<lparr>shard_prefix_with_tag := shard_prefix_with_tag s + push_bit t 1\<rparr>)"
  by (simp add: doc_split_def tag_position_tagged Let_def)

end
