(* ===== verification/Accounts.thy ===== *)
theory Accounts
  imports Shards
begin

section \<open>Account states and existing contracts\<close>

text \<open>
  The parts of the \<open>ton_block\<close> account data the relay looks at, and
  \<open>src/utils/existing_contract.rs\<close>. Reading a cell may fail, so \<open>read_account\<close> is a
  result. A cell is opaque: its bytes, hashed by a \<open>repr_hash\<close> passed as an argument.
\<close>

type_synonym cell = bytes

datatype account_state =
    AccountUninit
  | AccountFrozen
  | AccountActive (state_init_code: "cell option")

record account_stuff =
  balance :: u128
  acc_state :: account_state

datatype account_data = AccountNone | Account account_stuff

record shard_account =
  read_account :: "account_data res"
  last_trans_lt :: u64
  last_trans_hash :: uint256

datatype last_transaction_id = Exact u64 uint256

record existing_contract =
  account :: account_stuff
  last_transaction_id :: last_transaction_id

definition from_shard_account :: "shard_account \<Rightarrow> existing_contract option res" where
  "from_shard_account sa =
     rbind (read_account sa) (\<lambda>a. Inr
       (case a of
          Account acc \<Rightarrow> Some \<lparr>account = acc,
            last_transaction_id = Exact (last_trans_lt sa) (last_trans_hash sa)\<rparr>
        | AccountNone \<Rightarrow> None))"

definition from_shard_account_opt :: "shard_account option \<Rightarrow> existing_contract option res" where
  "from_shard_account_opt sa = (case sa of Some a \<Rightarrow> from_shard_account a | None \<Rightarrow> Inr None)"

definition make_existing_contract :: "shard_account option \<Rightarrow> existing_contract option res" where
  "make_existing_contract state =
     (case state of
        None \<Rightarrow> Inr None
      | Some this \<Rightarrow> rbind (read_account this) (\<lambda>a.
          (case a of
             AccountNone \<Rightarrow> Inr None
           | Account acc \<Rightarrow> Inr (Some \<lparr>account = acc,
               last_transaction_id = Exact (last_trans_lt this) (last_trans_hash this)\<rparr>))))"

definition extract_code_hash :: "(cell \<Rightarrow> uint256) \<Rightarrow> shard_account \<Rightarrow> uint256 option res" where
  "extract_code_hash repr_hash sa =
     rbind (read_account sa) (\<lambda>a. Inr
       (case a of
          Account acc \<Rightarrow>
            (case acc_state acc of
               AccountActive (Some code) \<Rightarrow> Some (repr_hash code)
             | _ \<Rightarrow> None)
        | AccountNone \<Rightarrow> None))"

text \<open>A collection of accounts: the lookup of \<open>ton_block::ShardAccounts\<close>, which may fail.\<close>

type_synonym shard_accounts = "uint256 \<Rightarrow> shard_account option res"

definition find_account :: "shard_accounts \<Rightarrow> uint256 \<Rightarrow> existing_contract option res" where
  "find_account accounts acc =
     rbind (rbind (accounts acc) from_shard_account_opt)
       (\<lambda>c. (case c of Some contract \<Rightarrow> Inr (Some contract) | None \<Rightarrow> Inr None))"

text \<open>Local execution of a getter: the exit code is an error unless there are output tokens.\<close>

record 't execution_output =
  tokens :: "'t option"
  result_code :: i32

definition run_local :: "'t execution_output res \<Rightarrow> 't res" where
  "run_local output =
     rbind output (\<lambda>out. ok_or (NonZeroResultCode (result_code out)) (tokens out))"

text \<open>The account map over all shards: \<open>find\<close> the first shard that contains the account.\<close>

definition find_in_shards ::
  "(shard_ident \<Rightarrow> nat) \<Rightarrow> (shard_ident, shard_accounts) hashmap \<Rightarrow> uint256 \<Rightarrow> existing_contract option res"
where
  "find_in_shards prefix_len shards acc =
     (case find (\<lambda>(shard_ident, _). contains_account prefix_len shard_ident acc) shards of
        Some (_, shard) \<Rightarrow> find_account shard acc
      | None \<Rightarrow> Inl InvalidContractAddress)"

lemma find_account_None:
  "accounts acc = Inr None \<Longrightarrow> find_account accounts acc = Inr None"
  by (simp add: find_account_def from_shard_account_opt_def)

lemma make_existing_contract_eq: "make_existing_contract = from_shard_account_opt"
  by (rule ext) (auto simp: make_existing_contract_def from_shard_account_opt_def
      from_shard_account_def rbind_def split: option.splits sum.splits account_data.splits)

lemma find_account_eq: "find_account accounts acc = rbind (accounts acc) from_shard_account_opt"
  by (auto simp: find_account_def rbind_def split: sum.splits option.splits)

lemma extract_code_hash_Some:
  assumes "extract_code_hash rh sa = Inr (Some h)"
  shows "\<exists>acc code. read_account sa = Inr (Account acc) \<and> acc_state acc = AccountActive (Some code) \<and> h = rh code"
proof -
  obtain a where a: "read_account sa = Inr a"
    using assms by (auto simp: extract_code_hash_def rbind_eq_Inr_iff)
  show ?thesis
  proof (cases a)
    case (Account acc)
    with a assms show ?thesis
      by (cases "acc_state acc") (auto simp: extract_code_hash_def split: option.split_asm)
  qed (use a assms in \<open>simp add: extract_code_hash_def\<close>)
qed

end
