(* ===== verification/Code_Hash_Index.thy ===== *)
theory Code_Hash_Index
  imports Accounts
begin

section \<open>The persistent index of accounts by code hash\<close>

text \<open>
  \<open>PersistentStorage\<close> of \<open>src/storage/mod.rs\<close> keeps two RocksDB column families: the
  primary index \<open>code_hash, workchain, account\<close> and the secondary one
  \<open>workchain, account \<mapsto> code_hash\<close>. A column family is the association list of its
  contents; a write batch is the list of its operations, applied in order by
  \<open>write_batch_apply\<close>; a range deletion removes the keys in a half-open interval of the
  bytewise order (RocksDB's default comparator). These three are RocksDB's documented
  behaviour and carry no code of this repository.
\<close>

record db =
  code_hashes :: "(bytes, bytes) hashmap"
  code_hashes_by_address :: "(bytes, bytes) hashmap"

datatype column_family = CodeHashes | CodeHashesByAddress

datatype batch_op = PutCf column_family bytes bytes | DeleteCf column_family bytes

fun apply_op :: "batch_op \<Rightarrow> db \<Rightarrow> db" where
  "apply_op (PutCf CodeHashes k v) d = d\<lparr>code_hashes := hm_insert k v (code_hashes d)\<rparr>"
| "apply_op (PutCf CodeHashesByAddress k v) d =
     d\<lparr>code_hashes_by_address := hm_insert k v (code_hashes_by_address d)\<rparr>"
| "apply_op (DeleteCf CodeHashes k) d = d\<lparr>code_hashes := hm_remove k (code_hashes d)\<rparr>"
| "apply_op (DeleteCf CodeHashesByAddress k) d =
     d\<lparr>code_hashes_by_address := hm_remove k (code_hashes_by_address d)\<rparr>"

definition write_batch_apply :: "batch_op list \<Rightarrow> db \<Rightarrow> db" where
  "write_batch_apply ops d = fold apply_op ops d"

fun bytes_le :: "bytes \<Rightarrow> bytes \<Rightarrow> bool" where
  "bytes_le [] ys = True"
| "bytes_le (x # xs) [] = False"
| "bytes_le (x # xs) (y # ys) = (x < y \<or> x = y \<and> bytes_le xs ys)"

definition delete_range :: "bytes \<Rightarrow> bytes \<Rightarrow> (bytes, bytes) hashmap \<Rightarrow> (bytes, bytes) hashmap" where
  "delete_range from to t = hm_retain (\<lambda>k _. \<not> (bytes_le from k \<and> bytes_le k to \<and> k \<noteq> to)) t"

subsection \<open>Keys\<close>

definition CODE_HASHES_KEY_LEN :: nat where
  "CODE_HASHES_KEY_LEN = 32 + 1 + 32"

definition CODE_HASHES_BY_ADDRESS_KEY_LEN :: nat where
  "CODE_HASHES_BY_ADDRESS_KEY_LEN = 1 + 32"

definition code_hashes_id :: "u8 \<Rightarrow> uint256 \<Rightarrow> uint256 \<Rightarrow> bytes" where
  "code_hashes_id workchain acc code_hash = code_hash @ workchain # acc"

definition code_hashes_by_address_id :: "u8 \<Rightarrow> uint256 \<Rightarrow> bytes" where
  "code_hashes_by_address_id workchain acc = workchain # acc"

definition extend_account_prefix :: "(u64 \<Rightarrow> u64) \<Rightarrow> shard_ident \<Rightarrow> bool \<Rightarrow> bytes" where
  "extend_account_prefix lower_bits shard is_max =
     (let prefix = shard_prefix_with_tag shard;
          prefix = (if is_max then prefix OR (prefix - 1) else prefix - lower_bits prefix)
      in to_be_bytes prefix @ replicate 24 (0xff * (if is_max then 1 else 0)))"

subsection \<open>Index updates for a block\<close>

definition update_code_hash ::
  "(cell \<Rightarrow> uint256) \<Rightarrow> db \<Rightarrow> u8 \<Rightarrow> uint256 \<Rightarrow> shard_accounts \<Rightarrow> bool \<Rightarrow> batch_op list \<Rightarrow> batch_op list res"
where
  "update_code_hash repr_hash d workchain acc accounts remove write_batch =
     (let old_code_hash = hm_get (code_hashes_by_address d) (code_hashes_by_address_id workchain acc)
      in rbind (if \<not> remove
                then rbind (accounts acc) (\<lambda>a. case a of Some a \<Rightarrow> extract_code_hash repr_hash a | None \<Rightarrow> Inr None)
                else Inr None)
         (\<lambda>new_code_hash.
            if remove \<and> old_code_hash = None
               \<or> (case (old_code_hash, new_code_hash) of (Some old, Some new) \<Rightarrow> old = new | _ \<Rightarrow> False)
            then Inr write_batch
            else
              let write_batch =
                    (case old_code_hash of
                       Some old \<Rightarrow> write_batch @ [DeleteCf CodeHashes (code_hashes_id workchain acc old)]
                     | None \<Rightarrow> write_batch)
              in Inr (case new_code_hash of
                   Some new \<Rightarrow> write_batch @
                     [PutCf CodeHashes (code_hashes_id workchain acc new) new,
                      PutCf CodeHashesByAddress (code_hashes_by_address_id workchain acc) new]
                 | None \<Rightarrow> write_batch @
                     [DeleteCf CodeHashesByAddress (code_hashes_by_address_id workchain acc)])))"

datatype account_status = AccStateUninit | AccStateFrozen | AccStateActive | AccStateNonexist

text \<open>A transaction of the block; reading its description cell may fail.\<close>

record block_tx =
  orig_status :: account_status
  end_status :: account_status
  action_spec_actions :: "u16 option res" \<comment> \<open>\<open>spec_actions\<close> of the action phase, if there is one\<close>

record tx_flags =
  has_special_actions :: bool
  was_active :: bool
  is_active :: bool
  first_tx :: bool

definition update_marker_flags :: "tx_flags \<Rightarrow> block_tx res \<Rightarrow> tx_flags res" where
  "update_marker_flags fl tx =
     rbind tx (\<lambda>tx.
       let fl = (if first_tx fl
                 then fl\<lparr>was_active := (orig_status tx = AccStateActive), first_tx := False\<rparr> else fl);
           fl = (if was_active fl \<and> orig_status tx \<noteq> AccStateActive
                 then fl\<lparr>has_special_actions := True\<rparr> else fl);
           fl = fl\<lparr>is_active := (end_status tx = AccStateActive)\<rparr>
       in if \<not> has_special_actions fl
          then rbind (action_spec_actions tx) (\<lambda>phase.
            Inr (case phase of
                   Some spec_actions \<Rightarrow>
                     fl\<lparr>has_special_actions := has_special_actions fl \<or> spec_actions \<noteq> 0\<rparr>
                 | None \<Rightarrow> fl))
          else Inr fl)"

fun scan_transactions :: "tx_flags \<Rightarrow> block_tx res list \<Rightarrow> tx_flags res" where
  "scan_transactions fl [] = Inr fl"
| "scan_transactions fl (tx # txs) = rbind (update_marker_flags fl tx) (\<lambda>fl. scan_transactions fl txs)"

definition code_hash_update :: "tx_flags \<Rightarrow> bool option" where
  "code_hash_update fl =
     (if is_active fl \<and> (\<not> was_active fl \<or> has_special_actions fl) then Some False
      else if was_active fl \<and> \<not> is_active fl then Some True
      else None)"

definition update_account ::
  "(cell \<Rightarrow> uint256) \<Rightarrow> db \<Rightarrow> u8 \<Rightarrow> shard_accounts option \<Rightarrow> uint256 \<Rightarrow> block_tx res list \<Rightarrow>
     batch_op list \<Rightarrow> batch_op list res"
where
  "update_account repr_hash d workchain accounts acc txs write_batch =
     rbind (scan_transactions \<lparr>has_special_actions = (accounts = None), was_active = False,
              is_active = False, first_tx = True\<rparr> txs)
       (\<lambda>fl.
          case accounts of
            Some accounts \<Rightarrow>
              (case code_hash_update fl of
                 Some remove \<Rightarrow> update_code_hash repr_hash d workchain acc accounts remove write_batch
               | None \<Rightarrow> Inr write_batch)
          | None \<Rightarrow> Inr write_batch)"

fun update_accounts ::
  "(cell \<Rightarrow> uint256) \<Rightarrow> db \<Rightarrow> u8 \<Rightarrow> shard_accounts option \<Rightarrow> (uint256 \<times> block_tx res list) list \<Rightarrow>
     batch_op list \<Rightarrow> batch_op list res"
where
  "update_accounts repr_hash d workchain accounts [] write_batch = Inr write_batch"
| "update_accounts repr_hash d workchain accounts ((acc, txs) # blocks) write_batch =
     rbind (update_account repr_hash d workchain accounts acc txs write_batch)
       (\<lambda>write_batch. update_accounts repr_hash d workchain accounts blocks write_batch)"

text \<open>\<open>i8::try_from\<close> of the workchain id: blocks of other workchains are ignored.\<close>

definition workchain_i8 :: "i32 \<Rightarrow> u8 option" where
  "workchain_i8 wc = (if - 128 \<le> sint wc \<and> sint wc \<le> 127 then Some (ucast wc) else None)"

definition update ::
  "(cell \<Rightarrow> uint256) \<Rightarrow> i32 \<Rightarrow> (uint256 \<times> block_tx res list) list res \<Rightarrow> shard_accounts res option \<Rightarrow>
     db \<Rightarrow> db res"
where
  "update repr_hash wc account_blocks shard_state d =
     (case workchain_i8 wc of
        None \<Rightarrow> Inr d
      | Some workchain \<Rightarrow>
          rbind account_blocks (\<lambda>account_blocks.
          rbind (case shard_state of None \<Rightarrow> Inr None | Some accounts \<Rightarrow> rbind accounts (\<lambda>a. Inr (Some a)))
            (\<lambda>accounts.
          rbind (update_accounts repr_hash d workchain accounts account_blocks [])
            (\<lambda>write_batch. Inr (write_batch_apply write_batch d)))))"

subsection \<open>Rebuilding the index of a shard\<close>

text \<open>
  \<open>remove_code_hashes\<close> deletes the accounts of a shard: an inclusive key range of the
  secondary index, and a full scan of the primary one. \<open>split_shard\<close> and
  \<open>reset_accounts\<close> then insert the code hashes of the shard state, virtual shard by
  virtual shard. The accounts of a state are the entries an iteration meets; splitting them
  is the library's.
\<close>

definition scan_matches :: "(u64 \<Rightarrow> u64) \<Rightarrow> (shard_ident \<Rightarrow> bool) \<Rightarrow> shard_ident \<Rightarrow> bytes \<Rightarrow> bool" where
  "scan_matches lower_bits is_full shard key =
     (let workchain = ucast (workchain_id shard) :: u8;
          prefix = shard_prefix_with_tag shard;
          lower = lower_bits prefix;
          prefix = prefix - lower;
          lower = lower OR (lower - 1)
      in length key \<noteq> CODE_HASHES_KEY_LEN
         \<or> key ! 32 = workchain
           \<and> (is_full shard
              \<or> (from_be_bytes (take 8 (drop 33 key)) XOR prefix) AND NOT lower = 0))"

definition remove_code_hashes ::
  "(u64 \<Rightarrow> u64) \<Rightarrow> (shard_ident \<Rightarrow> bool) \<Rightarrow> shard_ident \<Rightarrow> db \<Rightarrow> db"
where
  "remove_code_hashes lower_bits is_full shard d =
     (let workchain = ucast (workchain_id shard) :: u8;
          from = workchain # extend_account_prefix lower_bits shard False;
          to = workchain # extend_account_prefix lower_bits shard True;
          d = d\<lparr>code_hashes_by_address :=
                  hm_remove to (delete_range from to (code_hashes_by_address d))\<rparr>
      in d\<lparr>code_hashes := hm_retain (\<lambda>key _. \<not> scan_matches lower_bits is_full shard key)
                           (code_hashes d)\<rparr>)"

type_synonym state_accounts = "(bytes \<times> shard_account) res list"

fun split_shard ::
  "(shard_ident \<Rightarrow> (shard_ident \<times> shard_ident) res) \<Rightarrow>
   (shard_ident \<Rightarrow> state_accounts \<Rightarrow> (state_accounts \<times> state_accounts) res) \<Rightarrow>
   shard_ident \<Rightarrow> state_accounts \<Rightarrow> nat \<Rightarrow> (shard_ident, state_accounts) hashmap \<Rightarrow>
   (shard_ident, state_accounts) hashmap res"
where
  "split_shard split split_accounts ident accounts 0 shards = Inr (hm_insert ident accounts shards)"
| "split_shard split split_accounts ident accounts (Suc depth) shards =
     rbind (split ident) (\<lambda>(left_shard_ident, right_shard_ident).
     rbind (split_accounts ident accounts) (\<lambda>(left_accounts, right_accounts).
     rbind (split_shard split split_accounts left_shard_ident left_accounts depth shards) (\<lambda>shards.
       split_shard split split_accounts right_shard_ident right_accounts depth shards)))"

fun collect_code_hashes ::
  "(cell \<Rightarrow> uint256) \<Rightarrow> u8 \<Rightarrow> state_accounts \<Rightarrow> batch_op list \<Rightarrow> batch_op list res"
where
  "collect_code_hashes repr_hash workchain [] write_batch = Inr write_batch"
| "collect_code_hashes repr_hash workchain (entry # accounts) write_batch =
     rbind entry (\<lambda>(id, acc).
       if length id \<noteq> 32 then collect_code_hashes repr_hash workchain accounts write_batch
       else rbind (extract_code_hash repr_hash acc) (\<lambda>code_hash.
         (case code_hash of
            Some code_hash \<Rightarrow> collect_code_hashes repr_hash workchain accounts
              (write_batch @
               [PutCf CodeHashes (code_hashes_id workchain id code_hash) [],
                PutCf CodeHashesByAddress (code_hashes_by_address_id workchain id) code_hash])
          | None \<Rightarrow> collect_code_hashes repr_hash workchain accounts write_batch)))"

fun collect_virtual_shards ::
  "(cell \<Rightarrow> uint256) \<Rightarrow> u8 \<Rightarrow> (shard_ident, state_accounts) hashmap \<Rightarrow> batch_op list \<Rightarrow> batch_op list res"
where
  "collect_virtual_shards repr_hash workchain [] write_batch = Inr write_batch"
| "collect_virtual_shards repr_hash workchain ((virtual_shard, accounts) # shards) write_batch =
     rbind (collect_code_hashes repr_hash workchain accounts write_batch)
       (\<lambda>write_batch. collect_virtual_shards repr_hash workchain shards write_batch)"

text \<open>An error leaves the database as far as the rebuild got: the old entries are gone.\<close>

definition reset_accounts ::
  "(u64 \<Rightarrow> u64) \<Rightarrow> (shard_ident \<Rightarrow> bool) \<Rightarrow> (shard_ident \<Rightarrow> (shard_ident \<times> shard_ident) res) \<Rightarrow>
   (shard_ident \<Rightarrow> state_accounts \<Rightarrow> (state_accounts \<times> state_accounts) res) \<Rightarrow>
   (cell \<Rightarrow> uint256) \<Rightarrow> u8 \<Rightarrow> shard_ident \<Rightarrow> state_accounts res \<Rightarrow> db \<Rightarrow> db \<times> unit res"
where
  "reset_accounts lower_bits is_full split split_accounts repr_hash shard_split_depth shard accounts d =
     (case workchain_i8 (workchain_id shard) of
        None \<Rightarrow> (d, Inr ())
      | Some workchain \<Rightarrow>
          (let d = remove_code_hashes lower_bits is_full shard d
           in case rbind accounts (\<lambda>accounts.
                   rbind (split_shard split split_accounts shard accounts (unat shard_split_depth) [])
                     (\<lambda>virtual_shards. collect_virtual_shards repr_hash workchain virtual_shards [])) of
                Inl e \<Rightarrow> (d, Inl e)
              | Inr write_batch \<Rightarrow> (write_batch_apply write_batch d, Inr ())))"

subsection \<open>Keys as numbers\<close>

fun be_val :: "bytes \<Rightarrow> nat" where
  "be_val [] = 0"
| "be_val (b # bs) = unat b * 256 ^ length bs + be_val bs"

lemma unat_inject: "unat x = unat y \<longleftrightarrow> x = (y :: 'a :: len word)"
  by (metis unsigned_word_eqI)

lemma be_val_less: "be_val bs < 256 ^ length bs"
proof (induction bs)
  case (Cons b bs)
  have "unat b < 256" using unsigned_less [of b, where ?'a = nat] by simp
  then have "Suc (unat b) * 256 ^ length bs \<le> 256 * 256 ^ length bs"
    by (intro mult_le_mono1) simp
  moreover have "be_val (b # bs) < Suc (unat b) * 256 ^ length bs" using Cons by simp
  ultimately show ?case unfolding length_Cons power_Suc by (rule less_le_trans [rotated])
qed simp

lemma be_val_snoc: "be_val (bs @ [b]) = be_val bs * 256 + unat b"
  by (induction bs) (simp_all add: algebra_simps)

lemma digit_less_iff:
  fixes a b x y n :: nat
  assumes "x < n" "y < n"
  shows "a * n + x \<le> b * n + y \<longleftrightarrow> a < b \<or> a = b \<and> x \<le> y"
proof (cases "a = b")
  case False
  have *: "c * n + u < d * n + v" if "c < d" "u < n" for c d u v :: nat
  proof -
    from that have "Suc c * n \<le> d * n" by (intro mult_le_mono1) simp
    with that show ?thesis by simp
  qed
  from False assms * [of a b x y] * [of b a y x] show ?thesis by (meson linorder_neqE_nat not_less_iff_gr_or_eq leD less_imp_le)
qed simp

lemma bytes_le_iff_be_val:
  "length xs = length ys \<Longrightarrow> bytes_le xs ys \<longleftrightarrow> be_val xs \<le> be_val ys"
proof (induction xs ys rule: bytes_le.induct)
  case (3 x xs y ys)
  then have l: "length xs = length ys" by simp
  have "be_val (x # xs) \<le> be_val (y # ys) \<longleftrightarrow> unat x < unat y \<or> unat x = unat y \<and> be_val xs \<le> be_val ys"
    using digit_less_iff [of "be_val xs" "256 ^ length ys" "be_val ys" "unat x" "unat y"]
      be_val_less [of xs] be_val_less [of ys] l by simp
  with 3 l show ?case by (auto simp: word_less_nat_alt unat_inject)
qed simp_all

lemma be_val_inject: "length xs = length ys \<Longrightarrow> be_val xs = be_val ys \<Longrightarrow> xs = ys"
proof (induction xs ys rule: list_induct2)
  case (Cons x xs y ys)
  have bounds: "be_val xs < 256 ^ length ys" "be_val ys < 256 ^ length ys"
    using be_val_less [of xs] be_val_less [of ys] Cons.hyps by simp_all
  have eq: "unat x * 256 ^ length ys + be_val xs = unat y * 256 ^ length ys + be_val ys"
    using Cons.prems Cons.hyps by simp
  have "unat x = unat y \<and> be_val xs = be_val ys"
    using digit_less_iff [OF bounds, of "unat x" "unat y"]
      digit_less_iff [OF bounds(2,1), of "unat y" "unat x"] unfolding eq by linarith
  with Cons.IH show ?case by (simp add: unat_inject)
qed simp

lemma bytes_le_append:
  "length xs = length ys \<Longrightarrow>
     bytes_le (xs @ us) (ys @ vs) \<longleftrightarrow> be_val xs < be_val ys \<or> xs = ys \<and> bytes_le us vs"
proof (induction xs ys rule: list_induct2)
  case (Cons x xs y ys)
  have num: "be_val (x # xs) < be_val (y # ys) \<longleftrightarrow> unat x < unat y \<or> x = y \<and> be_val xs < be_val ys"
    using digit_less_iff [of "be_val ys" "256 ^ length ys" "be_val xs" "unat y" "unat x"]
      be_val_less [of xs] be_val_less [of ys] Cons.hyps by (simp add: not_le [symmetric]) (auto simp: unat_inject)
  show ?case using Cons.IH unfolding num by (auto simp: word_less_nat_alt unat_inject)
qed simp

lemma bytes_le_refl [simp]: "bytes_le xs xs"
  by (induction xs) auto

lemma bytes_le_zeros [simp]: "bytes_le (replicate n 0) ys \<longleftrightarrow> n \<le> length ys \<or> (\<exists>b \<in> set ys. b \<noteq> 0)"
proof (induction n arbitrary: ys)
  case (Suc n)
  show ?case
  proof (cases ys)
    case (Cons y ys')
    have "0 < y \<longleftrightarrow> y \<noteq> 0" by (simp add: word_neq_0_conv)
    with Suc.IH [of ys'] Cons show ?thesis by auto
  qed simp
qed simp

lemma bytes_le_ones: "length ys \<le> n \<Longrightarrow> bytes_le ys (replicate n 0xff)"
proof (induction ys arbitrary: n)
  case (Cons y ys)
  then obtain m where n: "n = Suc m" "length ys \<le> m" by (cases n) auto
  have "y \<le> 0xff" using unsigned_less [of y, where ?'a = nat] by (simp add: word_le_nat_alt)
  then have "y < 0xff \<or> y = 0xff" by (simp add: le_less)
  with n Cons.IH show ?case by auto
qed simp

lemma unat_shift_or_byte:
  assumes "unat v * 256 < (2 :: nat) ^ 64"
  shows "unat (push_bit 8 v OR ucast (b :: u8) :: u64) = unat v * 256 + unat b"
proof -
  have disj: "push_bit 8 v AND ucast b = (0 :: u64)"
    by (rule bit_word_eqI) (auto simp: bit_simps dest: bit_imp_le_length)
  have "push_bit 8 v OR ucast b = push_bit 8 v + (ucast b :: u64)"
    using disj by (rule disjunctive_add_eq_or [symmetric])
  moreover have "unat (push_bit 8 v) = unat v * 256"
  proof -
    have "push_bit 8 v = v * 256" by (simp add: push_bit_eq_mult)
    with assms show ?thesis by (simp add: unat_word_ariths)
  qed
  moreover have "unat (ucast b :: u64) = unat b"
    by (simp add: unsigned_ucast_eq take_bit_nat_eq_self unsigned_less [THEN less_trans])
  moreover have "unat v * 256 + unat b < 2 ^ 64"
  proof -
    have "unat b < 256" using unsigned_less [of b, where ?'a = nat] by simp
    moreover have "unat v < 2 ^ 56" using assms by simp
    ultimately show ?thesis by simp
  qed
  ultimately show ?thesis by (simp add: unat_word_ariths)
qed

lemma unat_from_be_bytes: "length bs \<le> 8 \<Longrightarrow> unat (from_be_bytes bs) = be_val bs"
proof (induction bs rule: rev_induct)
  case Nil
  then show ?case by (simp add: from_be_bytes_def)
next
  case (snoc b bs)
  have "be_val bs < 256 ^ length bs" by (rule be_val_less)
  also have "\<dots> \<le> 256 ^ 7" using snoc.prems by (intro power_increasing) simp_all
  finally have "be_val bs * 256 < 2 ^ 64" by simp
  with snoc show ?case by (simp add: from_be_bytes_snoc unat_shift_or_byte be_val_snoc)
qed

lemma length_to_be_bytes [simp]: "length (to_be_bytes w) = 8"
  by (simp add: to_be_bytes_def)

lemma from_to_be_bytes [simp]: "from_be_bytes (to_be_bytes w) = w"
proof (rule bit_word_eqI)
  fix n assume "n < LENGTH(64)"
  then have n: "n < 64" by simp
  define a b where "a = n div 8" and "b = n mod 8"
  then have nab: "n = 8 * a + b" "b < 8" by simp_all
  with n have a: "a < 8" by simp
  have "7 - a < 8" "7 - (7 - a) = a" using a by simp_all
  then have "rev (to_be_bytes w) ! a = ucast (drop_bit (8 * a) w)"
    using a by (simp add: rev_nth to_be_bytes_def del: upt_rec_numeral)
  moreover have "bit (ucast (drop_bit (8 * a) w) :: u8) b \<longleftrightarrow> bit w n"
    using nab by (simp add: bit_simps)
  ultimately show "bit (from_be_bytes (to_be_bytes w)) n = bit w n"
    using n a by (simp add: bit_from_be_bytes a_def [symmetric] b_def [symmetric])
qed

lemma be_val_to_be_bytes [simp]: "be_val (to_be_bytes w) = unat w"
  using unat_from_be_bytes [of "to_be_bytes w"] by simp

subsection \<open>The bounds of a shard\<close>

lemma tagged_nonzero: "tagged p t \<Longrightarrow> p \<noteq> 0"
  by (auto simp: tagged_def)

lemma tagged_parts:
  assumes "tagged p t"
  obtains q where "unat p = 2 ^ Suc t * q + 2 ^ t" "q = unat p div 2 ^ Suc t"
  using tagged_unat [OF assms] by blast

lemma lower_mask:
  assumes "t < 64"
  shows "push_bit t 1 OR (push_bit t 1 - 1) = (mask (Suc t) :: u64)"
proof -
  have "push_bit t 1 - 1 = (mask t :: u64)" by (simp add: mask_eq_exp_minus_1 push_bit_of_1)
  then show ?thesis
    by (intro bit_word_eqI) (use assms in \<open>auto simp: bit_simps less_Suc_eq\<close>)
qed

lemma unat_take_bit_mod: "unat (take_bit n (w :: u64)) = unat w mod 2 ^ n"
  by (simp only: unsigned_take_bit_eq) (simp only: take_bit_eq_mod)

lemma unat_mask: "n \<le> 64 \<Longrightarrow> unat (mask n :: u64) = 2 ^ n - 1"
proof -
  assume n: "n \<le> 64"
  have "(mask n :: u64) = of_nat (mask n)" by (simp add: of_nat_mask_eq)
  moreover have "mask n < (2 :: nat) ^ 64"
  proof -
    have "mask n < (2 :: nat) ^ n" by (simp add: mask_eq_exp_minus_1)
    also have "\<dots> \<le> 2 ^ 64" using n by (intro power_increasing) simp_all
    finally show ?thesis .
  qed
  ultimately have "unat (mask n :: u64) = mask n" by (simp add: unat_of_nat)
  then show ?thesis by (simp only: mask_eq_exp_minus_1)
qed

lemma shard_from:
  assumes "tagged p t"
  shows "unat (p - push_bit t 1) = 2 ^ Suc t * (unat p div 2 ^ Suc t)"
proof -
  have t: "t < 64" using assms by (simp add: tagged_def)
  have one: "unat (push_bit t 1 :: u64) = 2 ^ t" by (rule unat_push_bit_one [OF t])
  then have "push_bit t 1 \<le> p" using tagged_unat [OF assms] by (simp add: word_le_nat_alt)
  then show ?thesis using one tagged_unat [OF assms] by (simp only: unat_sub)
qed

lemma shard_to:
  assumes "tagged p t"
  shows "unat (p OR (p - 1)) = 2 ^ Suc t * (unat p div 2 ^ Suc t) + (2 ^ Suc t - 1)"
proof -
  have t: "t < 64" using assms by (simp add: tagged_def)
  obtain q where q: "unat p = 2 ^ Suc t * q + 2 ^ t" "q = unat p div 2 ^ Suc t"
    by (rule tagged_parts [OF assms])
  have pred: "unat (p - 1) = 2 ^ Suc t * q + (2 ^ t - 1)"
  proof -
    have "1 \<le> p" using tagged_nonzero [OF assms] by (simp add: word_le_nat_alt) (metis Suc_leI unat_0 unat_inject not_gr_zero)
    then have "unat (p - 1) = unat p - 1" by (simp add: unat_sub)
    then show ?thesis using q(1) by simp
  qed
  have small: "(2 :: nat) ^ t - 1 < 2 ^ Suc t" by (simp add: less_imp_diff_less)
  have "drop_bit (Suc t) (p - 1) = drop_bit (Suc t) p"
    unfolding drop_bit_eq_iff_div pred q(2) [symmetric] using small by (simp only: div_mult_self4) simp
  then have high: "drop_bit (Suc t) (p OR (p - 1)) = drop_bit (Suc t) p" by simp
  have "take_bit (Suc t) (p - 1) = mask t"
  proof -
    have "unat (take_bit (Suc t) (p - 1)) = unat (p - 1) mod 2 ^ Suc t"
      by (simp only: unat_take_bit_mod)
    also have "\<dots> = 2 ^ t - 1" unfolding pred using small by (simp only: mod_mult_self4) simp
    also have "\<dots> = unat (mask t :: u64)"
      using t by (simp only: unat_mask)
    finally show ?thesis by (simp only: unat_inject)
  qed
  then have low: "take_bit (Suc t) (p OR (p - 1)) = mask (Suc t)"
    using tagged_take_bit [OF assms] by (intro bit_word_eqI) (auto simp: bit_simps less_Suc_eq)
  have "unat (p OR (p - 1)) div 2 ^ Suc t = q"
    using high unfolding drop_bit_eq_iff_div q(2) .
  moreover have "unat (p OR (p - 1)) mod 2 ^ Suc t = 2 ^ Suc t - 1"
  proof -
    have "unat (p OR (p - 1)) mod 2 ^ Suc t = unat (take_bit (Suc t) (p OR (p - 1)))"
      by (simp only: unat_take_bit_mod)
    also have "\<dots> = 2 ^ Suc t - 1"
      unfolding low by (rule unat_mask) (use t in simp)
    finally show ?thesis .
  qed
  ultimately show ?thesis unfolding q(2) by (metis mult_div_mod_eq)
qed

lemma interval_iff_div:
  fixes x q n :: nat
  assumes "0 < n"
  shows "n * q \<le> x \<and> x \<le> n * q + (n - 1) \<longleftrightarrow> x div n = q"
proof
  assume "x div n = q"
  moreover have "n * (x div n) + x mod n = x" by (rule mult_div_mod_eq)
  moreover have "x mod n < n" using assms by simp
  ultimately show "n * q \<le> x \<and> x \<le> n * q + (n - 1)" by auto
next
  assume x: "n * q \<le> x \<and> x \<le> n * q + (n - 1)"
  show "x div n = q" by (rule div_nat_eqI) (use x assms in \<open>auto simp: mult.commute\<close>)
qed


subsection \<open>Range deletion and scan select the accounts of the shard\<close>

lemma length_extend_account_prefix [simp]: "length (extend_account_prefix lower_bits s b) = 32"
  by (simp add: extend_account_prefix_def Let_def)

lemma account_range:
  assumes acc: "length acc = 32"
  shows "bytes_le (to_be_bytes lo @ replicate 24 0) acc \<longleftrightarrow> lo \<le> account_head acc"
    and "bytes_le acc (to_be_bytes hi @ replicate 24 0xff) \<longleftrightarrow> account_head acc \<le> hi"
proof -
  define hd tl where "hd = take 8 acc" and "tl = drop 8 acc"
  have split: "acc = hd @ tl" and len: "length hd = 8" "length tl = 24"
    using acc by (simp_all add: hd_def tl_def)
  have head: "be_val hd = unat (account_head acc)"
    using len unat_from_be_bytes [of hd] by (simp add: account_head_def hd_def)
  have eq: "to_be_bytes w = hd \<longleftrightarrow> w = account_head acc" for w
  proof
    assume "to_be_bytes w = hd"
    then have "unat w = unat (account_head acc)" using head by (simp flip: be_val_to_be_bytes)
    then show "w = account_head acc" by (simp add: unat_inject)
  next
    assume "w = account_head acc"
    then have "be_val (to_be_bytes w) = be_val hd" using head by simp
    then show "to_be_bytes w = hd" by (rule be_val_inject [rotated]) (simp add: len)
  qed
  have "bytes_le (to_be_bytes lo @ replicate 24 0) acc \<longleftrightarrow>
      unat lo < unat (account_head acc) \<or> lo = account_head acc"
    unfolding split [THEN arg_cong [of _ _ "bytes_le (to_be_bytes lo @ replicate 24 0)"]]
    using bytes_le_append [of "to_be_bytes lo" hd "replicate 24 0" tl] len eq head by simp
  then show "bytes_le (to_be_bytes lo @ replicate 24 0) acc \<longleftrightarrow> lo \<le> account_head acc"
    by (auto simp: word_le_nat_alt unat_inject [symmetric])
  have "bytes_le acc (to_be_bytes hi @ replicate 24 0xff) \<longleftrightarrow>
      unat (account_head acc) < unat hi \<or> hi = account_head acc"
    unfolding split [THEN arg_cong [of _ _ "\<lambda>a. bytes_le a (to_be_bytes hi @ replicate 24 0xff)"]]
    using bytes_le_append [of hd "to_be_bytes hi" tl "replicate 24 0xff"]
      bytes_le_ones [of tl 24] len eq [of hi] head by auto
  then show "bytes_le acc (to_be_bytes hi @ replicate 24 0xff) \<longleftrightarrow> account_head acc \<le> hi"
    by (auto simp: word_le_nat_alt unat_inject [symmetric])
qed

context shard_lib begin

lemma range_contains:
  assumes tag: "tagged (shard_prefix_with_tag s) t" and acc: "length acc = 32"
  shows "bytes_le (extend_account_prefix lower_bits s False) acc
      \<and> bytes_le acc (extend_account_prefix lower_bits s True) \<longleftrightarrow> contains_account prefix_len s acc"
proof -
  define p where "p = shard_prefix_with_tag s"
  have tag': "tagged p t" using tag by (simp add: p_def)
  have "bytes_le (extend_account_prefix lower_bits s False) acc
      \<and> bytes_le acc (extend_account_prefix lower_bits s True) \<longleftrightarrow>
      unat (p - push_bit t 1) \<le> unat (account_head acc) \<and> unat (account_head acc) \<le> unat (p OR (p - 1))"
    using account_range [OF acc] lower_bits_tagged [OF tag']
    by (simp add: extend_account_prefix_def Let_def p_def word_le_nat_alt)
  also have "\<dots> \<longleftrightarrow> unat (account_head acc) div 2 ^ Suc t = unat p div 2 ^ Suc t"
    unfolding shard_from [OF tag'] shard_to [OF tag']
    by (rule interval_iff_div) simp
  finally show ?thesis
    using contains_account_iff [OF tag, of acc] acc by (simp add: p_def)
qed

lemma scan_contains:
  assumes tag: "tagged (shard_prefix_with_tag s) t" and len: "length h = 32" "length acc = 32"
  shows "scan_matches lower_bits is_full s (h @ wc # acc) \<longleftrightarrow>
    wc = ucast (workchain_id s) \<and> contains_account prefix_len s acc"
proof -
  define p where "p = shard_prefix_with_tag s"
  have tag': "tagged p t" using tag by (simp add: p_def)
  have t: "t < 64" using tag' by (simp add: tagged_def)
  have key: "length (h @ wc # acc) = CODE_HASHES_KEY_LEN" "(h @ wc # acc) ! 32 = wc"
    "from_be_bytes (take 8 (drop 33 (h @ wc # acc))) = account_head acc"
    using len by (simp_all add: CODE_HASHES_KEY_LEN_def nth_append account_head_def)
  have mask: "push_bit t 1 OR (push_bit t 1 - 1) = (mask (Suc t) :: u64)" by (rule lower_mask [OF t])
  have "(account_head acc XOR (p - push_bit t 1)) AND NOT (mask (Suc t)) = 0 \<longleftrightarrow>
      drop_bit (Suc t) (account_head acc) = drop_bit (Suc t) (p - push_bit t 1)"
  proof
    assume z: "(account_head acc XOR (p - push_bit t 1)) AND NOT (mask (Suc t)) = 0"
    show "drop_bit (Suc t) (account_head acc) = drop_bit (Suc t) (p - push_bit t 1)"
    proof (rule bit_word_eqI)
      fix n
      have "\<not> bit ((account_head acc XOR (p - push_bit t 1)) AND NOT (mask (Suc t))) (Suc t + n)"
        unfolding z by simp
      then have "Suc t + n < 64 \<longrightarrow> bit (account_head acc) (Suc t + n) = bit (p - push_bit t 1) (Suc t + n)"
        by (simp only: bit_and_iff bit_xor_iff bit_not_iff bit_mask_iff) (auto simp: possible_bit_word)
      then show "bit (drop_bit (Suc t) (account_head acc)) n = bit (drop_bit (Suc t) (p - push_bit t 1)) n"
        unfolding bit_drop_bit_eq comp_def by (auto dest: bit_imp_le_length)
    qed
  next
    assume d: "drop_bit (Suc t) (account_head acc) = drop_bit (Suc t) (p - push_bit t 1)"
    show "(account_head acc XOR (p - push_bit t 1)) AND NOT (mask (Suc t)) = 0"
    proof (rule bit_word_eqI)
      fix n
      have "bit (drop_bit (Suc t) (account_head acc)) (n - Suc t)
          = bit (drop_bit (Suc t) (p - push_bit t 1)) (n - Suc t)" using d by simp
      then show "bit ((account_head acc XOR (p - push_bit t 1)) AND NOT (mask (Suc t))) n = bit 0 n"
        unfolding bit_drop_bit_eq comp_def
        by (simp only: bit_and_iff bit_xor_iff bit_not_iff bit_mask_iff) auto
    qed
  qed
  also have "\<dots> \<longleftrightarrow> unat (account_head acc) div 2 ^ Suc t = unat p div 2 ^ Suc t"
    unfolding drop_bit_eq_iff_div shard_from [OF tag'] by simp
  finally have scan: "(account_head acc XOR (p - push_bit t 1)) AND NOT (mask (Suc t)) = 0 \<longleftrightarrow>
      contains_account prefix_len s acc"
    using contains_account_iff [OF tag, of acc] len by (simp add: p_def)
  have "is_full s \<longrightarrow> contains_account prefix_len s acc"
    using contains_full is_full_iff by blast
  then show ?thesis
    unfolding scan_matches_def Let_def p_def [symmetric] key lower_bits_tagged [OF tag'] mask scan
    by auto
qed

end

subsection \<open>The two indices agree\<close>

text \<open>
  The invariant of the database: the keys have their lengths, and an account is in the primary
  index under a code hash exactly when the secondary index maps it to this hash.
\<close>

definition index_ok :: "db \<Rightarrow> bool" where
  "index_ok d \<longleftrightarrow>
     hm_wf (code_hashes d) \<and> hm_wf (code_hashes_by_address d) \<and>
     (\<forall>k \<in> hm_keys (code_hashes d). length k = CODE_HASHES_KEY_LEN) \<and>
     (\<forall>(k, h) \<in> set (code_hashes_by_address d). length k = CODE_HASHES_BY_ADDRESS_KEY_LEN \<and> length h = 32) \<and>
     (\<forall>h wc acc. length h = 32 \<longrightarrow> length acc = 32 \<longrightarrow>
        (code_hashes_id wc acc h \<in> hm_keys (code_hashes d) \<longleftrightarrow>
         hm_get (code_hashes_by_address d) (code_hashes_by_address_id wc acc) = Some h))"

lemma index_okI [wf_intros]:
  assumes "hm_wf (code_hashes d)" "hm_wf (code_hashes_by_address d)"
    and "\<And>k. k \<in> hm_keys (code_hashes d) \<Longrightarrow> length k = CODE_HASHES_KEY_LEN"
    and "\<And>k h. hm_get (code_hashes_by_address d) k = Some h \<Longrightarrow>
      length k = CODE_HASHES_BY_ADDRESS_KEY_LEN \<and> length h = 32"
    and "\<And>h wc acc. length h = 32 \<Longrightarrow> length acc = 32 \<Longrightarrow>
      code_hashes_id wc acc h \<in> hm_keys (code_hashes d) \<longleftrightarrow>
      hm_get (code_hashes_by_address d) (code_hashes_by_address_id wc acc) = Some h"
  shows "index_ok d"
  using assms unfolding index_ok_def by (auto simp: hm_wf_get_iff)

lemma index_okD:
  assumes "index_ok d"
  shows "hm_wf (code_hashes d)" "hm_wf (code_hashes_by_address d)"
    and "k \<in> hm_keys (code_hashes d) \<Longrightarrow> length k = CODE_HASHES_KEY_LEN"
    and "hm_get (code_hashes_by_address d) k' = Some h \<Longrightarrow>
      length k' = CODE_HASHES_BY_ADDRESS_KEY_LEN \<and> length h = 32"
    and "length h = 32 \<Longrightarrow> length acc = 32 \<Longrightarrow>
      code_hashes_id wc acc h \<in> hm_keys (code_hashes d) \<longleftrightarrow>
      hm_get (code_hashes_by_address d) (code_hashes_by_address_id wc acc) = Some h"
proof -
  note ok = assms [unfolded index_ok_def]
  show "hm_wf (code_hashes d)" "hm_wf (code_hashes_by_address d)" using ok by simp_all
  show "k \<in> hm_keys (code_hashes d) \<Longrightarrow> length k = CODE_HASHES_KEY_LEN" using ok by blast
  show "hm_get (code_hashes_by_address d) k' = Some h \<Longrightarrow>
      length k' = CODE_HASHES_BY_ADDRESS_KEY_LEN \<and> length h = 32"
    using ok hm_get_in_set [of "code_hashes_by_address d" k' h] by blast
  show "length h = 32 \<Longrightarrow> length acc = 32 \<Longrightarrow>
      code_hashes_id wc acc h \<in> hm_keys (code_hashes d) \<longleftrightarrow>
      hm_get (code_hashes_by_address d) (code_hashes_by_address_id wc acc) = Some h"
    using ok by blast
qed

lemma code_hashes_id_inject:
  "length h = length h' \<Longrightarrow>
     code_hashes_id wc acc h = code_hashes_id wc' acc' h' \<longleftrightarrow> h = h' \<and> wc = wc' \<and> acc = acc'"
  by (auto simp: code_hashes_id_def)

lemma code_hashes_by_address_id_inject [simp]:
  "code_hashes_by_address_id wc acc = code_hashes_by_address_id wc' acc' \<longleftrightarrow> wc = wc' \<and> acc = acc'"
  by (simp add: code_hashes_by_address_id_def)

lemma key_lengths [simp]:
  "length (code_hashes_id wc acc h) = length h + Suc (length acc)"
  "length (code_hashes_by_address_id wc acc) = Suc (length acc)"
  by (simp_all add: code_hashes_id_def code_hashes_by_address_id_def)

lemma by_address_key_cases:
  assumes "length k = CODE_HASHES_BY_ADDRESS_KEY_LEN"
  obtains wc acc where "k = code_hashes_by_address_id wc acc" "length acc = 32"
  using assms by (cases k) (auto simp: CODE_HASHES_BY_ADDRESS_KEY_LEN_def code_hashes_by_address_id_def)

lemma write_batch_apply_Nil [simp]: "write_batch_apply [] d = d"
  by (simp add: write_batch_apply_def)

lemma write_batch_apply_append [simp]:
  "write_batch_apply (xs @ ys) d = write_batch_apply ys (write_batch_apply xs d)"
  by (simp add: write_batch_apply_def)

lemma write_batch_apply_Cons [simp]:
  "write_batch_apply (x # xs) d = write_batch_apply xs (apply_op x d)"
  by (simp add: write_batch_apply_def)

text \<open>The writes that move an account from its old code hash to its new one.\<close>

definition code_hash_ops ::
  "bytes \<Rightarrow> u8 \<Rightarrow> uint256 \<Rightarrow> uint256 option \<Rightarrow> uint256 option \<Rightarrow> batch_op list" where
  "code_hash_ops val wc acc old new =
     (case old of Some h \<Rightarrow> [DeleteCf CodeHashes (code_hashes_id wc acc h)] | None \<Rightarrow> []) @
     (case new of
        Some h \<Rightarrow> [PutCf CodeHashes (code_hashes_id wc acc h) val,
                   PutCf CodeHashesByAddress (code_hashes_by_address_id wc acc) h]
      | None \<Rightarrow> [DeleteCf CodeHashesByAddress (code_hashes_by_address_id wc acc)])"

lemma code_hash_ops_effect:
  fixes d val wc acc old new
  defines "d' \<equiv> write_batch_apply (code_hash_ops val wc acc old new) d"
  shows "hm_get (code_hashes_by_address d') k =
      (if k = code_hashes_by_address_id wc acc then new else hm_get (code_hashes_by_address d) k)"
    and "hm_keys (code_hashes d') =
      (hm_keys (code_hashes d) - (case old of Some h \<Rightarrow> {code_hashes_id wc acc h} | None \<Rightarrow> {}))
      \<union> (case new of Some h \<Rightarrow> {code_hashes_id wc acc h} | None \<Rightarrow> {})"
  unfolding d'_def code_hash_ops_def by (auto simp: hm_simps split: option.splits)

lemma code_hash_ops_wf:
  "hm_wf (code_hashes d) \<Longrightarrow> hm_wf (code_hashes (write_batch_apply (code_hash_ops val wc acc old new) d))"
  "hm_wf (code_hashes_by_address d) \<Longrightarrow>
     hm_wf (code_hashes_by_address (write_batch_apply (code_hash_ops val wc acc old new) d))"
  by (auto simp: code_hash_ops_def split: option.splits)

lemma code_hash_ops_ok:
  assumes ok: "index_ok d" and acc: "length acc = 32"
    and old: "hm_get (code_hashes_by_address d) (code_hashes_by_address_id wc acc) = old"
    and new: "\<And>h. new = Some h \<Longrightarrow> length h = 32"
  shows "index_ok (write_batch_apply (code_hash_ops val wc acc old new) d)"
proof (rule index_okI)
  let ?d = "write_batch_apply (code_hash_ops val wc acc old new) d"
  note d = index_okD [OF ok] and eff = code_hash_ops_effect [of val wc acc old new d]
  have old32: "length h = 32" if "old = Some h" for h
    using d(4) old that by blast
  show "hm_wf (code_hashes ?d)" "hm_wf (code_hashes_by_address ?d)"
    using d(1,2) by (simp_all add: code_hash_ops_wf)
  show "length k = CODE_HASHES_KEY_LEN" if "k \<in> hm_keys (code_hashes ?d)" for k
    using that d(3) new acc unfolding eff
    by (auto simp: CODE_HASHES_KEY_LEN_def split: option.split_asm)
  show "length k = CODE_HASHES_BY_ADDRESS_KEY_LEN \<and> length h = 32"
    if "hm_get (code_hashes_by_address ?d) k = Some h" for k h
    using that d(4) new acc unfolding eff
    by (auto simp: CODE_HASHES_BY_ADDRESS_KEY_LEN_def split: if_split_asm)
  show "code_hashes_id w a h \<in> hm_keys (code_hashes ?d) \<longleftrightarrow>
      hm_get (code_hashes_by_address ?d) (code_hashes_by_address_id w a) = Some h"
    if "length h = 32" "length a = 32" for h w a
    using d(5) [OF that, of w] old old32 new that(1) unfolding eff
    by (cases old; cases new) (auto simp: code_hashes_id_inject)
qed

lemma code_hash_ops_fresh:
  "[PutCf CodeHashes (code_hashes_id wc acc h) val,
    PutCf CodeHashesByAddress (code_hashes_by_address_id wc acc) h] = code_hash_ops val wc acc None (Some h)"
  by (simp add: code_hash_ops_def)

subsection \<open>Updates for a block keep the indices exact\<close>

definition new_code_hash :: "(cell \<Rightarrow> uint256) \<Rightarrow> shard_accounts \<Rightarrow> uint256 \<Rightarrow> bool \<Rightarrow> uint256 option res" where
  "new_code_hash repr_hash accounts acc remove =
     (if remove then Inr None
      else rbind (accounts acc) (\<lambda>a. case a of Some a \<Rightarrow> extract_code_hash repr_hash a | None \<Rightarrow> Inr None))"

lemma update_code_hash_cases:
  assumes "update_code_hash rh d wc acc accounts remove wb = Inr wb'"
  obtains new val where "new_code_hash rh accounts acc remove = Inr new"
    "wb' = wb @ code_hash_ops val wc acc (hm_get (code_hashes_by_address d) (code_hashes_by_address_id wc acc)) new"
  | new where "new_code_hash rh accounts acc remove = Inr new" "wb' = wb"
    "hm_get (code_hashes_by_address d) (code_hashes_by_address_id wc acc) = new"
proof -
  let ?old = "hm_get (code_hashes_by_address d) (code_hashes_by_address_id wc acc)"
  obtain new where new: "new_code_hash rh accounts acc remove = Inr new"
    using assms by (auto simp: update_code_hash_def Let_def new_code_hash_def rbind_eq_Inr_iff split: if_split_asm)
  show ?thesis
  proof (cases "remove \<and> ?old = None \<or> (\<exists>h. ?old = Some h \<and> new = Some h)")
    case True
    with new assms have "wb' = wb" "?old = new"
      by (auto simp: update_code_hash_def Let_def new_code_hash_def split: if_split_asm)
    with new that(2) show ?thesis by blast
  next
    case False
    then have "wb' = wb @ code_hash_ops (case new of Some h \<Rightarrow> h | None \<Rightarrow> []) wc acc ?old new"
      using new assms
      by (auto simp: update_code_hash_def Let_def new_code_hash_def code_hash_ops_def
          split: if_split_asm option.splits)
    with new that(1) show ?thesis by blast
  qed
qed

lemma new_code_hash_length:
  assumes "\<And>c. length (rh c) = 32" "new_code_hash rh accounts acc remove = Inr (Some h)"
  shows "length h = 32"
proof -
  obtain a where "extract_code_hash rh a = Inr (Some h)"
    using assms(2) by (auto simp: new_code_hash_def rbind_eq_Inr_iff split: if_split_asm option.split_asm)
  then show ?thesis using assms(1) extract_code_hash_Some by blast
qed

text \<open>
  What the secondary index must hold for an account of the block: the hash of its code in the
  new state, if the transactions may have changed it; else what it held.
\<close>

definition expected_code_hash ::
  "(cell \<Rightarrow> uint256) \<Rightarrow> shard_accounts \<Rightarrow> uint256 \<Rightarrow> block_tx res list \<Rightarrow> uint256 option \<Rightarrow> uint256 option res"
where
  "expected_code_hash rh accounts acc txs old =
     rbind (scan_transactions \<lparr>has_special_actions = False, was_active = False,
              is_active = False, first_tx = True\<rparr> txs)
       (\<lambda>fl. case code_hash_update fl of
          Some remove \<Rightarrow> new_code_hash rh accounts acc remove
        | None \<Rightarrow> Inr old)"

text \<open>What the flags say of the transactions, independently of the order in which they are computed.\<close>

lemma scan_transactions_flags:
  assumes "scan_transactions fl txs = Inr fl'"
  shows "\<exists>ts. txs = map Inr ts
    \<and> first_tx fl' = (first_tx fl \<and> ts = [])
    \<and> is_active fl' = (if ts = [] then is_active fl else end_status (last ts) = AccStateActive)
    \<and> was_active fl' = (if first_tx fl \<and> ts \<noteq> [] then orig_status (hd ts) = AccStateActive else was_active fl)
    \<and> has_special_actions fl' = (has_special_actions fl \<or> (\<exists>t \<in> set ts. was_active fl' \<and> orig_status t \<noteq> AccStateActive)
        \<or> (\<exists>t \<in> set ts. \<exists>n. action_spec_actions t = Inr (Some n) \<and> n \<noteq> 0))"
  using assms
proof (induction txs arbitrary: fl)
  case Nil
  then show ?case by simp
next
  case (Cons tx txs)
  obtain fl1 where fl1: "update_marker_flags fl tx = Inr fl1" "scan_transactions fl1 txs = Inr fl'"
    using Cons.prems by (auto simp: rbind_eq_Inr_iff)
  obtain t where t: "tx = Inr t" using fl1(1) by (cases tx) (simp_all add: update_marker_flags_def)
  have one: "\<not> first_tx fl1" "is_active fl1 = (end_status t = AccStateActive)"
    "was_active fl1 = (if first_tx fl then orig_status t = AccStateActive else was_active fl)"
    "has_special_actions fl1 = (has_special_actions fl \<or> was_active fl1 \<and> orig_status t \<noteq> AccStateActive
        \<or> (\<exists>n. action_spec_actions t = Inr (Some n) \<and> n \<noteq> 0))"
    using fl1(1) unfolding t update_marker_flags_def
    by (auto simp: Let_def rbind_eq_Inr_iff split: if_split_asm option.splits)
  from Cons.IH [OF fl1(2)] obtain ts where ts: "txs = map Inr ts"
    "first_tx fl' = (first_tx fl1 \<and> ts = [])"
    "is_active fl' = (if ts = [] then is_active fl1 else end_status (last ts) = AccStateActive)"
    "was_active fl' = (if first_tx fl1 \<and> ts \<noteq> [] then orig_status (hd ts) = AccStateActive else was_active fl1)"
    "has_special_actions fl' = (has_special_actions fl1 \<or> (\<exists>t \<in> set ts. was_active fl' \<and> orig_status t \<noteq> AccStateActive)
        \<or> (\<exists>t \<in> set ts. \<exists>n. action_spec_actions t = Inr (Some n) \<and> n \<noteq> 0))" by blast
  show ?case
    by (rule exI [of _ "t # ts"]) (use one ts t in auto)
qed

lemma extracted_code_hash:
  assumes "extract_code_hash rh sa = Inr new"
  shows "new = Some h \<longleftrightarrow> (\<exists>a code. read_account sa = Inr (Account a)
    \<and> acc_state a = AccountActive (Some code) \<and> h = rh code)"
proof (cases "read_account sa")
  case (Inr data)
  show ?thesis
  proof (cases data)
    case (Account a)
    show ?thesis
    proof (cases "acc_state a")
      case (AccountActive code)
      then show ?thesis using assms Inr Account by (cases code) (auto simp: extract_code_hash_def)
    qed (use assms Inr Account in \<open>auto simp: extract_code_hash_def\<close>)
  qed (use assms Inr in \<open>auto simp: extract_code_hash_def\<close>)
qed (use assms in \<open>simp add: extract_code_hash_def\<close>)

lemma expected_code_hash_spec:
  assumes "expected_code_hash rh accounts acc txs old = Inr new"
  shows "\<exists>ts. txs = map Inr ts \<and>
    (let was_active = (ts \<noteq> [] \<and> orig_status (hd ts) = AccStateActive);
         is_active = (ts \<noteq> [] \<and> end_status (last ts) = AccStateActive);
         code_may_change = (\<exists>t \<in> set ts. orig_status t \<noteq> AccStateActive
            \<or> (\<exists>n. action_spec_actions t = Inr (Some n) \<and> n \<noteq> 0))
     in if was_active \<and> \<not> is_active then new = None
        else if is_active \<and> (\<not> was_active \<or> code_may_change) then
          (\<exists>state. accounts acc = Inr state \<and> (\<forall>h. new = Some h \<longleftrightarrow>
            (\<exists>sa a code. state = Some sa \<and> read_account sa = Inr (Account a)
              \<and> acc_state a = AccountActive (Some code) \<and> h = rh code)))
        else new = old)"
proof -
  obtain fl where fl: "scan_transactions \<lparr>has_special_actions = False, was_active = False,
      is_active = False, first_tx = True\<rparr> txs = Inr fl"
    and new: "(case code_hash_update fl of Some remove \<Rightarrow> new_code_hash rh accounts acc remove | None \<Rightarrow> Inr old) = Inr new"
    using assms by (auto simp: expected_code_hash_def rbind_eq_Inr_iff)
  obtain ts where flags: "txs = map Inr ts"
    "is_active fl = (if ts = [] then False else end_status (last ts) = AccStateActive)"
    "was_active fl = (if ts \<noteq> [] then orig_status (hd ts) = AccStateActive else False)"
    "has_special_actions fl = ((\<exists>t \<in> set ts. was_active fl \<and> orig_status t \<noteq> AccStateActive)
        \<or> (\<exists>t \<in> set ts. \<exists>n. action_spec_actions t = Inr (Some n) \<and> n \<noteq> 0))"
    using scan_transactions_flags [OF fl] by (elim exE conjE) simp
  then have ts: "txs = map Inr ts"
    "is_active fl = (ts \<noteq> [] \<and> end_status (last ts) = AccStateActive)"
    "was_active fl = (ts \<noteq> [] \<and> orig_status (hd ts) = AccStateActive)"
    "was_active fl \<Longrightarrow> has_special_actions fl = (\<exists>t \<in> set ts. orig_status t \<noteq> AccStateActive
        \<or> (\<exists>n. action_spec_actions t = Inr (Some n) \<and> n \<noteq> 0))" by auto
  have state: "\<exists>state. accounts acc = Inr state \<and> (\<forall>h. new = Some h \<longleftrightarrow>
      (\<exists>sa a code. state = Some sa \<and> read_account sa = Inr (Account a)
        \<and> acc_state a = AccountActive (Some code) \<and> h = rh code))"
    if "new_code_hash rh accounts acc False = Inr new"
    using that extracted_code_hash by (cases "accounts acc") (fastforce simp: new_code_hash_def split: option.splits)+
  have removed: "new_code_hash rh accounts acc True = Inr new \<Longrightarrow> new = None" by (simp add: new_code_hash_def)
  show ?thesis
    by (rule exI [of _ ts])
      (use ts new state removed in \<open>auto simp: Let_def code_hash_update_def split: if_split_asm\<close>)
qed

lemma update_account_cases:
  fixes d wc acc
  defines "old \<equiv> hm_get (code_hashes_by_address d) (code_hashes_by_address_id wc acc)"
  assumes upd: "update_account rh d wc (Some accounts) acc txs wb = Inr wb'"
  obtains new val where "expected_code_hash rh accounts acc txs old = Inr new"
    "wb' = wb @ code_hash_ops val wc acc old new" "\<exists>remove. new_code_hash rh accounts acc remove = Inr new"
  | "wb' = wb" "expected_code_hash rh accounts acc txs old = Inr old"
proof -
  obtain fl where fl: "scan_transactions \<lparr>has_special_actions = False, was_active = False,
              is_active = False, first_tx = True\<rparr> txs = Inr fl"
    using upd by (auto simp: update_account_def rbind_eq_Inr_iff)
  show ?thesis
  proof (cases "code_hash_update fl")
    case None
    with fl upd that(2) show ?thesis by (simp add: update_account_def expected_code_hash_def)
  next
    case (Some remove)
    then have "update_code_hash rh d wc acc accounts remove wb = Inr wb'"
      using fl upd by (simp add: update_account_def)
    then show ?thesis
    proof (cases rule: update_code_hash_cases)
      case (1 new val)
      with fl Some that(1) show ?thesis by (auto simp: expected_code_hash_def old_def)
    next
      case (2 new)
      with fl Some that(2) show ?thesis by (simp add: expected_code_hash_def old_def)
    qed
  qed
qed

lemma update_accounts_exact:
  assumes "update_accounts rh d wc (Some accounts) blocks wb = Inr wb'"
    and "distinct (map fst blocks)" and "\<forall>acc \<in> fst ` set blocks. length acc = 32"
    and "\<And>c. length (rh c) = 32"
    and "index_ok (write_batch_apply wb d)"
    and "\<forall>acc \<in> fst ` set blocks.
      hm_get (code_hashes_by_address (write_batch_apply wb d)) (code_hashes_by_address_id wc acc) =
      hm_get (code_hashes_by_address d) (code_hashes_by_address_id wc acc)"
  shows "index_ok (write_batch_apply wb' d)
    \<and> (\<forall>(acc, txs) \<in> set blocks.
        expected_code_hash rh accounts acc txs
          (hm_get (code_hashes_by_address d) (code_hashes_by_address_id wc acc)) =
        Inr (hm_get (code_hashes_by_address (write_batch_apply wb' d)) (code_hashes_by_address_id wc acc)))
    \<and> (\<forall>k. k \<notin> code_hashes_by_address_id wc ` fst ` set blocks \<longrightarrow>
        hm_get (code_hashes_by_address (write_batch_apply wb' d)) k =
        hm_get (code_hashes_by_address (write_batch_apply wb d)) k)"
  using assms
proof (induction blocks arbitrary: wb)
  case (Cons e blocks)
  obtain acc txs where e: "e = (acc, txs)" by (cases e)
  obtain wb1 where wb1: "update_account rh d wc (Some accounts) acc txs wb = Inr wb1"
      "update_accounts rh d wc (Some accounts) blocks wb1 = Inr wb'"
    using Cons.prems(1) by (auto simp: e rbind_eq_Inr_iff)
  let ?id = "code_hashes_by_address_id wc"
  let ?old = "hm_get (code_hashes_by_address d) (?id acc)"
  let ?d1 = "write_batch_apply wb1 d"
  have acc: "length acc = 32" "acc \<notin> fst ` set blocks"
    using Cons.prems(2,3) by (auto simp: e)
  have old: "hm_get (code_hashes_by_address (write_batch_apply wb d)) (?id acc) = ?old"
    using Cons.prems(6) by (simp add: e)
  have step: "index_ok ?d1 \<and> expected_code_hash rh accounts acc txs ?old =
        Inr (hm_get (code_hashes_by_address ?d1) (?id acc))
      \<and> (\<forall>k. k \<noteq> ?id acc \<longrightarrow> hm_get (code_hashes_by_address ?d1) k =
          hm_get (code_hashes_by_address (write_batch_apply wb d)) k)"
    using wb1(1)
  proof (cases rule: update_account_cases)
    case (1 new val)
    have "index_ok ?d1"
      unfolding 1(2) write_batch_apply_append
      by (rule code_hash_ops_ok [OF Cons.prems(5) acc(1) old])
        (use 1(3) new_code_hash_length [OF Cons.prems(4)] in auto)
    then show ?thesis using 1 by (simp add: code_hash_ops_effect)
  next
    case 2
    then show ?thesis using Cons.prems(5) old by simp
  qed
  have rest: "index_ok (write_batch_apply wb' d)
    \<and> (\<forall>(acc, txs) \<in> set blocks.
        expected_code_hash rh accounts acc txs (hm_get (code_hashes_by_address d) (?id acc)) =
        Inr (hm_get (code_hashes_by_address (write_batch_apply wb' d)) (?id acc)))
    \<and> (\<forall>k. k \<notin> ?id ` fst ` set blocks \<longrightarrow>
        hm_get (code_hashes_by_address (write_batch_apply wb' d)) k =
        hm_get (code_hashes_by_address ?d1) k)"
  proof (rule Cons.IH [OF wb1(2)])
    show "distinct (map fst blocks)" "\<forall>acc \<in> fst ` set blocks. length acc = 32"
      using Cons.prems(2,3) by auto
    show "index_ok ?d1" using step by simp
    show "\<forall>acc \<in> fst ` set blocks. hm_get (code_hashes_by_address ?d1) (?id acc) =
        hm_get (code_hashes_by_address d) (?id acc)"
    proof
      fix a assume a: "a \<in> fst ` set blocks"
      then have "?id a \<noteq> ?id acc" using acc(2) by auto
      moreover have "hm_get (code_hashes_by_address (write_batch_apply wb d)) (?id a) =
          hm_get (code_hashes_by_address d) (?id a)" using a by (intro bspec [OF Cons.prems(6)]) simp
      ultimately show "hm_get (code_hashes_by_address ?d1) (?id a) =
          hm_get (code_hashes_by_address d) (?id a)" using step by simp
    qed
  qed (rule Cons.prems(4))
  have same: "hm_get (code_hashes_by_address (write_batch_apply wb' d)) (?id acc) =
      hm_get (code_hashes_by_address ?d1) (?id acc)"
  proof -
    have "?id acc \<notin> ?id ` fst ` set blocks" using acc(2) by force
    with rest show ?thesis by blast
  qed
  show ?case
    using rest step same by (auto simp: e)
qed simp

subsection \<open>Removing and rebuilding a shard\<close>

context shard_lib begin

lemma removed_range:
  assumes tag: "tagged (shard_prefix_with_tag s) t" and acc: "length acc = 32"
  shows "(bytes_le (ucast (workchain_id s) # extend_account_prefix lower_bits s False) (wc # acc)
       \<and> bytes_le (wc # acc) (ucast (workchain_id s) # extend_account_prefix lower_bits s True)) \<longleftrightarrow>
      wc = ucast (workchain_id s) \<and> contains_account prefix_len s acc"
  using range_contains [OF tag acc] by auto

lemma remove_code_hashes_by_address:
  assumes tag: "tagged (shard_prefix_with_tag s) t" and acc: "length acc = 32"
    and wf: "hm_wf (code_hashes_by_address d)"
  shows "hm_get (code_hashes_by_address (remove_code_hashes lower_bits is_full s d))
      (code_hashes_by_address_id wc acc) =
    (if wc = ucast (workchain_id s) \<and> contains_account prefix_len s acc then None
     else hm_get (code_hashes_by_address d) (code_hashes_by_address_id wc acc))"
proof -
  let ?to = "ucast (workchain_id s) # extend_account_prefix lower_bits s True"
  let ?from = "ucast (workchain_id s) # extend_account_prefix lower_bits s False"
  let ?k = "wc # acc"
  have "hm_get (code_hashes_by_address (remove_code_hashes lower_bits is_full s d)) ?k =
      (if bytes_le ?from ?k \<and> bytes_le ?k ?to then None else hm_get (code_hashes_by_address d) ?k)"
  proof (cases "?k = ?to")
    case True
    have "bytes_le ?from ?k"
    proof -
      have "contains_account prefix_len s (extend_account_prefix lower_bits s True)
         \<or> bytes_le (extend_account_prefix lower_bits s False) (extend_account_prefix lower_bits s True)"
      proof -
        have t: "tagged (shard_prefix_with_tag s) t" by (rule tag)
        have "unat (shard_prefix_with_tag s - push_bit t 1) \<le>
            unat (shard_prefix_with_tag s OR (shard_prefix_with_tag s - 1))"
          unfolding shard_from [OF t] shard_to [OF t] by (rule le_add1)
        then have "shard_prefix_with_tag s - push_bit t 1 \<le>
            shard_prefix_with_tag s OR (shard_prefix_with_tag s - 1)"
          by (simp add: word_le_nat_alt)
        moreover have "account_head (extend_account_prefix lower_bits s True) =
            shard_prefix_with_tag s OR (shard_prefix_with_tag s - 1)"
          by (simp add: account_head_def extend_account_prefix_def Let_def)
        ultimately show ?thesis
          using account_range(1) [of "extend_account_prefix lower_bits s True"
              "shard_prefix_with_tag s - push_bit t 1"] lower_bits_tagged [OF t]
          by (simp add: extend_account_prefix_def [of _ _ False] Let_def)
      qed
      then show ?thesis
        using True removed_range [OF tag, of "extend_account_prefix lower_bits s True" wc] by auto
    qed
    with True show ?thesis by (simp add: remove_code_hashes_def Let_def hm_simps)
  next
    case False
    with wf show ?thesis
      by (auto simp: remove_code_hashes_def Let_def hm_simps delete_range_def split: option.splits)
  qed
  then show ?thesis
    using removed_range [OF tag acc, of wc] by (simp add: code_hashes_by_address_id_def)
qed

lemma remove_code_hashes_primary:
  assumes tag: "tagged (shard_prefix_with_tag s) t" and len: "length acc = 32" "length h = 32"
  shows "code_hashes_id wc acc h \<in> hm_keys (code_hashes (remove_code_hashes lower_bits is_full s d)) \<longleftrightarrow>
    code_hashes_id wc acc h \<in> hm_keys (code_hashes d)
    \<and> \<not> (wc = ucast (workchain_id s) \<and> contains_account prefix_len s acc)"
  using scan_contains [OF tag len(2,1), of wc]
  by (auto simp: remove_code_hashes_def Let_def hm_keys_retain_key code_hashes_id_def)

lemma remove_code_hashes_ok:
  assumes tag: "tagged (shard_prefix_with_tag s) t" and ok: "index_ok d"
  shows "index_ok (remove_code_hashes lower_bits is_full s d)"
proof (rule index_okI)
  let ?d = "remove_code_hashes lower_bits is_full s d"
  note d = index_okD [OF ok]
  show "hm_wf (code_hashes ?d)" "hm_wf (code_hashes_by_address ?d)"
    using d(1,2) by (simp_all add: remove_code_hashes_def Let_def delete_range_def)
  show "length k = CODE_HASHES_KEY_LEN" if "k \<in> hm_keys (code_hashes ?d)" for k
    using that d(3) by (simp add: remove_code_hashes_def Let_def hm_keys_retain_key)
  show "length k = CODE_HASHES_BY_ADDRESS_KEY_LEN \<and> length h = 32"
    if k: "hm_get (code_hashes_by_address ?d) k = Some h" for k h
  proof -
    have "hm_get (code_hashes_by_address d) k = Some h"
      using k d(2) by (auto simp: remove_code_hashes_def Let_def delete_range_def hm_simps
          split: if_split_asm option.split_asm)
    then show ?thesis by (rule d(4))
  qed
  show "code_hashes_id wc acc h \<in> hm_keys (code_hashes ?d) \<longleftrightarrow>
      hm_get (code_hashes_by_address ?d) (code_hashes_by_address_id wc acc) = Some h"
    if "length h = 32" "length acc = 32" for h wc acc
    using d(5) [OF that, of wc] remove_code_hashes_primary [OF tag that(2,1), of wc d]
      remove_code_hashes_by_address [OF tag that(2) d(2), of wc] by auto
qed

end

lemma code_hash_put_ok:
  assumes ok: "index_ok d" and len: "length acc = 32" "length h = 32"
    and cur: "hm_get (code_hashes_by_address d) (code_hashes_by_address_id wc acc) \<in> {None, Some h}"
  shows "index_ok (write_batch_apply (code_hash_ops val wc acc None (Some h)) d)"
proof (cases "hm_get (code_hashes_by_address d) (code_hashes_by_address_id wc acc)")
  case None
  with ok len show ?thesis by (intro code_hash_ops_ok) simp_all
next
  case (Some h')
  with cur have h: "hm_get (code_hashes_by_address d) (code_hashes_by_address_id wc acc) = Some h" by simp
  let ?d = "write_batch_apply (code_hash_ops val wc acc None (Some h)) d"
  note d = index_okD [OF ok] and eff = code_hash_ops_effect [of val wc acc None "Some h" d]
  have "code_hashes_id wc acc h \<in> hm_keys (code_hashes d)" using d(5) [OF len(2,1)] h by simp
  then have keys: "hm_keys (code_hashes ?d) = hm_keys (code_hashes d)" unfolding eff by auto
  have get: "hm_get (code_hashes_by_address ?d) k = hm_get (code_hashes_by_address d) k" for k
    unfolding eff using h by simp
  show ?thesis
    by (rule index_okI) (use d in \<open>simp_all add: keys get code_hash_ops_wf\<close>)
qed

text \<open>
  The entries of a shard state: account \<open>acc\<close> has code hash \<open>h\<close> in it; entries whose key is
  not an account id are skipped. As a dictionary, a state has one entry per account.
\<close>

definition has_code :: "(cell \<Rightarrow> uint256) \<Rightarrow> (bytes \<times> shard_account) res set \<Rightarrow> uint256 \<Rightarrow> uint256 \<Rightarrow> bool" where
  "has_code rh es acc h \<longleftrightarrow>
     (\<exists>e \<in> es. case e of
        Inr (key, a) \<Rightarrow> key = acc \<and> length acc = 32 \<and> extract_code_hash rh a = Inr (Some h)
      | Inl _ \<Rightarrow> False)"

definition state_functional :: "(bytes \<times> shard_account) res set \<Rightarrow> bool" where
  "state_functional es \<longleftrightarrow>
     (\<forall>id a b. Inr (id, a) \<in> es \<longrightarrow> Inr (id, b) \<in> es \<longrightarrow> a = b)"

lemma has_code_iff:
  "has_code rh es acc h \<longleftrightarrow>
     length acc = 32 \<and> (\<exists>a. Inr (acc, a) \<in> es \<and> extract_code_hash rh a = Inr (Some h))"
proof
  assume "has_code rh es acc h"
  then obtain e where e: "e \<in> es" "case e of
        Inr (key, a) \<Rightarrow> key = acc \<and> length acc = 32 \<and> extract_code_hash rh a = Inr (Some h)
      | Inl _ \<Rightarrow> False" unfolding has_code_def by blast
  then obtain a where "e = Inr (acc, a)" by (cases e) auto
  with e show "length acc = 32 \<and> (\<exists>a. Inr (acc, a) \<in> es \<and> extract_code_hash rh a = Inr (Some h))"
    by auto
next
  assume "length acc = 32 \<and> (\<exists>a. Inr (acc, a) \<in> es \<and> extract_code_hash rh a = Inr (Some h))"
  then show "has_code rh es acc h" unfolding has_code_def by (auto intro!: bexI)
qed

lemma has_code_mono: "es \<subseteq> es' \<Longrightarrow> has_code rh es acc h \<Longrightarrow> has_code rh es' acc h"
  by (auto simp: has_code_iff)

lemma has_code_Un: "has_code rh (es \<union> es') acc h \<longleftrightarrow> has_code rh es acc h \<or> has_code rh es' acc h"
  by (auto simp: has_code_iff)

lemma has_code_skip:
  "length key \<noteq> 32 \<or> extract_code_hash rh a = Inr None \<Longrightarrow>
     has_code rh (insert (Inr (key, a)) es) acc h \<longleftrightarrow> has_code rh es acc h"
  by (auto simp: has_code_iff)

lemma has_code_unique:
  "state_functional es \<Longrightarrow> has_code rh es acc h \<Longrightarrow> has_code rh es acc h' \<Longrightarrow> h = h'"
  unfolding state_functional_def has_code_iff by (metis option.inject sum.inject(2))

lemma has_code_length: "(\<And>c. length (rh c) = 32) \<Longrightarrow> has_code rh es acc h \<Longrightarrow> length h = 32"
  using extract_code_hash_Some by (fastforce simp: has_code_iff)

text \<open>The effect of inserting the entries of one virtual shard of the state \<open>U\<close>.\<close>

definition collected :: "(cell \<Rightarrow> uint256) \<Rightarrow> u8 \<Rightarrow> (bytes \<times> shard_account) res set \<Rightarrow> db \<Rightarrow> db \<Rightarrow> bool" where
  "collected rh wc es d d' \<longleftrightarrow> index_ok d' \<and>
     (\<forall>k h. hm_get (code_hashes_by_address d') k = Some h \<longleftrightarrow>
        hm_get (code_hashes_by_address d) k = Some h
        \<or> (\<exists>acc. k = code_hashes_by_address_id wc acc \<and> has_code rh es acc h))"

definition compatible :: "(cell \<Rightarrow> uint256) \<Rightarrow> u8 \<Rightarrow> (bytes \<times> shard_account) res set \<Rightarrow> db \<Rightarrow> bool" where
  "compatible rh wc U d \<longleftrightarrow> index_ok d \<and>
     (\<forall>acc a h. Inr (acc, a) \<in> U \<longrightarrow> length acc = 32 \<longrightarrow>
        hm_get (code_hashes_by_address d) (code_hashes_by_address_id wc acc) = Some h \<longrightarrow> has_code rh U acc h)"

lemma collected_compatible:
  "compatible rh wc U d \<Longrightarrow> collected rh wc es d d' \<Longrightarrow> es \<subseteq> U \<Longrightarrow> compatible rh wc U d'"
  unfolding compatible_def collected_def using has_code_mono by fastforce

lemma collected_trans:
  "collected rh wc es d d' \<Longrightarrow> collected rh wc es' d' d'' \<Longrightarrow> collected rh wc (es \<union> es') d d''"
  unfolding collected_def by (auto simp: has_code_Un)

lemma collect_one:
  assumes comp: "compatible rh wc U d" and func: "state_functional U" and U: "Inr (acc, a) \<in> U"
    and hash: "extract_code_hash rh a = Inr (Some h)" and len: "length acc = 32" "\<And>c. length (rh c) = 32"
  shows "collected rh wc {Inr (acc, a)} d (write_batch_apply (code_hash_ops val wc acc None (Some h)) d)"
proof -
  let ?d = "write_batch_apply (code_hash_ops val wc acc None (Some h)) d"
  have code: "has_code rh U acc h" using U hash len by (auto simp: has_code_iff)
  have h: "length h = 32" by (rule has_code_length [OF len(2) code])
  have "hm_get (code_hashes_by_address d) (code_hashes_by_address_id wc acc) \<in> {None, Some h}"
    using comp U len(1) has_code_unique [OF func code] unfolding compatible_def
    by (cases "hm_get (code_hashes_by_address d) (code_hashes_by_address_id wc acc)") auto
  note cur = this
  have "index_ok ?d"
    using comp code_hash_put_ok [OF _ len(1) h cur] by (simp add: compatible_def)
  then show ?thesis
    using cur hash len(1) by (auto simp: collected_def code_hash_ops_effect has_code_iff)
qed

lemma collect_code_hashes_effect:
  assumes "collect_code_hashes rh wc accounts wb = Inr wb'"
    and "state_functional U" "set accounts \<subseteq> U" "\<And>c. length (rh c) = 32"
    and "compatible rh wc U (write_batch_apply wb d)"
  shows "collected rh wc (set accounts) (write_batch_apply wb d) (write_batch_apply wb' d)"
  using assms
proof (induction accounts arbitrary: wb)
  case Nil
  then show ?case by (simp add: collected_def compatible_def has_code_iff)
next
  case (Cons entry accounts)
  obtain key a where e: "entry = Inr (key, a)" using Cons.prems(1) by (cases entry) auto
  show ?case
  proof (cases "length key = 32")
    case False
    have "collected rh wc (set accounts) (write_batch_apply wb d) (write_batch_apply wb' d)"
      by (rule Cons.IH) (use Cons.prems e False in simp_all)
    with e False show ?thesis by (simp add: collected_def has_code_skip)
  next
    case True
    obtain h where h: "extract_code_hash rh a = Inr h"
      using Cons.prems(1) e True by (auto simp: rbind_eq_Inr_iff)
    show ?thesis
    proof (cases h)
      case None
      have "collected rh wc (set accounts) (write_batch_apply wb d) (write_batch_apply wb' d)"
        by (rule Cons.IH) (use Cons.prems e True h None in simp_all)
      with e h None show ?thesis by (simp add: collected_def has_code_skip)
    next
      case (Some h')
      let ?wb = "wb @ code_hash_ops [] wc key None (Some h')"
      have one: "collected rh wc {entry} (write_batch_apply wb d) (write_batch_apply ?wb d)"
        unfolding e write_batch_apply_append
        by (rule collect_one [where U = U]) (use Cons.prems e h Some True in auto)
      have "collected rh wc (set accounts) (write_batch_apply ?wb d) (write_batch_apply wb' d)"
      proof (rule Cons.IH)
        show "collect_code_hashes rh wc accounts ?wb = Inr wb'"
          using Cons.prems(1) e True h Some by (simp add: code_hash_ops_fresh)
        show "compatible rh wc U (write_batch_apply ?wb d)"
          by (rule collected_compatible [OF Cons.prems(5) one]) (use Cons.prems in simp)
      qed (use Cons.prems in simp_all)
      from collected_trans [OF one this] show ?thesis by simp
    qed
  qed
qed

lemma collect_virtual_shards_effect:
  assumes "collect_virtual_shards rh wc shards wb = Inr wb'"
    and "state_functional U" "(\<Union>(s, accounts) \<in> set shards. set accounts) \<subseteq> U" "\<And>c. length (rh c) = 32"
    and "compatible rh wc U (write_batch_apply wb d)"
  shows "collected rh wc (\<Union>(s, accounts) \<in> set shards. set accounts)
    (write_batch_apply wb d) (write_batch_apply wb' d)"
  using assms
proof (induction shards arbitrary: wb)
  case Nil
  then show ?case by (simp add: collected_def compatible_def has_code_iff)
next
  case (Cons e shards)
  obtain s accounts where e: "e = (s, accounts)" by (cases e)
  obtain wb1 where wb1: "collect_code_hashes rh wc accounts wb = Inr wb1"
      "collect_virtual_shards rh wc shards wb1 = Inr wb'"
    using Cons.prems(1) by (auto simp: e rbind_eq_Inr_iff)
  have one: "collected rh wc (set accounts) (write_batch_apply wb d) (write_batch_apply wb1 d)"
    by (rule collect_code_hashes_effect [OF wb1(1) Cons.prems(2)]) (use Cons.prems e in auto)
  have "compatible rh wc U (write_batch_apply wb1 d)"
    by (rule collected_compatible [OF Cons.prems(5) one]) (use Cons.prems e in auto)
  then have "collected rh wc (\<Union>(s, accounts) \<in> set shards. set accounts)
      (write_batch_apply wb1 d) (write_batch_apply wb' d)"
    by (intro Cons.IH [OF wb1(2) Cons.prems(2)]) (use Cons.prems e in auto)
  from collected_trans [OF one this] show ?case by (simp add: e)
qed

subsection \<open>Virtual shards\<close>

definition descends :: "shard_ident \<Rightarrow> nat \<Rightarrow> shard_ident \<Rightarrow> bool" where
  "descends s t k \<longleftrightarrow> workchain_id k = workchain_id s \<and>
     unat (shard_prefix_with_tag k) div 2 ^ Suc t = unat (shard_prefix_with_tag s) div 2 ^ Suc t"

abbreviation shard_entries :: "(shard_ident, state_accounts) hashmap \<Rightarrow> (bytes \<times> shard_account) res set" where
  "shard_entries m \<equiv> \<Union>(s, accounts) \<in> set m. set accounts"

lemma shard_entries_insert:
  "hm_get m s = None \<Longrightarrow> shard_entries (hm_insert s a m) = shard_entries m \<union> set a"
proof (induction m)
  case (Cons e m)
  obtain s' a' where e: "e = (s', a')" by (cases e)
  with Cons.prems have "s' \<noteq> s" "hm_get m s = None" by (auto split: if_splits)
  with Cons.IH show ?case by (auto simp: e)
qed simp

context shard_lib begin

lemma split_shard_descends:
  assumes tag: "tagged (shard_prefix_with_tag s) (Suc t)" and split: "split_shard_ident s = Inr (l, r)"
  shows "tagged (shard_prefix_with_tag l) t" "tagged (shard_prefix_with_tag r) t"
    and "descends l t k \<Longrightarrow> descends s (Suc t) k" "descends r t k \<Longrightarrow> descends s (Suc t) k"
    and "\<not> (descends l t k \<and> descends r t k)"
proof -
  note parts = split_tags [OF tag]
  have lr: "shard_prefix_with_tag l = shard_prefix_with_tag s - push_bit t 1"
    "shard_prefix_with_tag r = shard_prefix_with_tag s + push_bit t 1"
    "workchain_id l = workchain_id s" "workchain_id r = workchain_id s"
    using split_tagged [OF tag split] by auto
  show "tagged (shard_prefix_with_tag l) t" "tagged (shard_prefix_with_tag r) t"
    using tagged_split [OF tag] lr by simp_all
  define x where "x = unat (shard_prefix_with_tag k) div 2 ^ Suc t"
  have parent: "unat (shard_prefix_with_tag k) div 2 ^ Suc (Suc t) = x div 2"
    by (simp add: x_def div_mult2_eq [symmetric] mult.commute)
  show "descends l t k \<Longrightarrow> descends s (Suc t) k" "descends r t k \<Longrightarrow> descends s (Suc t) k"
    "\<not> (descends l t k \<and> descends r t k)"
    unfolding descends_def parent lr parts(3,4) x_def [symmetric] by auto
qed

lemma split_shard_entries:
  assumes "split_shard split_shard_ident split_accounts s accounts depth shards = Inr shards'"
    and "tagged (shard_prefix_with_tag s) t" "depth \<le> t"
    and "\<And>k. descends s t k \<Longrightarrow> hm_get shards k = None"
    and "\<forall>s a l r. split_accounts s a = Inr (l, r) \<longrightarrow> set l \<union> set r = set a"
  shows "shard_entries shards' = shard_entries shards \<union> set accounts
    \<and> (\<forall>k. \<not> descends s t k \<longrightarrow> hm_get shards' k = hm_get shards k)"
  using assms
proof (induction depth arbitrary: s t accounts shards shards')
  case 0
  then have "hm_get shards s = None" by (simp add: descends_def)
  note ins = shard_entries_insert [OF this, of accounts]
  have "shards' = hm_insert s accounts shards" using 0 by simp
  moreover have "hm_get shards' k = hm_get shards k" if "\<not> descends s t k" for k
  proof -
    from that have "k \<noteq> s" by (auto simp: descends_def)
    then show ?thesis using calculation by (simp add: hm_simps)
  qed
  ultimately show ?case using ins by blast
next
  case (Suc depth)
  obtain u where t: "t = Suc u" "depth \<le> u" using Suc.prems(3) by (cases t) auto
  obtain l r la ra m where m: "split_shard_ident s = Inr (l, r)" "split_accounts s accounts = Inr (la, ra)"
      "split_shard split_shard_ident split_accounts l la depth shards = Inr m"
      "split_shard split_shard_ident split_accounts r ra depth m = Inr shards'"
    using Suc.prems(1) by (auto simp: rbind_eq_Inr_iff split: prod.split_asm)
  have tag: "tagged (shard_prefix_with_tag s) (Suc u)" using Suc.prems(2) t by simp
  note sd = split_shard_descends [OF tag m(1)]
  have left: "shard_entries m = shard_entries shards \<union> set la
      \<and> (\<forall>k. \<not> descends l u k \<longrightarrow> hm_get m k = hm_get shards k)"
    by (rule Suc.IH [OF m(3) sd(1) t(2) _ Suc.prems(5)]) (use Suc.prems(4) sd(3) t(1) in blast)
  have right: "shard_entries shards' = shard_entries m \<union> set ra
      \<and> (\<forall>k. \<not> descends r u k \<longrightarrow> hm_get shards' k = hm_get m k)"
  proof (rule Suc.IH [OF m(4) sd(2) t(2) _ Suc.prems(5)])
    fix k assume k: "descends r u k"
    then have "\<not> descends l u k" using sd(5) [of k] by blast
    then have "hm_get m k = hm_get shards k" using left by blast
    moreover have "descends s t k" using sd(4) [OF k] t(1) by simp
    ultimately show "hm_get m k = None" using Suc.prems(4) by simp
  qed
  have "set la \<union> set ra = set accounts" using Suc.prems(5) m(2) by blast
  moreover have "hm_get shards' k = hm_get shards k" if "\<not> descends s t k" for k
  proof -
    have "\<not> descends l u k" "\<not> descends r u k" using that sd(3,4) [of k] t(1) by blast+
    with left right show ?thesis by simp
  qed
  moreover have "shard_entries shards' = shard_entries shards \<union> (set la \<union> set ra)"
    using conjunct1 [OF left] conjunct1 [OF right] by (simp only: Un_assoc)
  ultimately show ?case by simp
qed

text \<open>
  After \<open>reset_accounts\<close> the secondary index holds, for the accounts of the shard, exactly the
  code hashes of the state, and what it held before for every other account.
\<close>

lemma reset_accounts_exact:
  assumes tag: "tagged (shard_prefix_with_tag s) t" and depth: "unat shard_split_depth \<le> t"
    and ok: "index_ok d" and func: "state_functional (set accounts)"
    and inside: "\<forall>acc a. Inr (acc, a) \<in> set accounts \<longrightarrow> length acc = 32 \<longrightarrow> contains_account prefix_len s acc"
    and parts: "\<forall>s a l r. split_accounts s a = Inr (l, r) \<longrightarrow> set l \<union> set r = set a"
    and hash: "\<And>c. length (rh c) = 32"
    and run: "reset_accounts lower_bits is_full split_shard_ident split_accounts rh shard_split_depth s
      (Inr accounts) d = (d', Inr ())"
    and wc: "workchain_i8 (workchain_id s) = Some wc"
  shows "index_ok d'"
    and "length acc = 32 \<Longrightarrow>
      hm_get (code_hashes_by_address d') (code_hashes_by_address_id w acc) = Some h \<longleftrightarrow>
      (if w = wc \<and> contains_account prefix_len s acc then has_code rh (set accounts) acc h
       else hm_get (code_hashes_by_address d) (code_hashes_by_address_id w acc) = Some h)"
proof -
  let ?d = "remove_code_hashes lower_bits is_full s d"
  have w: "ucast (workchain_id s) = wc" using wc by (simp add: workchain_i8_def split: if_split_asm)
  obtain shards wb where sh: "split_shard split_shard_ident split_accounts s accounts (unat shard_split_depth) [] = Inr shards"
      "collect_virtual_shards rh wc shards [] = Inr wb" "d' = write_batch_apply wb ?d"
    using run wc by (auto simp: reset_accounts_def Let_def rbind_eq_Inr_iff rbind_def split: sum.split_asm)
  have entries: "shard_entries shards = set accounts"
    using split_shard_entries [OF sh(1) tag depth _ parts] by simp
  have ok': "index_ok ?d" by (rule remove_code_hashes_ok [OF tag ok])
  note get = remove_code_hashes_by_address [OF tag _ index_okD(2) [OF ok], unfolded w]
  have "compatible rh wc (set accounts) ?d"
    unfolding compatible_def using ok' get inside by auto
  then have "collected rh wc (set accounts) ?d d'"
    using collect_virtual_shards_effect [OF sh(2) func _ hash] entries sh(3) by simp
  note col = this [unfolded collected_def]
  then show "index_ok d'" by blast
  show "hm_get (code_hashes_by_address d') (code_hashes_by_address_id w acc) = Some h \<longleftrightarrow>
      (if w = wc \<and> contains_account prefix_len s acc then has_code rh (set accounts) acc h
       else hm_get (code_hashes_by_address d) (code_hashes_by_address_id w acc) = Some h)"
    if len: "length acc = 32"
  proof -
    have only: "contains_account prefix_len s acc" if "has_code rh (set accounts) acc h"
      using that inside by (auto simp: has_code_iff)
    show ?thesis using col get [OF len, of w] only by auto
  qed
qed

end

subsection \<open>Properties\<close>

text \<open>Data for the witnesses: an account of the left half of workchain 0, and one of the right half.\<close>

definition demo_left :: uint256 where
  "demo_left = replicate 32 0"

definition demo_right :: uint256 where
  "demo_right = replicate 32 0xff"

definition demo_hash :: uint256 where
  "demo_hash = replicate 32 7"

definition demo_shard :: shard_ident where
  "demo_shard = \<lparr>workchain_id = 0, shard_prefix_with_tag = 0x4000000000000000\<rparr>"

definition demo_db :: db where
  "demo_db =
     \<lparr>code_hashes = [(code_hashes_id 0 demo_left demo_hash, []), (code_hashes_id 0 demo_right demo_hash, [])],
      code_hashes_by_address = [(code_hashes_by_address_id 0 demo_left, demo_hash),
                                (code_hashes_by_address_id 0 demo_right, demo_hash)]\<rparr>"

definition demo_account :: "cell \<Rightarrow> shard_account" where
  "demo_account code =
     \<lparr>read_account = Inr (Account \<lparr>balance = 1, acc_state = AccountActive (Some code)\<rparr>),
      last_trans_lt = 0, last_trans_hash = []\<rparr>"

definition demo_repr_hash :: "cell \<Rightarrow> uint256" where
  "demo_repr_hash c = take 32 (c @ replicate 32 0)"

lemma length_demo_repr_hash: "length (demo_repr_hash c) = 32"
  by (simp add: demo_repr_hash_def)

lemma demo_lengths [simp]: "length demo_left = 32" "length demo_right = 32" "length demo_hash = 32"
  by (simp_all add: demo_left_def demo_right_def demo_hash_def)

lemma demo_distinct [simp]: "demo_left \<noteq> demo_right" "demo_right \<noteq> demo_left"
  by (simp_all add: demo_left_def demo_right_def)

lemma demo_tagged: "tagged (shard_prefix_with_tag demo_shard) 62"
proof -
  have "shard_prefix_with_tag demo_shard = push_bit 62 1" by (simp add: demo_shard_def push_bit_of_1)
  moreover have "tagged (push_bit 62 1 :: u64) 62"
    unfolding tagged_def by (simp only: bit_push_bit_iff) (auto simp: bit_1_iff)
  ultimately show ?thesis by simp
qed

lemma demo_db_ok: "index_ok demo_db"
  by (rule index_okI)
    (auto simp: demo_db_def hm_wf_def code_hashes_id_inject CODE_HASHES_KEY_LEN_def
      CODE_HASHES_BY_ADDRESS_KEY_LEN_def split: if_split_asm)

lemma demo_heads: "unat (account_head demo_left) = 0" "unat (account_head demo_right) = 2 ^ 64 - 1"
proof -
  have "take 8 demo_left = [0, 0, 0, 0, 0, 0, 0, 0]"
    "take 8 demo_right = [255, 255, 255, 255, 255, 255, 255, 255]"
    by (simp_all add: demo_left_def demo_right_def numeral_eq_Suc)
  then show "unat (account_head demo_left) = 0" "unat (account_head demo_right) = 2 ^ 64 - 1"
    by (simp_all add: account_head_def unat_from_be_bytes)
qed

lemma demo_hash_fresh: "demo_hash \<noteq> demo_repr_hash (1 # c)"
proof
  assume "demo_hash = demo_repr_hash (1 # c)"
  then have "hd demo_hash = hd (demo_repr_hash (1 # c))" by simp
  then show False by (simp add: demo_hash_def demo_repr_hash_def)
qed

lemma demo_contains:
  "contains_account doc_prefix_len demo_shard demo_left"
  "\<not> contains_account doc_prefix_len demo_shard demo_right"
  unfolding doc_shards.contains_account_iff [OF demo_tagged, of demo_left, simplified]
    doc_shards.contains_account_iff [OF demo_tagged, of demo_right, simplified]
  by (simp_all add: demo_heads demo_shard_def)

text \<open>
  Splitting a shard partitions its accounts: an account belongs to the shard exactly if it
  belongs to one of the two children, and never to both. The relay's own prefix arithmetic
  agrees with the tagged prefixes of the blockchain library.
\<close>

theorem shard_split_partitions_accounts:
  assumes "shard_lib prefix_len lower_bits is_full split_shard_ident"
    and "tagged (shard_prefix_with_tag s) (Suc t)"
    and "8 \<le> length acc"
    and "split_shard_ident s = Inr (l, r)"
  shows "(contains_account prefix_len s acc \<longleftrightarrow>
           (contains_account prefix_len l acc \<noteq> contains_account prefix_len r acc))
    \<and> \<not> (contains_account prefix_len l acc \<and> contains_account prefix_len r acc)"
  using shard_lib.split_partition [OF assms] by blast

theorem shard_split_partitions_accounts_witness:
  "contains_account doc_prefix_len (demo_shard\<lparr>shard_prefix_with_tag := 0x2000000000000000\<rparr>) demo_left
   \<noteq> contains_account doc_prefix_len (demo_shard\<lparr>shard_prefix_with_tag := 0x6000000000000000\<rparr>) demo_left"
proof -
  have "doc_split demo_shard = Inr
      (demo_shard\<lparr>shard_prefix_with_tag := shard_prefix_with_tag demo_shard - push_bit 61 1\<rparr>,
       demo_shard\<lparr>shard_prefix_with_tag := shard_prefix_with_tag demo_shard + push_bit 61 1\<rparr>)"
    by (rule doc_split_tagged) (use demo_tagged in simp_all)
  then have "doc_split demo_shard = Inr
      (demo_shard\<lparr>shard_prefix_with_tag := 0x2000000000000000\<rparr>,
       demo_shard\<lparr>shard_prefix_with_tag := 0x6000000000000000\<rparr>)"
    by (simp add: demo_shard_def push_bit_of_1)
  from shard_split_partitions_accounts [OF doc_shards.shard_lib_axioms _ _ this, of 61 demo_left]
  show ?thesis using demo_tagged demo_contains(1) by simp
qed

text \<open>
  C12: \<open>remove_code_hashes\<close> removes from both indices exactly the accounts of the shard, by a
  key range in one and by a scan in the other, and keeps the two indices in agreement.
\<close>

theorem remove_code_hashes_exact:
  assumes "shard_lib prefix_len lower_bits is_full split_shard_ident"
    and "tagged (shard_prefix_with_tag s) t"
    and "index_ok d" and "length acc = 32" and "length h = 32"
    and "d' = remove_code_hashes lower_bits is_full s d"
  shows "index_ok d' \<and>
    hm_get (code_hashes_by_address d') (code_hashes_by_address_id wc acc) =
      (if wc = ucast (workchain_id s) \<and> contains_account prefix_len s acc then None
       else hm_get (code_hashes_by_address d) (code_hashes_by_address_id wc acc)) \<and>
    (code_hashes_id wc acc h \<in> hm_keys (code_hashes d') \<longleftrightarrow>
      code_hashes_id wc acc h \<in> hm_keys (code_hashes d)
      \<and> \<not> (wc = ucast (workchain_id s) \<and> contains_account prefix_len s acc))"
  using shard_lib.remove_code_hashes_ok [OF assms(1-3)]
    shard_lib.remove_code_hashes_by_address [OF assms(1,2,4) index_okD(2) [OF assms(3)]]
    shard_lib.remove_code_hashes_primary [OF assms(1,2,4,5)] unfolding assms(6) by blast+

theorem remove_code_hashes_exact_witness:
  "hm_get (code_hashes_by_address (remove_code_hashes doc_lower_bits doc_is_full demo_shard demo_db))
     (code_hashes_by_address_id 0 demo_left) = None
   \<and> code_hashes_id 0 demo_right demo_hash \<in>
     hm_keys (code_hashes (remove_code_hashes doc_lower_bits doc_is_full demo_shard demo_db))"
  using remove_code_hashes_exact [OF doc_shards.shard_lib_axioms demo_tagged demo_db_ok _ _ refl,
      of demo_left demo_hash 0]
    remove_code_hashes_exact [OF doc_shards.shard_lib_axioms demo_tagged demo_db_ok _ _ refl,
      of demo_right demo_hash 0]
    demo_contains
  by (simp add: demo_shard_def demo_db_def)

text \<open>
  C2: A successful \<open>update\<close> for a block keeps the indices in agreement and touches no account outside the
  block. An account of the block that was active before its first transaction and is not after its last has no code
  hash afterwards; one that is active after its last transaction and was not before its first, or was not active before
  some later one (it was deleted and deployed again), or has a transaction with special actions, has exactly the hash of
  its code in the new state; any other keeps the one it had.
\<close>

theorem update_exact:
  assumes "update rh wc (Inr blocks) (Some (Inr accounts)) d = Inr d'"
    and "workchain_i8 wc = Some w"
    and "index_ok d" and "distinct (map fst blocks)"
    and "\<forall>acc \<in> fst ` set blocks. length acc = 32"
    and "\<And>c. length (rh c) = 32"
  shows "index_ok d'
    \<and> (\<forall>acc txs. (acc, txs) \<in> set blocks \<longrightarrow> (\<exists>ts. txs = map Inr ts \<and>
        (let was_active = (ts \<noteq> [] \<and> orig_status (hd ts) = AccStateActive);
             is_active = (ts \<noteq> [] \<and> end_status (last ts) = AccStateActive);
             code_may_change = (\<exists>t \<in> set ts. orig_status t \<noteq> AccStateActive
                \<or> (\<exists>n. action_spec_actions t = Inr (Some n) \<and> n \<noteq> 0));
             old = hm_get (code_hashes_by_address d) (code_hashes_by_address_id w acc);
             new = hm_get (code_hashes_by_address d') (code_hashes_by_address_id w acc)
         in if was_active \<and> \<not> is_active then new = None
            else if is_active \<and> (\<not> was_active \<or> code_may_change) then
              (\<exists>state. accounts acc = Inr state \<and> (\<forall>h. new = Some h \<longleftrightarrow>
                (\<exists>sa a code. state = Some sa \<and> read_account sa = Inr (Account a)
                  \<and> acc_state a = AccountActive (Some code) \<and> h = rh code)))
            else new = old)))
    \<and> (\<forall>k. k \<notin> code_hashes_by_address_id w ` fst ` set blocks \<longrightarrow>
        hm_get (code_hashes_by_address d') k = hm_get (code_hashes_by_address d) k)"
proof -
  obtain wb where "update_accounts rh d w (Some accounts) blocks [] = Inr wb" "d' = write_batch_apply wb d"
    using assms(1,2) by (auto simp: update_def rbind_eq_Inr_iff)
  then have exact: "index_ok d'"
    "\<forall>(acc, txs) \<in> set blocks. expected_code_hash rh accounts acc txs
       (hm_get (code_hashes_by_address d) (code_hashes_by_address_id w acc)) =
       Inr (hm_get (code_hashes_by_address d') (code_hashes_by_address_id w acc))"
    "\<forall>k. k \<notin> code_hashes_by_address_id w ` fst ` set blocks \<longrightarrow>
       hm_get (code_hashes_by_address d') k = hm_get (code_hashes_by_address d) k"
    using update_accounts_exact [OF _ assms(4-6), where d = d and wb = "[]" and wc = w] assms(3) by simp_all
  show ?thesis
    unfolding Let_def
    by (intro conjI allI impI exact(1) exact(3) [rule_format] expected_code_hash_spec [unfolded Let_def])
      (use exact(2) in auto)
qed

definition demo_block :: "(uint256 \<times> block_tx res list) list" where
  "demo_block =
     [(demo_left, [Inr \<lparr>orig_status = AccStateActive, end_status = AccStateNonexist, action_spec_actions = Inr None\<rparr>]),
      (demo_right, [Inr \<lparr>orig_status = AccStateActive, end_status = AccStateActive, action_spec_actions = Inr (Some 1)\<rparr>])]"

definition demo_accounts :: shard_accounts where
  "demo_accounts acc = (if acc = demo_right then Inr (Some (demo_account [1, 2, 3])) else Inr None)"

lemmas demo_eval = demo_block_def demo_accounts_def demo_account_def demo_db_def
  update_def update_account_def update_code_hash_def update_marker_flags_def code_hash_update_def
  extract_code_hash_def workchain_i8_def

theorem update_exact_witness:
  "\<exists>d'. update demo_repr_hash 0 (Inr demo_block) (Some (Inr demo_accounts)) demo_db = Inr d'
     \<and> hm_get (code_hashes_by_address d') (code_hashes_by_address_id 0 demo_left) = None
     \<and> hm_get (code_hashes_by_address d') (code_hashes_by_address_id 0 demo_right) =
        Some (demo_repr_hash [1, 2, 3])"
proof -
  obtain d' where d': "update demo_repr_hash 0 (Inr demo_block) (Some (Inr demo_accounts)) demo_db = Inr d'"
    by (simp add: demo_eval demo_hash_fresh Let_def)
  have "workchain_i8 0 = Some 0" by (simp add: workchain_i8_def)
  note exact = update_exact [OF d' this demo_db_ok]
  have "distinct (map fst demo_block)" "\<forall>acc \<in> fst ` set demo_block. length acc = 32"
    by (simp_all add: demo_block_def)
  note all = exact [OF this length_demo_repr_hash, THEN conjunct2, THEN conjunct1, rule_format]
  have "hm_get (code_hashes_by_address d') (code_hashes_by_address_id 0 demo_left) = None"
    using all [of demo_left "snd (demo_block ! 0)"] by (auto simp: demo_block_def Cons_eq_map_conv)
  moreover have "hm_get (code_hashes_by_address d') (code_hashes_by_address_id 0 demo_right) =
      Some (demo_repr_hash [1, 2, 3])"
    using all [of demo_right "snd (demo_block ! Suc 0)"]
    by (auto simp: demo_block_def demo_accounts_def demo_account_def Cons_eq_map_conv)
  ultimately show ?thesis using d' by blast
qed

text \<open>
  C11: A successful \<open>reset_accounts\<close> rebuilds the index of a shard: whatever the split depth,
  the accounts of the shard have exactly the code hashes of the given state afterwards, every
  other account keeps its entry, and the two indices agree. The library's split of a state
  is assumed to lose no account.
\<close>

theorem reset_accounts_rebuilds:
  assumes "shard_lib prefix_len lower_bits is_full split_shard_ident"
    and "tagged (shard_prefix_with_tag s) t" and "unat depth \<le> t" and "index_ok d"
    and "state_functional (set accounts)"
    and "\<forall>a x. Inr (a, x) \<in> set accounts \<longrightarrow> length a = 32 \<longrightarrow> contains_account prefix_len s a"
    and "\<forall>s a l r. split_accounts s a = Inr (l, r) \<longrightarrow> set l \<union> set r = set a"
    and "\<And>c. length (rh c) = 32"
    and "reset_accounts lower_bits is_full split_shard_ident split_accounts rh depth s
      (Inr accounts) d = (d', Inr ())"
    and "workchain_i8 (workchain_id s) = Some wc"
    and "length acc = 32"
  shows "index_ok d' \<and>
    (hm_get (code_hashes_by_address d') (code_hashes_by_address_id w acc) = Some h \<longleftrightarrow>
      (if w = wc \<and> contains_account prefix_len s acc then has_code rh (set accounts) acc h
       else hm_get (code_hashes_by_address d) (code_hashes_by_address_id w acc) = Some h))"
  using shard_lib.reset_accounts_exact [OF assms(1-10)] assms(11) by blast

definition demo_split_accounts :: "shard_ident \<Rightarrow> state_accounts \<Rightarrow> (state_accounts \<times> state_accounts) res" where
  "demo_split_accounts s accounts = Inr (accounts, [])"

theorem reset_accounts_rebuilds_witness:
  "\<exists>d'. reset_accounts doc_lower_bits doc_is_full doc_split demo_split_accounts demo_repr_hash 1
       demo_shard (Inr [Inr (demo_left, demo_account [5])]) demo_db = (d', Inr ())
     \<and> hm_get (code_hashes_by_address d') (code_hashes_by_address_id 0 demo_left) = Some (demo_repr_hash [5])
     \<and> hm_get (code_hashes_by_address d') (code_hashes_by_address_id 0 demo_right) = Some demo_hash"
proof -
  have tag: "tagged (shard_prefix_with_tag demo_shard) (Suc 61)" using demo_tagged by simp
  have wc: "workchain_i8 (workchain_id demo_shard) = Some 0"
    by (simp add: demo_shard_def workchain_i8_def)
  have neq: "demo_shard\<lparr>shard_prefix_with_tag := shard_prefix_with_tag demo_shard + push_bit 61 1\<rparr>
      \<noteq> demo_shard\<lparr>shard_prefix_with_tag := shard_prefix_with_tag demo_shard - push_bit 61 1\<rparr>"
    by (simp add: demo_shard_def push_bit_of_1)
  obtain d' where d': "reset_accounts doc_lower_bits doc_is_full doc_split demo_split_accounts demo_repr_hash 1
       demo_shard (Inr [Inr (demo_left, demo_account [5])]) demo_db = (d', Inr ())"
    using neq by (simp add: reset_accounts_def wc Let_def doc_split_tagged [OF tag]
        demo_split_accounts_def demo_account_def extract_code_hash_def)
  have hyps: "unat (1 :: u8) \<le> 62" "state_functional (set [Inr (demo_left, demo_account [5])])"
    "\<forall>a x. Inr (a, x) \<in> set [Inr (demo_left, demo_account [5])] \<longrightarrow> length a = 32 \<longrightarrow>
       contains_account doc_prefix_len demo_shard a"
    "\<forall>s a l r. demo_split_accounts s a = Inr (l, r) \<longrightarrow> set l \<union> set r = set a"
    using demo_contains(1) by (auto simp: state_functional_def demo_split_accounts_def)
  note exact = reset_accounts_rebuilds [OF doc_shards.shard_lib_axioms demo_tagged hyps(1) demo_db_ok
      hyps(2-4) length_demo_repr_hash d' wc]
  have "has_code demo_repr_hash {Inr (demo_left, demo_account [5])} demo_left (demo_repr_hash [5])"
    by (simp add: has_code_iff demo_account_def extract_code_hash_def)
  then show ?thesis
    using d' demo_contains exact [where acc = demo_left and w = 0 and h = "demo_repr_hash [5]"]
      exact [where acc = demo_right and w = 0 and h = demo_hash]
    by (simp add: demo_db_def)
qed

end
