(* ===== verification/Runtime_Storage.thy ===== *)
theory Runtime_Storage
  imports Accounts
begin

section \<open>The cache of shard states\<close>

text \<open>
  \<open>RuntimeStorage\<close> of \<open>src/storage/mod.rs\<close>: the latest accounts of every shard, updated by
  each shard block and consulted for the state of a contract. Shards split and merge; the cache
  drops the parents once their children are there.
\<close>

type_synonym shard_cache = "(shard_ident, shard_accounts) hashmap"

record block_info =
  shard :: shard_ident
  after_merge :: bool
  after_split :: bool
  read_prev_ids :: "shard_ident list res"

definition update_contract_states ::
  "(shard_ident \<Rightarrow> bool) \<Rightarrow> (shard_ident \<Rightarrow> (shard_ident \<times> shard_ident) res) \<Rightarrow>
   shard_ident \<Rightarrow> block_info \<Rightarrow> shard_accounts res \<Rightarrow> shard_cache \<Rightarrow> shard_cache \<times> unit res"
where
  "update_contract_states is_masterchain split block_id info shard_state cache =
     (case shard_state of
        Inl e \<Rightarrow> (cache, Inl e)
      | Inr shard_accounts \<Rightarrow>
          if is_masterchain block_id then (cache, Inr ())
          else
            let cache = hm_insert (shard info) shard_accounts cache
            in if after_merge info \<or> after_split info then
                 (case read_prev_ids info of
                    Inl e \<Rightarrow> (cache, Inl e)
                  | Inr [parent] \<Rightarrow>
                      (case split parent of
                         Inl e \<Rightarrow> (cache, Inl e)
                       | Inr (left, right) \<Rightarrow>
                           (if hm_get cache left \<noteq> None \<and> hm_get cache right \<noteq> None
                            then hm_remove parent cache else cache, Inr ()))
                  | Inr [a, b] \<Rightarrow> (hm_remove b (hm_remove a cache), Inr ())
                  | Inr _ \<Rightarrow> (cache, Inr ()))
               else (cache, Inr ()))"

fun get_contract_state ::
  "(shard_ident \<Rightarrow> nat) \<Rightarrow> shard_cache \<Rightarrow> uint256 \<Rightarrow> existing_contract option res"
where
  "get_contract_state prefix_len [] acc = Inr None"
| "get_contract_state prefix_len ((shard_ident, shard_accounts) # cache) acc =
     (if contains_account prefix_len shard_ident acc then find_account shard_accounts acc
      else get_contract_state prefix_len cache acc)"

subsection \<open>Which shard answers\<close>

text \<open>
  The shards of the cache that contain an account, and the settled caches, in which at most one
  does: then the answer does not depend on the order of the hash map.
\<close>

definition holders :: "(shard_ident \<Rightarrow> nat) \<Rightarrow> shard_cache \<Rightarrow> uint256 \<Rightarrow> shard_ident set" where
  "holders prefix_len cache acc = {s \<in> hm_keys cache. contains_account prefix_len s acc}"

definition settled :: "(shard_ident \<Rightarrow> nat) \<Rightarrow> shard_cache \<Rightarrow> bool" where
  "settled prefix_len cache \<longleftrightarrow> hm_wf cache \<and>
     (\<forall>acc s s'. 8 \<le> length acc \<longrightarrow> s \<in> holders prefix_len cache acc \<longrightarrow>
        s' \<in> holders prefix_len cache acc \<longrightarrow> s = s')"

lemma get_contract_state_holder:
  assumes "hm_wf cache" "holders prefix_len cache acc = {s}" "hm_get cache s = Some a"
  shows "get_contract_state prefix_len cache acc = find_account a acc"
  using assms
proof (induction cache)
  case (Cons e cache)
  obtain s' a' where e: "e = (s', a')" by (cases e)
  show ?case
  proof (cases "contains_account prefix_len s' acc")
    case True
    then have "s' = s" using Cons.prems(2) by (auto simp: e holders_def)
    with Cons.prems(3) e True show ?thesis by simp
  next
    case False
    moreover have "contains_account prefix_len s acc" using Cons.prems(2) by (auto simp: holders_def)
    ultimately have "s' \<noteq> s" by blast
    moreover have "holders prefix_len cache acc = {s}"
      using Cons.prems(2) False by (auto simp: e holders_def)
    ultimately show ?thesis using Cons False by (simp add: e hm_wf_def)
  qed
qed simp

lemma get_contract_state_no_holder:
  "holders prefix_len cache acc = {} \<Longrightarrow> get_contract_state prefix_len cache acc = Inr None"
proof (induction cache)
  case (Cons e cache)
  then have "\<not> contains_account prefix_len (fst e) acc" "holders prefix_len cache acc = {}"
    by (auto simp: holders_def)
  with Cons.IH show ?case by (cases e) simp
qed simp

lemma settled_holder:
  assumes "settled prefix_len cache" "s \<in> holders prefix_len cache acc" "8 \<le> length acc"
  shows "holders prefix_len cache acc = {s}"
  using assms unfolding settled_def by blast

lemma holders_insert:
  "holders prefix_len (hm_insert s a cache) acc =
     (if contains_account prefix_len s acc then insert s (holders prefix_len cache acc)
      else holders prefix_len cache acc)"
  unfolding holders_def hm_keys_insert by auto

lemma holders_remove:
  "holders prefix_len (hm_remove s cache) acc = holders prefix_len cache acc - {s}"
  unfolding holders_def hm_keys_remove by auto

lemma get_settled:
  assumes "settled prefix_len cache" "8 \<le> length acc"
    and "hm_get cache s = Some a" "contains_account prefix_len s acc"
  shows "get_contract_state prefix_len cache acc = find_account a acc"
proof (rule get_contract_state_holder)
  show "hm_wf cache" using assms(1) by (simp add: settled_def)
  have "s \<in> hm_keys cache" using assms(3) by (force dest: hm_get_in_set)
  with assms(4) have "s \<in> holders prefix_len cache acc" by (simp add: holders_def)
  then show "holders prefix_len cache acc = {s}" by (rule settled_holder [OF assms(1) _ assms(2)])
qed (rule assms(3))

lemma settled_insert_same:
  "settled prefix_len cache \<Longrightarrow> s \<in> hm_keys cache \<Longrightarrow> settled prefix_len (hm_insert s a cache)"
  unfolding settled_def holders_def hm_keys_insert by (simp add: insert_absorb)

subsection \<open>Regular blocks, splits and merges\<close>

lemma update_regular:
  assumes "\<not> is_masterchain (shard info)" "\<not> after_merge info" "\<not> after_split info"
  shows "update_contract_states is_masterchain split (shard info) info (Inr a) cache =
    (hm_insert (shard info) a cache, Inr ())"
  using assms by (simp add: update_contract_states_def Let_def)

lemma update_after_split:
  assumes "\<not> is_masterchain (shard info)" "after_split info" "read_prev_ids info = Inr [p]" "split p = Inr (l, r)"
  shows "update_contract_states is_masterchain split (shard info) info (Inr a) cache =
    (let cache = hm_insert (shard info) a cache
     in if l \<in> hm_keys cache \<and> r \<in> hm_keys cache then hm_remove p cache else cache, Inr ())"
  using assms by (simp add: update_contract_states_def Let_def hm_get_None_iff)

lemma update_after_merge:
  assumes "\<not> is_masterchain (shard info)" "after_merge info" "read_prev_ids info = Inr [l, r]"
  shows "update_contract_states is_masterchain split (shard info) info (Inr a) cache =
    (hm_remove r (hm_remove l (hm_insert (shard info) a cache)), Inr ())"
  using assms by (simp add: update_contract_states_def Let_def)

lemma settled_split:
  assumes set: "settled prefix_len cache" and p: "p \<in> hm_keys cache"
    and wf: "hm_wf cache'" and keys: "hm_keys cache' = insert l (insert r (hm_keys cache)) - {p}"
    and parts: "\<And>acc. 8 \<le> length acc \<Longrightarrow> contains_account prefix_len p acc \<longleftrightarrow>
        (contains_account prefix_len l acc \<noteq> contains_account prefix_len r acc)"
    and excl: "\<And>acc. 8 \<le> length acc \<Longrightarrow> \<not> (contains_account prefix_len l acc \<and> contains_account prefix_len r acc)"
  shows "settled prefix_len cache'"
  unfolding settled_def
proof (intro conjI allI impI wf)
  fix acc k k'
  assume acc: "8 \<le> length acc" and k: "k \<in> holders prefix_len cache' acc" "k' \<in> holders prefix_len cache' acc"
  show "k = k'"
  proof (cases "contains_account prefix_len p acc")
    case True
    with p have "holders prefix_len cache acc = {p}"
      by (intro settled_holder [OF set _ acc]) (simp add: holders_def)
    then have "holders prefix_len cache' acc \<subseteq> {s \<in> {l, r}. contains_account prefix_len s acc}"
      unfolding holders_def keys by auto
    with k excl [OF acc] show ?thesis by auto
  next
    case False
    with parts [OF acc] excl [OF acc] have "holders prefix_len cache' acc \<subseteq> holders prefix_len cache acc"
      unfolding holders_def keys by auto
    with k set acc show ?thesis unfolding settled_def by blast
  qed
qed

lemma settled_merge:
  assumes set: "settled prefix_len cache" and lr: "l \<in> hm_keys cache" "r \<in> hm_keys cache"
    and wf: "hm_wf cache'" and keys: "hm_keys cache' = insert p (hm_keys cache) - {l, r}"
    and parts: "\<And>acc. 8 \<le> length acc \<Longrightarrow> contains_account prefix_len p acc \<longleftrightarrow>
        (contains_account prefix_len l acc \<noteq> contains_account prefix_len r acc)"
  shows "settled prefix_len cache'"
  unfolding settled_def
proof (intro conjI allI impI wf)
  fix acc k k'
  assume acc: "8 \<le> length acc" and k: "k \<in> holders prefix_len cache' acc" "k' \<in> holders prefix_len cache' acc"
  show "k = k'"
  proof (cases "contains_account prefix_len p acc")
    case True
    then obtain c where c: "c \<in> {l, r}" "contains_account prefix_len c acc"
      using parts [OF acc] by blast
    then have "holders prefix_len cache acc = {c}"
      using lr by (intro settled_holder [OF set _ acc]) (auto simp: holders_def)
    then have "holders prefix_len cache' acc \<subseteq> {p}"
      using c unfolding holders_def keys by auto
    with k show ?thesis by auto
  next
    case False
    then have "holders prefix_len cache' acc \<subseteq> holders prefix_len cache acc"
      unfolding holders_def keys by auto
    with k set acc show ?thesis unfolding settled_def by blast
  qed
qed

subsection \<open>Properties\<close>

text \<open>
  A split: once a block of each child has been processed, in either order, the parent is
  out of the cache, the cache is settled again, and every account of the parent is looked up in
  the accounts of the child that contains it.
\<close>

theorem cache_after_split:
  assumes "shard_lib prefix_len lower_bits is_full split"
    and "tagged (shard_prefix_with_tag p) (Suc t)" and "split p = Inr (l, r)"
    and "settled prefix_len cache" and "p \<in> hm_keys cache"
    and "{(shard info1, a1), (shard info2, a2)} = {(l, al), (r, ar)}"
    and "\<forall>info \<in> {info1, info2}. \<not> is_masterchain (shard info) \<and> after_split info
      \<and> read_prev_ids info = Inr [p]"
    and "cache1 = fst (update_contract_states is_masterchain split (shard info1) info1 (Inr a1) cache)"
    and "cache2 = fst (update_contract_states is_masterchain split (shard info2) info2 (Inr a2) cache1)"
    and "contains_account prefix_len p acc" and "8 \<le> length acc"
  shows "settled prefix_len cache2 \<and> p \<notin> hm_keys cache2 \<and>
    get_contract_state prefix_len cache2 acc =
      find_account (if contains_account prefix_len l acc then al else ar) acc"
proof -
  note parts = shard_lib.split_partition [OF assms(1,2) _ assms(3)]
  have tags: "tagged (shard_prefix_with_tag l) t" "tagged (shard_prefix_with_tag r) t"
    using tagged_split [OF assms(2)] shard_lib.split_tagged [OF assms(1-3)] by auto
  have neq: "l \<noteq> p" "r \<noteq> p" using tags tagged_unique [OF assms(2), of t] by auto
  have lr: "l \<noteq> r"
  proof
    assume "l = r"
    then show False using parts [of acc] assms(10,11) by blast
  qed
  have one: "cache1 = (let c = hm_insert (shard info1) a1 cache
      in if l \<in> hm_keys c \<and> r \<in> hm_keys c then hm_remove p c else c)"
    using update_after_split [of is_masterchain info1 p split l r a1 cache] assms(3,7,8) by simp
  have two: "cache2 = (let c = hm_insert (shard info2) a2 cache1
      in if l \<in> hm_keys c \<and> r \<in> hm_keys c then hm_remove p c else c)"
    using update_after_split [of is_masterchain info2 p split l r a2 cache1] assms(3,7,9) by simp
  have order: "shard info1 = l \<and> a1 = al \<and> shard info2 = r \<and> a2 = ar
      \<or> shard info1 = r \<and> a1 = ar \<and> shard info2 = l \<and> a2 = al"
    using assms(6) by (auto simp: doubleton_eq_iff)
  have wf: "hm_wf cache2"
    using assms(4) unfolding two one by (simp add: settled_def Let_def)
  have keys: "hm_keys cache2 = insert l (insert r (hm_keys cache)) - {p}"
    using order neq unfolding two one by (auto simp: Let_def)
  have get: "hm_get cache2 l = Some al" "hm_get cache2 r = Some ar"
    using order neq lr unfolding two one by (auto simp: Let_def hm_simps)
  have set: "settled prefix_len cache2"
    by (rule settled_split [OF assms(4,5) wf keys]) (use parts in blast)+
  show ?thesis
    using set keys get parts(1) [OF assms(11)] assms(10) get_settled [OF set assms(11)] by auto
qed

text \<open>
  C15: A merge: the block of the merged shard replaces both of its parents, in whichever order
  the block lists them; the cache stays settled and every account of the merged shard is looked
  up in the new accounts.
\<close>

theorem cache_after_merge:
  assumes "shard_lib prefix_len lower_bits is_full split"
    and "tagged (shard_prefix_with_tag (shard info)) (Suc t)" and "split (shard info) = Inr (l, r)"
    and "settled prefix_len cache" and "l \<in> hm_keys cache" and "r \<in> hm_keys cache"
    and "\<not> is_masterchain (shard info)" and "after_merge info"
    and "read_prev_ids info = Inr [l, r] \<or> read_prev_ids info = Inr [r, l]"
    and "cache' = fst (update_contract_states is_masterchain split (shard info) info (Inr a) cache)"
    and "contains_account prefix_len (shard info) acc" and "8 \<le> length acc"
  shows "settled prefix_len cache' \<and> l \<notin> hm_keys cache' \<and> r \<notin> hm_keys cache' \<and>
    get_contract_state prefix_len cache' acc = find_account a acc"
proof -
  note parts = shard_lib.split_partition [OF assms(1,2) _ assms(3)]
  have tags: "tagged (shard_prefix_with_tag l) t" "tagged (shard_prefix_with_tag r) t"
    using tagged_split [OF assms(2)] shard_lib.split_tagged [OF assms(1-3)] by auto
  have neq: "l \<noteq> shard info" "r \<noteq> shard info" using tags tagged_unique [OF assms(2), of t] by auto
  from assms(9) obtain x y where xy: "read_prev_ids info = Inr [x, y]" "{x, y} = {l, r}" by blast
  then have mem: "z \<in> {x, y} \<longleftrightarrow> z = l \<or> z = r" for z by simp
  have cache': "cache' = hm_remove y (hm_remove x (hm_insert (shard info) a cache))"
    using update_after_merge [where info = info and is_masterchain = is_masterchain, OF assms(7,8) xy(1)]
      assms(10) by simp
  have wf: "hm_wf cache'" using assms(4) by (simp add: cache' settled_def)
  have keys: "hm_keys cache' = insert (shard info) (hm_keys cache) - {l, r}"
    using mem unfolding cache' by auto
  have get: "hm_get cache' (shard info) = Some a"
    using mem neq unfolding cache' by (auto simp: hm_simps)
  have set: "settled prefix_len cache'"
    by (rule settled_merge [OF assms(4-6) wf keys]) (use parts in blast)
  show ?thesis
    using set keys neq get_settled [OF set assms(12) get assms(11)] by auto
qed

subsection \<open>Witnesses\<close>

definition demo_parent :: shard_ident where
  "demo_parent = \<lparr>workchain_id = 0, shard_prefix_with_tag = SHARD_FULL\<rparr>"

definition demo_children :: "shard_ident \<times> shard_ident" where
  "demo_children = (demo_parent\<lparr>shard_prefix_with_tag := SHARD_FULL - push_bit 62 1\<rparr>,
                    demo_parent\<lparr>shard_prefix_with_tag := SHARD_FULL + push_bit 62 1\<rparr>)"

definition demo_states :: "nat \<Rightarrow> shard_accounts" where
  "demo_states n acc = Inr (if n = 0 then None else Some
     \<lparr>read_account = Inr (Account \<lparr>balance = of_nat n, acc_state = AccountUninit\<rparr>),
      last_trans_lt = 0, last_trans_hash = []\<rparr>)"

lemma demo_parent_split: "doc_split demo_parent = Inr demo_children"
  "tagged (shard_prefix_with_tag demo_parent) (Suc 62)"
proof -
  show tag: "tagged (shard_prefix_with_tag demo_parent) (Suc 62)"
    using tagged_full by (simp add: demo_parent_def)
  show "doc_split demo_parent = Inr demo_children"
    using doc_split_tagged [OF tag] by (simp add: demo_children_def demo_parent_def)
qed

lemma demo_parent_settled: "settled doc_prefix_len [(demo_parent, a)]"
  by (auto simp: settled_def holders_def hm_wf_def)

lemma demo_parent_contains: "contains_account doc_prefix_len demo_parent acc"
  by (simp add: contains_account_def demo_parent_def)

lemma demo_children_settled:
  "settled doc_prefix_len [(fst demo_children, a), (snd demo_children, b)]"
proof -
  have "fst demo_children \<noteq> snd demo_children"
    by (simp add: demo_children_def demo_parent_def SHARD_FULL_def push_bit_of_1)
  moreover have "doc_split demo_parent = Inr (fst demo_children, snd demo_children)"
    using demo_parent_split by simp
  note doc_shards.split_partition(2) [OF demo_parent_split(2) _ this]
  ultimately show ?thesis by (auto simp: settled_def holders_def hm_wf_def)
qed

definition demo_split_block :: "shard_ident \<Rightarrow> block_info" where
  "demo_split_block s = \<lparr>shard = s, after_merge = False, after_split = True, read_prev_ids = Inr [demo_parent]\<rparr>"

definition demo_merge_block :: block_info where
  "demo_merge_block = \<lparr>shard = demo_parent, after_merge = True, after_split = False,
     read_prev_ids = Inr [fst demo_children, snd demo_children]\<rparr>"

theorem cache_after_split_witness:
  "\<exists>n \<in> {2, 3}. get_contract_state doc_prefix_len
     (fst (update_contract_states (\<lambda>_. False) doc_split (snd demo_children)
       (demo_split_block (snd demo_children)) (Inr (demo_states 3))
       (fst (update_contract_states (\<lambda>_. False) doc_split (fst demo_children)
         (demo_split_block (fst demo_children)) (Inr (demo_states 2)) [(demo_parent, demo_states 1)]))))
     (replicate 32 9) = find_account (demo_states n) (replicate 32 9)"
proof -
  have "doc_split demo_parent = Inr (fst demo_children, snd demo_children)"
    using demo_parent_split by simp
  note C = cache_after_split [OF doc_shards.shard_lib_axioms demo_parent_split(2) this
      demo_parent_settled [of "demo_states 1"], of "demo_split_block (fst demo_children)" "demo_states 2"
      "demo_split_block (snd demo_children)" "demo_states 3" "demo_states 2" "demo_states 3"
      "\<lambda>_. False", OF _ _ _ refl refl demo_parent_contains, of "replicate 32 9"]
  then show ?thesis by (auto simp: demo_split_block_def)
qed

theorem cache_after_merge_witness:
  "get_contract_state doc_prefix_len
     (fst (update_contract_states (\<lambda>_. False) doc_split demo_parent demo_merge_block (Inr (demo_states 3))
       [(fst demo_children, demo_states 1), (snd demo_children, demo_states 2)]))
     (replicate 32 9) = find_account (demo_states 3) (replicate 32 9)"
proof -
  have "doc_split demo_parent = Inr (fst demo_children, snd demo_children)"
    using demo_parent_split by simp
  note sp = this
  let ?cache = "[(fst demo_children, demo_states 1), (snd demo_children, demo_states 2)]"
  let ?cache' = "fst (update_contract_states (\<lambda>_. False) doc_split (shard demo_merge_block)
    demo_merge_block (Inr (demo_states 3)) ?cache)"
  have "settled doc_prefix_len ?cache' \<and> fst demo_children \<notin> hm_keys ?cache'
      \<and> snd demo_children \<notin> hm_keys ?cache'
      \<and> get_contract_state doc_prefix_len ?cache' (replicate 32 9) =
        find_account (demo_states 3) (replicate 32 9)"
    by (rule cache_after_merge [OF doc_shards.shard_lib_axioms _ _ demo_children_settled _ _ _ _ _ refl,
          where t = 62])
      (use demo_parent_split sp demo_parent_contains in \<open>simp_all add: demo_merge_block_def\<close>)
  then show ?thesis by (simp add: demo_merge_block_def)
qed

end
