(* ===== verification/Abi.thy ===== *)
theory Abi
  imports Accounts
begin

section \<open>Function and event signatures\<close>

text \<open>
  The ABI descriptions of the contracts the relay talks to, one builder function per contract
  function or event, from the files \<open>src/engine/ton_contracts/*_contract.rs\<close>. A description is
  the data of the builder calls: the name, the headers, the inputs and outputs in order.
  The parameter lists and types derived from the structures of \<open>models.rs\<close> by a macro of the
  library are named, not expanded. Encoding and decoding are third-party.
\<close>

datatype param_type =
    UintType nat
  | BoolType
  | AddressType
  | BytesType
  | KnownType string \<comment> \<open>\<open>T::param_type()\<close> of a model\<close>

datatype params =
    Param string param_type
  | KnownParams string \<comment> \<open>all parameters of a plain model\<close>

datatype abi_header = TimeHeader | ExpireHeader | PubkeyHeader

record abi_function =
  fn_name :: string
  responsible :: bool
  fn_headers :: "abi_header list"
  fn_inputs :: "params list"
  fn_outputs :: "params list"

record abi_event =
  event_name :: string
  event_inputs :: "params list"

subsection \<open>Tokens\<close>

record msg_address =
  addr_workchain :: i32
  addr_hash :: uint256

datatype token_value =
    TokenUint nat nat \<comment> \<open>number and size\<close>
  | TokenBool bool
  | TokenAddrStd msg_address
  | TokenAddrNone
  | TokenAddrOther
  | TokenBytes bytes
  | TokenCell cell
  | TokenArray "token_value list"
  | TokenTime u64
  | TokenExpire u32
  | TokenPublicKey uint256
  | TokenOther

type_synonym token = "string \<times> token_value"
type_synonym tokens = "token list"

text \<open>
  The parameters of a description, with \<open>known\<close> and \<open>models\<close> the types and parameter lists
  of the derived models. A responsible function takes an answer id first (documented behaviour of
  the builder); the library refuses to encode tokens that do not match (names and types).
\<close>

primrec param_list :: "(string \<Rightarrow> (string \<times> param_type) list) \<Rightarrow> params \<Rightarrow> (string \<times> param_type) list" where
  "param_list models (Param n t) = [(n, t)]"
| "param_list models (KnownParams m) = models m"

definition function_params ::
  "(string \<Rightarrow> (string \<times> param_type) list) \<Rightarrow> abi_function \<Rightarrow> (string \<times> param_type) list" where
  "function_params models f =
     (if responsible f then [(''answerId'', UintType 32)] else [])
     @ concat (map (param_list models) (fn_inputs f))"

fun value_matches :: "(string \<Rightarrow> param_type) \<Rightarrow> param_type \<Rightarrow> token_value \<Rightarrow> bool" where
  "value_matches known (UintType w) (TokenUint n w') \<longleftrightarrow> w = w' \<and> n < 2 ^ w"
| "value_matches known BoolType (TokenBool _) \<longleftrightarrow> True"
| "value_matches known AddressType (TokenAddrStd _) \<longleftrightarrow> True"
| "value_matches known AddressType TokenAddrNone \<longleftrightarrow> True"
| "value_matches known BytesType (TokenBytes _) \<longleftrightarrow> True"
| "value_matches known (KnownType m) (TokenUint n w') \<longleftrightarrow> known m = UintType w' \<and> n < 2 ^ w'"
| "value_matches known _ _ \<longleftrightarrow> False"

definition tokens_match ::
  "(string \<Rightarrow> param_type) \<Rightarrow> (string \<Rightarrow> (string \<times> param_type) list) \<Rightarrow> abi_function \<Rightarrow> tokens \<Rightarrow> bool" where
  "tokens_match known models f ts \<longleftrightarrow>
     list_all2 (\<lambda>(n, t) (n', v). n = n' \<and> value_matches known t v) (function_params models f) ts"

subsection \<open>\<open>base_event_configuration_contract.rs\<close>\<close>

definition base_event_configuration_contract_get_type :: abi_function where
  "base_event_configuration_contract_get_type = \<lparr>fn_name = ''getType'', responsible = True,
     fn_headers = [TimeHeader, ExpireHeader],
     fn_inputs = [],
     fn_outputs = [Param ''type'' (UintType 8)]\<rparr>"

definition base_event_configuration_contract_get_flags :: abi_function where
  "base_event_configuration_contract_get_flags = \<lparr>fn_name = ''getFlags'', responsible = True,
     fn_headers = [TimeHeader, ExpireHeader],
     fn_inputs = [],
     fn_outputs = [Param ''flags'' (UintType 64)]\<rparr>"

definition base_event_configuration_contract_new_event_contract :: abi_event where
  "base_event_configuration_contract_new_event_contract = \<lparr>event_name = ''NewEventContract'', event_inputs = [Param ''address'' AddressType]\<rparr>"

subsection \<open>\<open>base_event_contract.rs\<close>\<close>

definition base_event_contract_status :: abi_function where
  "base_event_contract_status = \<lparr>fn_name = ''status'', responsible = False,
     fn_headers = [TimeHeader, ExpireHeader, PubkeyHeader],
     fn_inputs = [],
     fn_outputs = [Param ''status'' (KnownType ''EventStatus'')]\<rparr>"

definition base_event_contract_round_number :: abi_function where
  "base_event_contract_round_number = \<lparr>fn_name = ''round_number'', responsible = False,
     fn_headers = [TimeHeader, ExpireHeader, PubkeyHeader],
     fn_inputs = [],
     fn_outputs = [Param ''round_number'' (UintType 32)]\<rparr>"

definition base_event_contract_created_at :: abi_function where
  "base_event_contract_created_at = \<lparr>fn_name = ''createdAt'', responsible = False,
     fn_headers = [TimeHeader, ExpireHeader, PubkeyHeader],
     fn_inputs = [],
     fn_outputs = [Param ''createdAt'' (UintType 32)]\<rparr>"

definition base_event_contract_get_voters :: abi_function where
  "base_event_contract_get_voters = \<lparr>fn_name = ''getVoters'', responsible = True,
     fn_headers = [TimeHeader, ExpireHeader, PubkeyHeader],
     fn_inputs = [Param ''vote'' (KnownType ''EventVote'')],
     fn_outputs = [KnownParams ''RelayKeys'']\<rparr>"

definition base_event_contract_get_api_version :: abi_function where
  "base_event_contract_get_api_version = \<lparr>fn_name = ''getApiVersion'', responsible = True,
     fn_headers = [TimeHeader, ExpireHeader, PubkeyHeader],
     fn_inputs = [],
     fn_outputs = [Param ''version'' (UintType 32)]\<rparr>"

definition base_event_contract_receive_round_relays :: abi_function where
  "base_event_contract_receive_round_relays = \<lparr>fn_name = ''receiveRoundRelays'', responsible = False,
     fn_headers = [],
     fn_inputs = [KnownParams ''RelayKeys''],
     fn_outputs = []\<rparr>"

definition base_event_contract_rejected :: abi_event where
  "base_event_contract_rejected = \<lparr>event_name = ''Rejected'', event_inputs = [Param ''reason'' (UintType 32)]\<rparr>"

subsection \<open>\<open>bridge_contract.rs\<close>\<close>

definition bridge_contract_connector_counter :: abi_function where
  "bridge_contract_connector_counter = \<lparr>fn_name = ''connectorCounter'', responsible = False,
     fn_headers = [TimeHeader, ExpireHeader, PubkeyHeader],
     fn_inputs = [],
     fn_outputs = [Param ''counter'' (UintType 64)]\<rparr>"

definition bridge_contract_get_details :: abi_function where
  "bridge_contract_get_details = \<lparr>fn_name = ''getDetails'', responsible = True,
     fn_headers = [TimeHeader, ExpireHeader, PubkeyHeader],
     fn_inputs = [],
     fn_outputs = [KnownParams ''BridgeDetails'']\<rparr>"

definition bridge_contract_derive_connector_address :: abi_function where
  "bridge_contract_derive_connector_address = \<lparr>fn_name = ''deriveConnectorAddress'', responsible = False,
     fn_headers = [TimeHeader, ExpireHeader, PubkeyHeader],
     fn_inputs = [Param ''id'' (UintType 64)],
     fn_outputs = [Param ''connector'' AddressType]\<rparr>"

definition bridge_contract_connector_deployed :: abi_event where
  "bridge_contract_connector_deployed = \<lparr>event_name = ''ConnectorDeployed'', event_inputs = [KnownParams ''ConnectorDeployedEvent'']\<rparr>"

subsection \<open>\<open>connector_contract.rs\<close>\<close>

definition connector_contract_get_details :: abi_function where
  "connector_contract_get_details = \<lparr>fn_name = ''getDetails'', responsible = False,
     fn_headers = [TimeHeader],
     fn_inputs = [],
     fn_outputs = [KnownParams ''ConnectorDetails'']\<rparr>"

definition connector_contract_enabled :: abi_event where
  "connector_contract_enabled = \<lparr>event_name = ''Enabled'', event_inputs = []\<rparr>"

subsection \<open>\<open>elections_contract.rs\<close>\<close>

definition elections_contract_staker_addrs :: abi_function where
  "elections_contract_staker_addrs = \<lparr>fn_name = ''staker_addrs'', responsible = False,
     fn_headers = [TimeHeader, ExpireHeader],
     fn_inputs = [],
     fn_outputs = [KnownParams ''StakerAddresses'']\<rparr>"

subsection \<open>\<open>eth_ton_event_configuration_contract.rs\<close>\<close>

definition eth_ton_event_configuration_contract_get_details :: abi_function where
  "eth_ton_event_configuration_contract_get_details = \<lparr>fn_name = ''getDetails'', responsible = True,
     fn_headers = [TimeHeader, ExpireHeader],
     fn_inputs = [],
     fn_outputs = [KnownParams ''EthTonEventConfigurationDetails'']\<rparr>"

definition eth_ton_event_configuration_contract_set_end_block_number :: abi_function where
  "eth_ton_event_configuration_contract_set_end_block_number = \<lparr>fn_name = ''setEndBlockNumber'', responsible = False,
     fn_headers = [],
     fn_inputs = [Param ''end_block_number'' (UintType 32)],
     fn_outputs = []\<rparr>"

subsection \<open>\<open>eth_ton_event_contract.rs\<close>\<close>

definition eth_ton_event_contract_get_event_init_data :: abi_function where
  "eth_ton_event_contract_get_event_init_data = \<lparr>fn_name = ''getEventInitData'', responsible = True,
     fn_headers = [TimeHeader, ExpireHeader, PubkeyHeader],
     fn_inputs = [],
     fn_outputs = [Param ''details'' (KnownType ''EthTonEventInitData'')]\<rparr>"

definition eth_ton_event_contract_get_decoded_data :: abi_function where
  "eth_ton_event_contract_get_decoded_data = \<lparr>fn_name = ''getDecodedData'', responsible = True,
     fn_headers = [TimeHeader, ExpireHeader, PubkeyHeader],
     fn_inputs = [],
     fn_outputs = [KnownParams ''EthTonEventDecodedData'']\<rparr>"

definition eth_ton_event_contract_confirm :: abi_function where
  "eth_ton_event_contract_confirm = \<lparr>fn_name = ''confirm'', responsible = False,
     fn_headers = [TimeHeader, ExpireHeader, PubkeyHeader],
     fn_inputs = [Param ''voteReceiver'' AddressType],
     fn_outputs = []\<rparr>"

definition eth_ton_event_contract_reject :: abi_function where
  "eth_ton_event_contract_reject = \<lparr>fn_name = ''reject'', responsible = False,
     fn_headers = [TimeHeader, ExpireHeader, PubkeyHeader],
     fn_inputs = [Param ''voteReceiver'' AddressType],
     fn_outputs = []\<rparr>"

subsection \<open>\<open>relay_round_contract.rs\<close>\<close>

definition relay_round_contract_get_details :: abi_function where
  "relay_round_contract_get_details = \<lparr>fn_name = ''getDetails'', responsible = True,
     fn_headers = [TimeHeader],
     fn_inputs = [],
     fn_outputs = [Param ''details'' (KnownType ''RelayRoundDetails'')]\<rparr>"

definition relay_round_contract_has_unclaimed_reward :: abi_function where
  "relay_round_contract_has_unclaimed_reward = \<lparr>fn_name = ''hasUnclaimedReward'', responsible = True,
     fn_headers = [TimeHeader],
     fn_inputs = [Param ''staker_addr'' AddressType],
     fn_outputs = [Param ''has_reward'' BoolType]\<rparr>"

definition relay_round_contract_end_time :: abi_function where
  "relay_round_contract_end_time = \<lparr>fn_name = ''end_time'', responsible = False,
     fn_headers = [TimeHeader],
     fn_inputs = [],
     fn_outputs = [Param ''end_time'' (UintType 32)]\<rparr>"

subsection \<open>\<open>sol_ton_event_configuration_contract.rs\<close>\<close>

definition sol_ton_event_configuration_contract_get_details :: abi_function where
  "sol_ton_event_configuration_contract_get_details = \<lparr>fn_name = ''getDetails'', responsible = True,
     fn_headers = [TimeHeader, ExpireHeader],
     fn_inputs = [],
     fn_outputs = [KnownParams ''SolTonEventConfigurationDetails'']\<rparr>"

definition sol_ton_event_configuration_contract_set_end_timestamp :: abi_function where
  "sol_ton_event_configuration_contract_set_end_timestamp = \<lparr>fn_name = ''setEndTimestamp'', responsible = False,
     fn_headers = [],
     fn_inputs = [Param ''end_timestamp'' (UintType 32)],
     fn_outputs = []\<rparr>"

subsection \<open>\<open>sol_ton_event_contract.rs\<close>\<close>

definition sol_ton_event_contract_get_event_init_data :: abi_function where
  "sol_ton_event_contract_get_event_init_data = \<lparr>fn_name = ''getEventInitData'', responsible = True,
     fn_headers = [TimeHeader, ExpireHeader, PubkeyHeader],
     fn_inputs = [],
     fn_outputs = [Param ''details'' (KnownType ''SolTonEventInitData'')]\<rparr>"

definition sol_ton_event_contract_confirm :: abi_function where
  "sol_ton_event_contract_confirm = \<lparr>fn_name = ''confirm'', responsible = False,
     fn_headers = [TimeHeader, ExpireHeader, PubkeyHeader],
     fn_inputs = [Param ''voteReceiver'' AddressType],
     fn_outputs = []\<rparr>"

definition sol_ton_event_contract_reject :: abi_function where
  "sol_ton_event_contract_reject = \<lparr>fn_name = ''reject'', responsible = False,
     fn_headers = [TimeHeader, ExpireHeader, PubkeyHeader],
     fn_inputs = [Param ''voteReceiver'' AddressType],
     fn_outputs = []\<rparr>"

subsection \<open>\<open>staking_contract.rs\<close>\<close>

definition staking_contract_start_election_on_new_round :: abi_function where
  "staking_contract_start_election_on_new_round = \<lparr>fn_name = ''startElectionOnNewRound'', responsible = False,
     fn_headers = [TimeHeader, ExpireHeader, PubkeyHeader],
     fn_inputs = [],
     fn_outputs = []\<rparr>"

definition staking_contract_end_election :: abi_function where
  "staking_contract_end_election = \<lparr>fn_name = ''endElection'', responsible = False,
     fn_headers = [TimeHeader, ExpireHeader, PubkeyHeader],
     fn_inputs = [],
     fn_outputs = []\<rparr>"

definition staking_contract_get_details :: abi_function where
  "staking_contract_get_details = \<lparr>fn_name = ''getDetails'', responsible = True,
     fn_headers = [TimeHeader, ExpireHeader, PubkeyHeader],
     fn_inputs = [],
     fn_outputs = [Param ''details'' (KnownType ''StakingDetails'')]\<rparr>"

definition staking_contract_get_relay_rounds_details :: abi_function where
  "staking_contract_get_relay_rounds_details = \<lparr>fn_name = ''getRelayRoundsDetails'', responsible = True,
     fn_headers = [TimeHeader, ExpireHeader, PubkeyHeader],
     fn_inputs = [],
     fn_outputs = [Param ''details'' (KnownType ''RelayRoundsDetails'')]\<rparr>"

definition staking_contract_get_relay_config :: abi_function where
  "staking_contract_get_relay_config = \<lparr>fn_name = ''getRelayConfig'', responsible = True,
     fn_headers = [TimeHeader, ExpireHeader, PubkeyHeader],
     fn_inputs = [],
     fn_outputs = [Param ''details'' (KnownType ''RelayConfigDetails'')]\<rparr>"

definition staking_contract_get_election_address :: abi_function where
  "staking_contract_get_election_address = \<lparr>fn_name = ''getElectionAddress'', responsible = True,
     fn_headers = [TimeHeader, ExpireHeader, PubkeyHeader],
     fn_inputs = [Param ''round_num'' (UintType 32)],
     fn_outputs = [Param ''address'' AddressType]\<rparr>"

definition staking_contract_get_relay_round_address :: abi_function where
  "staking_contract_get_relay_round_address = \<lparr>fn_name = ''getRelayRoundAddress'', responsible = True,
     fn_headers = [TimeHeader, ExpireHeader, PubkeyHeader],
     fn_inputs = [Param ''round_num'' (UintType 32)],
     fn_outputs = [Param ''address'' AddressType]\<rparr>"

definition staking_contract_get_user_data_address :: abi_function where
  "staking_contract_get_user_data_address = \<lparr>fn_name = ''getUserDataAddress'', responsible = True,
     fn_headers = [TimeHeader, ExpireHeader, PubkeyHeader],
     fn_inputs = [Param ''user'' AddressType],
     fn_outputs = [Param ''address'' AddressType]\<rparr>"

definition staking_contract_election_started :: abi_event where
  "staking_contract_election_started = \<lparr>event_name = ''ElectionStarted'', event_inputs = [KnownParams ''ElectionStartedEvent'']\<rparr>"

definition staking_contract_election_ended :: abi_event where
  "staking_contract_election_ended = \<lparr>event_name = ''ElectionEnded'', event_inputs = [KnownParams ''ElectionEndedEvent'']\<rparr>"

definition staking_contract_relay_round_initialized :: abi_event where
  "staking_contract_relay_round_initialized = \<lparr>event_name = ''RelayRoundInitialized'', event_inputs = [KnownParams ''RelayRoundInitializedEvent'']\<rparr>"

definition staking_contract_relay_config_updated :: abi_event where
  "staking_contract_relay_config_updated = \<lparr>event_name = ''RelayConfigUpdated'', event_inputs = [KnownParams ''RelayConfigUpdatedEvent'']\<rparr>"

subsection \<open>\<open>token_root_contract.rs\<close>\<close>

definition token_root_contract_wallet_of :: abi_function where
  "token_root_contract_wallet_of = \<lparr>fn_name = ''walletOf'', responsible = True,
     fn_headers = [TimeHeader, ExpireHeader, PubkeyHeader],
     fn_inputs = [Param ''walletOwner'' AddressType],
     fn_outputs = [Param ''value0'' AddressType]\<rparr>"

subsection \<open>\<open>token_wallet_contract.rs\<close>\<close>

definition token_wallet_contract_root :: abi_function where
  "token_wallet_contract_root = \<lparr>fn_name = ''root'', responsible = True,
     fn_headers = [TimeHeader, ExpireHeader, PubkeyHeader],
     fn_inputs = [],
     fn_outputs = [Param ''value0'' AddressType]\<rparr>"

subsection \<open>\<open>ton_eth_event_configuration_contract.rs\<close>\<close>

definition ton_eth_event_configuration_contract_get_details :: abi_function where
  "ton_eth_event_configuration_contract_get_details = \<lparr>fn_name = ''getDetails'', responsible = True,
     fn_headers = [TimeHeader, ExpireHeader],
     fn_inputs = [],
     fn_outputs = [KnownParams ''TonEthEventConfigurationDetails'']\<rparr>"

definition ton_eth_event_configuration_contract_set_end_timestamp :: abi_function where
  "ton_eth_event_configuration_contract_set_end_timestamp = \<lparr>fn_name = ''setEndTimestamp'', responsible = False,
     fn_headers = [],
     fn_inputs = [Param ''end_timestamp'' (UintType 32)],
     fn_outputs = []\<rparr>"

subsection \<open>\<open>ton_eth_event_contract.rs\<close>\<close>

definition ton_eth_event_contract_get_event_init_data :: abi_function where
  "ton_eth_event_contract_get_event_init_data = \<lparr>fn_name = ''getEventInitData'', responsible = True,
     fn_headers = [TimeHeader, ExpireHeader, PubkeyHeader],
     fn_inputs = [],
     fn_outputs = [Param ''details'' (KnownType ''TonEthEventInitData'')]\<rparr>"

definition ton_eth_event_contract_get_decoded_data :: abi_function where
  "ton_eth_event_contract_get_decoded_data = \<lparr>fn_name = ''getDecodedData'', responsible = True,
     fn_headers = [TimeHeader, ExpireHeader, PubkeyHeader],
     fn_inputs = [],
     fn_outputs = [KnownParams ''TonEthEventDecodedData'']\<rparr>"

definition ton_eth_event_contract_confirm :: abi_function where
  "ton_eth_event_contract_confirm = \<lparr>fn_name = ''confirm'', responsible = False,
     fn_headers = [TimeHeader, ExpireHeader, PubkeyHeader],
     fn_inputs = [Param ''signature'' BytesType, Param ''voteReceiver'' AddressType],
     fn_outputs = []\<rparr>"

definition ton_eth_event_contract_reject :: abi_function where
  "ton_eth_event_contract_reject = \<lparr>fn_name = ''reject'', responsible = False,
     fn_headers = [TimeHeader, ExpireHeader, PubkeyHeader],
     fn_inputs = [Param ''voteReceiver'' AddressType],
     fn_outputs = []\<rparr>"

subsection \<open>\<open>ton_sol_event_configuration_contract.rs\<close>\<close>

definition ton_sol_event_configuration_contract_get_details :: abi_function where
  "ton_sol_event_configuration_contract_get_details = \<lparr>fn_name = ''getDetails'', responsible = True,
     fn_headers = [TimeHeader, ExpireHeader],
     fn_inputs = [],
     fn_outputs = [KnownParams ''TonSolEventConfigurationDetails'']\<rparr>"

definition ton_sol_event_configuration_contract_set_end_timestamp :: abi_function where
  "ton_sol_event_configuration_contract_set_end_timestamp = \<lparr>fn_name = ''setEndTimestamp'', responsible = False,
     fn_headers = [],
     fn_inputs = [Param ''end_timestamp'' (UintType 32)],
     fn_outputs = []\<rparr>"

subsection \<open>\<open>ton_sol_event_contract.rs\<close>\<close>

definition ton_sol_event_contract_get_event_init_data :: abi_function where
  "ton_sol_event_contract_get_event_init_data = \<lparr>fn_name = ''getEventInitData'', responsible = True,
     fn_headers = [TimeHeader, ExpireHeader, PubkeyHeader],
     fn_inputs = [],
     fn_outputs = [Param ''details'' (KnownType ''TonSolEventInitData'')]\<rparr>"

definition ton_sol_event_contract_confirm :: abi_function where
  "ton_sol_event_contract_confirm = \<lparr>fn_name = ''confirm'', responsible = False,
     fn_headers = [TimeHeader, ExpireHeader, PubkeyHeader],
     fn_inputs = [Param ''voteReceiver'' AddressType],
     fn_outputs = []\<rparr>"

definition ton_sol_event_contract_reject :: abi_function where
  "ton_sol_event_contract_reject = \<lparr>fn_name = ''reject'', responsible = False,
     fn_headers = [TimeHeader, ExpireHeader, PubkeyHeader],
     fn_inputs = [Param ''voteReceiver'' AddressType],
     fn_outputs = []\<rparr>"

subsection \<open>\<open>user_data_contract.rs\<close>\<close>

definition user_data_contract_confirm_ton_account :: abi_function where
  "user_data_contract_confirm_ton_account = \<lparr>fn_name = ''confirmTonAccount'', responsible = False,
     fn_headers = [TimeHeader, ExpireHeader, PubkeyHeader],
     fn_inputs = [],
     fn_outputs = []\<rparr>"

definition user_data_contract_get_details :: abi_function where
  "user_data_contract_get_details = \<lparr>fn_name = ''getDetails'', responsible = True,
     fn_headers = [TimeHeader, ExpireHeader, PubkeyHeader],
     fn_inputs = [],
     fn_outputs = [Param ''details'' (KnownType ''UserDataDetails'')]\<rparr>"

definition user_data_contract_become_relay_next_round :: abi_function where
  "user_data_contract_become_relay_next_round = \<lparr>fn_name = ''becomeRelayNextRound'', responsible = False,
     fn_headers = [TimeHeader, ExpireHeader, PubkeyHeader],
     fn_inputs = [],
     fn_outputs = []\<rparr>"

definition user_data_contract_get_reward_for_relay_round :: abi_function where
  "user_data_contract_get_reward_for_relay_round = \<lparr>fn_name = ''getRewardForRelayRound'', responsible = False,
     fn_headers = [TimeHeader, ExpireHeader, PubkeyHeader],
     fn_inputs = [Param ''round_num'' (UintType 32)],
     fn_outputs = []\<rparr>"

definition user_data_contract_relay_keys_updated :: abi_event where
  "user_data_contract_relay_keys_updated = \<lparr>event_name = ''RelayKeysUpdated'', event_inputs = [KnownParams ''RelayKeysUpdatedEvent'']\<rparr>"

definition user_data_contract_ton_pubkey_confirmed :: abi_event where
  "user_data_contract_ton_pubkey_confirmed = \<lparr>event_name = ''TonPubkeyConfirmed'', event_inputs = [KnownParams ''TonPubkeyConfirmedEvent'']\<rparr>"

definition user_data_contract_eth_address_confirmed :: abi_event where
  "user_data_contract_eth_address_confirmed = \<lparr>event_name = ''EthAddressConfirmed'', event_inputs = [KnownParams ''EthAddressConfirmedEvent'']\<rparr>"

definition user_data_contract_relay_membership_requested :: abi_event where
  "user_data_contract_relay_membership_requested = \<lparr>event_name = ''RelayMembershipRequested'', event_inputs = [KnownParams ''RelayMembershipRequestedEvent'']\<rparr>"

definition user_data_contract_deposit_processed :: abi_event where
  "user_data_contract_deposit_processed = \<lparr>event_name = ''DepositProcessed'', event_inputs = [KnownParams ''DepositProcessedEvent'']\<rparr>"

end
