(* ===== verification/Contracts.thy ===== *)
theory Contracts
  imports Abi
begin

section \<open>Contract data and getters\<close>

text \<open>
  The data of \<open>src/engine/ton_contracts/models.rs\<close> and the getters of
  \<open>src/engine/ton_contracts/mod.rs\<close>. Running a getter in the local VM and unpacking its
  output tokens is done by third-party code (\<open>nekoton_abi\<close>, \<open>ton_abi\<close>): the record
  \<open>abi_env\<close> holds these operations, and each getter is the code's composition of them: which
  function is called, with which inputs, and how the output is unpacked.
\<close>

subsection \<open>Enumerations\<close>

datatype event_status = Initializing | Pending | Confirmed | Rejected

datatype event_vote = ReservedVote | EmptyVote | ConfirmVote | RejectVote

datatype event_type = EthTon | TonEth | SolTon | TonSol

text \<open>The numeric values of the statuses order them: voting moves a status up, never down.\<close>

primrec event_status_value :: "event_status \<Rightarrow> nat" where
  "event_status_value Initializing = 0"
| "event_status_value Pending = 1"
| "event_status_value Confirmed = 2"
| "event_status_value Rejected = 3"

lemma event_status_value_inject [simp]: "event_status_value a = event_status_value b \<longleftrightarrow> a = b"
  by (cases a; cases b) simp_all

instantiation event_status :: linorder
begin

definition less_eq_event_status :: "event_status \<Rightarrow> event_status \<Rightarrow> bool" where
  "less_eq_event_status a b \<longleftrightarrow> event_status_value a \<le> event_status_value b"

definition less_event_status :: "event_status \<Rightarrow> event_status \<Rightarrow> bool" where
  "less_event_status a b \<longleftrightarrow> event_status_value a < event_status_value b"

instance
  by standard (auto simp: less_eq_event_status_def less_event_status_def)

end

subsection \<open>Models\<close>

record eth_ton_event_vote_data =
  event_transaction :: uint256
  event_index :: u32
  et_event_data :: cell
  event_block_number :: u32
  event_block :: uint256

record eth_ton_event_init_data =
  et_vote_data :: eth_ton_event_vote_data
  et_configuration :: uint256
  et_staking :: uint256
  et_chain_id :: u32

record eth_ton_event_decoded_data =
  token :: msg_address
  amount :: u128
  recipient :: msg_address
  event_value :: uint256
  expected_evers :: uint256
  et_payload :: cell
  proxy :: msg_address
  token_wallet :: msg_address

record ton_eth_event_vote_data =
  te_event_transaction_lt :: u64
  te_event_timestamp :: u32
  te_event_data :: cell

record ton_eth_event_init_data =
  te_vote_data :: ton_eth_event_vote_data
  te_configuration :: uint256
  te_staking :: uint256

record ton_eth_event_decoded_data_callback =
  cb_recipient :: eth_address
  cb_payload :: bytes
  strict :: bool

record ton_eth_event_decoded_data =
  te_proxy :: msg_address
  te_token_wallet :: msg_address
  te_token :: msg_address
  te_remaining_gas_to :: msg_address
  te_amount :: u128
  te_recipient :: eth_address
  te_chain_id :: uint256
  te_callback :: ton_eth_event_decoded_data_callback
  te_name :: string
  te_symbol :: string
  te_decimals :: u8

record sol_ton_event_vote_data =
  account_seed :: u128
  slot :: u64
  block_time :: u64
  st_signature :: string
  st_event_data :: cell

record sol_ton_event_init_data =
  st_vote_data :: sol_ton_event_vote_data
  st_configuration :: uint256
  st_staking :: uint256

record execute_account =
  ea_account :: uint256
  read_only :: bool
  is_signer :: bool

record ton_sol_event_vote_data =
  ts_event_transaction_lt :: u64
  ts_event_timestamp :: u32
  execute_accounts :: "execute_account list"
  execute_payload_needed :: bool
  execute_payload_accounts :: "execute_account list"
  ts_event_data :: cell

record ton_sol_event_init_data =
  ts_vote_data :: ton_sol_event_vote_data
  ts_configuration :: uint256
  ts_staking :: uint256

record basic_configuration =
  event_abi :: string
  bc_staking :: uint256
  event_initial_balance :: u64
  event_code :: cell

record eth_ton_event_configuration =
  etc_chain_id :: u32
  etc_event_emitter :: eth_address
  event_blocks_to_confirm :: u16
  etc_proxy :: uint256
  start_block_number :: u32
  end_block_number :: u32

record ton_eth_event_configuration =
  tec_event_emitter :: uint256
  tec_proxy :: eth_address
  tec_start_timestamp :: u32
  tec_end_timestamp :: u32

record sol_ton_event_configuration =
  stc_program :: uint256
  stc_proxy :: uint256
  stc_start_timestamp :: u64
  stc_end_timestamp :: u64

record ton_sol_event_configuration =
  tsc_program :: uint256
  tsc_event_emitter :: uint256
  tsc_instruction :: u8
  tsc_start_timestamp :: u32
  tsc_end_timestamp :: u32
  execute_needed :: bool
  execute_instruction :: u8
  execute_payload_instruction :: u8

text \<open>The four configuration details differ only in the network configuration.\<close>

record 'n event_configuration_details =
  basic_configuration :: basic_configuration
  network_configuration :: 'n
  meta :: cell

record bridge_details =
  connector_code :: cell
  connector_deploy_value :: u64
  details_connector_counter :: u64
  bd_staking :: uint256
  bridge_active :: bool

record connector_details =
  connector_id :: u64
  event_configuration :: uint256
  enabled :: bool

record connector_deployed_event =
  deployed_id :: u64
  connector :: uint256
  cde_event_configuration :: uint256

text \<open>
  A parsed event ABI (\<open>eth_ton_abi_converter::EthEventAbi\<close>, third-party) as its two operations, and the
  result of verifying an event.
\<close>

record eth_event_abi =
  get_eth_topic_hash :: uint256
  decode_and_map :: "bytes \<Rightarrow> cell res"

datatype verification_status = Exists | NotExists string

subsection \<open>Tokens and the library's operations\<close>

datatype stack_item = StackCell cell | StackSlice bytes | StackOther

record getter_output =
  is_ok :: bool
  exit_code :: i32
  stack :: "stack_item list"

record abi_env =
  vm_run_local :: "existing_contract \<Rightarrow> abi_function \<Rightarrow> tokens \<Rightarrow> tokens execution_output res"
  vm_run_local_responsible :: "existing_contract \<Rightarrow> abi_function \<Rightarrow> tokens \<Rightarrow> tokens execution_output res"
  vm_run_getter :: "existing_contract \<Rightarrow> string \<Rightarrow> stack_item list \<Rightarrow> getter_output res"
  answer_id :: token
  unpack_status :: "tokens \<Rightarrow> event_status res"
  unpack_event_type :: "tokens \<Rightarrow> event_type res"
  unpack_u32 :: "tokens \<Rightarrow> u32 res"
  unpack_u64 :: "tokens \<Rightarrow> u64 res"
  unpack_bool :: "tokens \<Rightarrow> bool res"
  unpack_relay_keys :: "tokens \<Rightarrow> uint256 list res"
  unpack_address :: "tokens \<Rightarrow> msg_address res"
  unpack_et_init :: "tokens \<Rightarrow> eth_ton_event_init_data res"
  unpack_et_decoded :: "tokens \<Rightarrow> eth_ton_event_decoded_data res"
  unpack_te_init :: "tokens \<Rightarrow> ton_eth_event_init_data res"
  unpack_te_decoded :: "tokens \<Rightarrow> ton_eth_event_decoded_data res"
  unpack_st_init :: "tokens \<Rightarrow> sol_ton_event_init_data res"
  unpack_ts_init :: "tokens \<Rightarrow> ton_sol_event_init_data res"
  unpack_et_details :: "tokens \<Rightarrow> eth_ton_event_configuration event_configuration_details res"
  unpack_te_details :: "tokens \<Rightarrow> ton_eth_event_configuration event_configuration_details res"
  unpack_st_details :: "tokens \<Rightarrow> sol_ton_event_configuration event_configuration_details res"
  unpack_ts_details :: "tokens \<Rightarrow> ton_sol_event_configuration event_configuration_details res"
  unpack_bridge_details :: "tokens \<Rightarrow> bridge_details res"
  unpack_connector_details :: "tokens \<Rightarrow> connector_details res"
  slice_of_address :: "msg_address \<Rightarrow> stack_item res"
  address_from_cell :: "cell \<Rightarrow> msg_address res"
  address_from_slice :: "bytes \<Rightarrow> msg_address res"

definition call_local :: "abi_env \<Rightarrow> existing_contract \<Rightarrow> abi_function \<Rightarrow> tokens \<Rightarrow> tokens res" where
  "call_local abi c f inputs = run_local (vm_run_local abi c f inputs)"

definition call_responsible :: "abi_env \<Rightarrow> existing_contract \<Rightarrow> abi_function \<Rightarrow> tokens \<Rightarrow> tokens res" where
  "call_responsible abi c f inputs = run_local (vm_run_local_responsible abi c f inputs)"

subsection \<open>Event contracts\<close>

primrec event_vote_value :: "event_vote \<Rightarrow> nat" where
  "event_vote_value ReservedVote = 0"
| "event_vote_value EmptyVote = 1"
| "event_vote_value ConfirmVote = 2"
| "event_vote_value RejectVote = 3"

definition status :: "abi_env \<Rightarrow> existing_contract \<Rightarrow> event_status res" where
  "status abi c = rbind (call_local abi c base_event_contract_status []) (unpack_status abi)"

definition round_number :: "abi_env \<Rightarrow> existing_contract \<Rightarrow> u32 res" where
  "round_number abi c = rbind (call_local abi c base_event_contract_round_number []) (unpack_u32 abi)"

definition created_at :: "abi_env \<Rightarrow> existing_contract \<Rightarrow> u32 res" where
  "created_at abi c = rbind (call_local abi c base_event_contract_created_at []) (unpack_u32 abi)"

definition get_voters :: "abi_env \<Rightarrow> existing_contract \<Rightarrow> event_vote \<Rightarrow> uint256 list res" where
  "get_voters abi c vote =
     rbind (call_local abi c base_event_contract_get_voters [answer_id abi, (''vote'', TokenUint (event_vote_value vote) 8)])
       (unpack_relay_keys abi)"

definition get_api_version :: "abi_env \<Rightarrow> existing_contract \<Rightarrow> u32 res" where
  "get_api_version abi c = rbind (call_local abi c base_event_contract_get_api_version [answer_id abi]) (unpack_u32 abi)"

definition eth_ton_event_init_data_of :: "abi_env \<Rightarrow> existing_contract \<Rightarrow> eth_ton_event_init_data res" where
  "eth_ton_event_init_data_of abi c =
     rbind (call_responsible abi c eth_ton_event_contract_get_event_init_data [answer_id abi]) (unpack_et_init abi)"

definition eth_ton_event_decoded_data_of :: "abi_env \<Rightarrow> existing_contract \<Rightarrow> eth_ton_event_decoded_data res" where
  "eth_ton_event_decoded_data_of abi c =
     rbind (call_responsible abi c eth_ton_event_contract_get_decoded_data [answer_id abi]) (unpack_et_decoded abi)"

definition ton_eth_event_init_data_of :: "abi_env \<Rightarrow> existing_contract \<Rightarrow> ton_eth_event_init_data res" where
  "ton_eth_event_init_data_of abi c =
     rbind (call_responsible abi c ton_eth_event_contract_get_event_init_data [answer_id abi]) (unpack_te_init abi)"

definition ton_eth_event_decoded_data_of :: "abi_env \<Rightarrow> existing_contract \<Rightarrow> ton_eth_event_decoded_data res" where
  "ton_eth_event_decoded_data_of abi c =
     rbind (call_responsible abi c ton_eth_event_contract_get_decoded_data [answer_id abi]) (unpack_te_decoded abi)"

definition sol_ton_event_init_data_of :: "abi_env \<Rightarrow> existing_contract \<Rightarrow> sol_ton_event_init_data res" where
  "sol_ton_event_init_data_of abi c =
     rbind (call_responsible abi c sol_ton_event_contract_get_event_init_data [answer_id abi]) (unpack_st_init abi)"

definition ton_sol_event_init_data_of :: "abi_env \<Rightarrow> existing_contract \<Rightarrow> ton_sol_event_init_data res" where
  "ton_sol_event_init_data_of abi c =
     rbind (call_responsible abi c ton_sol_event_contract_get_event_init_data [answer_id abi]) (unpack_ts_init abi)"

subsection \<open>Configurations, connectors and the bridge\<close>

definition get_type :: "abi_env \<Rightarrow> existing_contract \<Rightarrow> event_type res" where
  "get_type abi c =
     rbind (call_responsible abi c base_event_configuration_contract_get_type [answer_id abi]) (unpack_event_type abi)"

text \<open>A configuration without the function exits with code 60: it has no flags.\<close>

definition get_flags :: "abi_env \<Rightarrow> existing_contract \<Rightarrow> u64 option res" where
  "get_flags abi c =
     rbind (vm_run_local_responsible abi c base_event_configuration_contract_get_flags [answer_id abi]) (\<lambda>out.
       if result_code out = 60 then Inr None
       else (case tokens out of
               Some ts \<Rightarrow> rbind (unpack_u64 abi ts) (\<lambda>x. Inr (Some x))
             | None \<Rightarrow> Inl (NonZeroResultCode (result_code out))))"

definition eth_ton_configuration_details ::
  "abi_env \<Rightarrow> existing_contract \<Rightarrow> eth_ton_event_configuration event_configuration_details res" where
  "eth_ton_configuration_details abi c =
     rbind (call_responsible abi c eth_ton_event_configuration_contract_get_details [answer_id abi]) (unpack_et_details abi)"

definition ton_eth_configuration_details ::
  "abi_env \<Rightarrow> existing_contract \<Rightarrow> ton_eth_event_configuration event_configuration_details res" where
  "ton_eth_configuration_details abi c =
     rbind (call_responsible abi c ton_eth_event_configuration_contract_get_details [answer_id abi]) (unpack_te_details abi)"

definition sol_ton_configuration_details ::
  "abi_env \<Rightarrow> existing_contract \<Rightarrow> sol_ton_event_configuration event_configuration_details res" where
  "sol_ton_configuration_details abi c =
     rbind (call_responsible abi c sol_ton_event_configuration_contract_get_details [answer_id abi]) (unpack_st_details abi)"

definition ton_sol_configuration_details ::
  "abi_env \<Rightarrow> existing_contract \<Rightarrow> ton_sol_event_configuration event_configuration_details res" where
  "ton_sol_configuration_details abi c =
     rbind (call_responsible abi c ton_sol_event_configuration_contract_get_details [answer_id abi]) (unpack_ts_details abi)"

definition connector_counter :: "abi_env \<Rightarrow> existing_contract \<Rightarrow> u64 res" where
  "connector_counter abi c = rbind (call_local abi c bridge_contract_connector_counter []) (unpack_u64 abi)"

definition bridge_get_details :: "abi_env \<Rightarrow> existing_contract \<Rightarrow> bridge_details res" where
  "bridge_get_details abi c =
     rbind (call_local abi c bridge_contract_get_details [answer_id abi]) (unpack_bridge_details abi)"

definition derive_connector_address :: "abi_env \<Rightarrow> existing_contract \<Rightarrow> u64 \<Rightarrow> uint256 res" where
  "derive_connector_address abi c num =
     rbind (rbind (call_local abi c bridge_contract_derive_connector_address [(''id'', TokenUint (unat num) 64)])
       (unpack_address abi)) (\<lambda>a. Inr (addr_hash a))"

definition connector_get_details :: "abi_env \<Rightarrow> existing_contract \<Rightarrow> connector_details res" where
  "connector_get_details abi c =
     rbind (call_local abi c connector_contract_get_details []) (unpack_connector_details abi)"

subsection \<open>Token contracts\<close>

definition wallet_of :: "abi_env \<Rightarrow> existing_contract \<Rightarrow> msg_address \<Rightarrow> msg_address res" where
  "wallet_of abi c a =
     rbind (call_responsible abi c token_root_contract_wallet_of [answer_id abi, (''walletOwner'', TokenAddrStd a)])
       (unpack_address abi)"

definition token_wallet_root :: "abi_env \<Rightarrow> existing_contract \<Rightarrow> msg_address res" where
  "token_wallet_root abi c =
     rbind (call_responsible abi c token_wallet_contract_root [answer_id abi]) (unpack_address abi)"

text \<open>Indexing the stack out of its range panics.\<close>

definition read_address :: "abi_env \<Rightarrow> stack_item list \<Rightarrow> nat \<Rightarrow> msg_address res" where
  "read_address abi stack_items pos =
     (if pos < length stack_items
      then (case stack_items ! pos of
              StackCell cell \<Rightarrow> address_from_cell abi cell
            | StackSlice bits \<Rightarrow> address_from_slice abi bits
            | StackOther \<Rightarrow> Inl (UnexpectedStackItemType (of_nat pos)))
      else Inl (Panic ''index out of bounds''))"

text \<open>
  The stack length check of the jetton getters: \<open>!data.stack.len() == EXPECTED_STACK_LEN\<close>,
  where \<open>!\<close> on \<open>usize\<close> is the bitwise complement.
\<close>

definition stack_len_check :: "usize \<Rightarrow> stack_item list \<Rightarrow> unit res" where
  "stack_len_check expected stack_items =
     (if NOT (of_nat (length stack_items)) = expected
      then Inl (ItemsStackLenMismatch expected (of_nat (length stack_items)))
      else Inr ())"

definition jetton_minter_get_wallet_address :: "abi_env \<Rightarrow> existing_contract \<Rightarrow> msg_address \<Rightarrow> msg_address res" where
  "jetton_minter_get_wallet_address abi c owner_address =
     rbind (slice_of_address abi owner_address) (\<lambda>owner_address.
     rbind (vm_run_getter abi c ''get_wallet_address'' [owner_address]) (\<lambda>data.
       if \<not> is_ok data \<or> exit_code data \<noteq> 0 then Inl (NonZeroResultCode (exit_code data))
       else rbind (stack_len_check 1 (stack data)) (\<lambda>_. read_address abi (stack data) 0)))"

definition jetton_wallet_root :: "abi_env \<Rightarrow> existing_contract \<Rightarrow> msg_address res" where
  "jetton_wallet_root abi c =
     rbind (vm_run_getter abi c ''get_wallet_data'' []) (\<lambda>data.
       if \<not> is_ok data \<or> exit_code data \<noteq> 0 then Inl (NonZeroResultCode (exit_code data))
       else rbind (stack_len_check 4 (stack data)) (\<lambda>_. read_address abi (stack data) 2))"

subsection \<open>Array unpackers\<close>

fun unpack_nonzero_addresses :: "token_value list \<Rightarrow> uint256 list res" where
  "unpack_nonzero_addresses [] = Inr []"
| "unpack_nonzero_addresses (TokenAddrStd a # values) =
     rbind (unpack_nonzero_addresses values) (\<lambda>r. Inr (addr_hash a # r))"
| "unpack_nonzero_addresses (TokenAddrNone # values) = unpack_nonzero_addresses values"
| "unpack_nonzero_addresses (_ # values) = Inl (Foreign ''InvalidAbi'')"

definition array_address_only_nonzero_hash :: "token_value \<Rightarrow> uint256 list res" where
  "array_address_only_nonzero_hash value =
     (case value of TokenArray values \<Rightarrow> unpack_nonzero_addresses values
      | _ \<Rightarrow> Inl (Foreign ''InvalidAbi''))"

fun unpack_u128_array :: "token_value list \<Rightarrow> u128 list res" where
  "unpack_u128_array [] = Inr []"
| "unpack_u128_array (v # values) =
     rbind (case v of
              TokenUint number width \<Rightarrow>
                if width = 128 \<and> number < 2 ^ 128 then Inr (of_nat number) else Inl (Foreign ''InvalidAbi'')
            | _ \<Rightarrow> Inl (Foreign ''InvalidAbi''))
       (\<lambda>x. rbind (unpack_u128_array values) (\<lambda>r. Inr (x # r)))"

definition array_uint128_number :: "token_value \<Rightarrow> u128 list res" where
  "array_uint128_number value =
     (case value of TokenArray values \<Rightarrow> unpack_u128_array values
      | _ \<Rightarrow> Inl (Foreign ''InvalidAbi''))"

subsection \<open>What a bridge event calls for\<close>

definition MIN_EVENT_BALANCE :: u128 where
  "MIN_EVENT_BALANCE = 100000000"

definition SUPPORTED_API_VERSION :: u32 where
  "SUPPORTED_API_VERSION = 2"

datatype event_action = Nop | Remove | Vote

definition can_vote :: "abi_env \<Rightarrow> existing_contract \<Rightarrow> uint256 \<Rightarrow> bool res" where
  "can_vote abi c public_key =
     rbind (get_voters abi c EmptyVote) (\<lambda>voters. Inr
       (public_key \<in> set voters
        \<and> (case get_api_version abi c of Inr v \<Rightarrow> v | Inl _ \<Rightarrow> 0) = SUPPORTED_API_VERSION))"

definition event_base_process :: "abi_env \<Rightarrow> existing_contract \<Rightarrow> uint256 \<Rightarrow> bool \<Rightarrow> event_action res" where
  "event_base_process abi c public_key require_all_signatures =
     rbind (status abi c) (\<lambda>st.
       case st of
         Initializing \<Rightarrow> Inr Nop
       | Pending \<Rightarrow>
           rbind (can_vote abi c public_key) (\<lambda>b. Inr (if b then Vote else Remove))
       | Confirmed \<Rightarrow>
           if require_all_signatures \<and> MIN_EVENT_BALANCE \<le> balance (account c)
           then rbind (can_vote abi c public_key) (\<lambda>b. Inr (if b then Vote else Remove))
           else Inr Remove
       | Rejected \<Rightarrow> Inr Remove)"

lemma can_vote_iff:
  "can_vote abi c k = Inr True \<longleftrightarrow>
     (\<exists>voters. get_voters abi c EmptyVote = Inr voters \<and> k \<in> set voters)
     \<and> get_api_version abi c = Inr SUPPORTED_API_VERSION"
  by (cases "get_api_version abi c")
    (auto simp: can_vote_def rbind_eq_Inr_iff SUPPORTED_API_VERSION_def)

lemma can_vote_error: "can_vote abi c k = Inl e \<longleftrightarrow> get_voters abi c EmptyVote = Inl e"
  by (cases "get_voters abi c EmptyVote") (auto simp: can_vote_def)

lemmas event_base_process_cases = event_base_process_def rbind_eq_Inr_iff can_vote_iff

subsection \<open>Properties\<close>

text \<open>When an event contract is to be voted on, dropped, or waited for, and when that cannot be told.\<close>

lemma event_base_process_Vote:
  "event_base_process abi c k all_signatures = Inr Vote \<longleftrightarrow>
     (\<exists>st voters. status abi c = Inr st \<and> get_voters abi c EmptyVote = Inr voters \<and> k \<in> set voters
        \<and> get_api_version abi c = Inr 2
        \<and> (st = Pending \<or> st = Confirmed \<and> all_signatures \<and> 100000000 \<le> balance (account c)))"
proof (cases "status abi c")
  case (Inr st)
  then show ?thesis
    using can_vote_iff [of abi c k]
    by (cases st; cases "can_vote abi c k") (auto simp: event_base_process_def MIN_EVENT_BALANCE_def SUPPORTED_API_VERSION_def)
qed (simp add: event_base_process_def)

lemma event_base_process_Nop:
  "event_base_process abi c k all_signatures = Inr Nop \<longleftrightarrow> status abi c = Inr Initializing"
proof (cases "status abi c")
  case (Inr st)
  then show ?thesis by (cases st) (auto simp: event_base_process_def rbind_eq_Inr_iff split: if_splits)
qed (simp add: event_base_process_def)

lemma event_base_process_Inl:
  "event_base_process abi c k all_signatures = Inl e \<longleftrightarrow>
     status abi c = Inl e
     \<or> (status abi c = Inr Pending \<or> status abi c = Inr Confirmed \<and> all_signatures \<and> 100000000 \<le> balance (account c))
       \<and> get_voters abi c EmptyVote = Inl e"
proof (cases "status abi c")
  case (Inr st)
  then show ?thesis
    using can_vote_error [of abi c k e]
    by (cases st; cases "can_vote abi c k") (auto simp: event_base_process_def MIN_EVENT_BALANCE_def)
qed (simp add: event_base_process_def)

lemma event_base_process_Remove:
  "event_base_process abi c k all_signatures = Inr Remove \<longleftrightarrow>
     status abi c = Inr Rejected
     \<or> status abi c = Inr Confirmed \<and> \<not> (all_signatures \<and> 100000000 \<le> balance (account c))
     \<or> status abi c \<in> {Inr Pending, Inr Confirmed}
       \<and> (\<exists>voters. get_voters abi c EmptyVote = Inr voters \<and> (k \<notin> set voters \<or> get_api_version abi c \<noteq> Inr 2))"
proof (cases "status abi c")
  case (Inr st)
  have "can_vote abi c k = Inr False \<longleftrightarrow> (\<exists>voters. get_voters abi c EmptyVote = Inr voters
      \<and> (k \<notin> set voters \<or> get_api_version abi c \<noteq> Inr 2))"
  proof (cases "get_voters abi c EmptyVote")
    case (Inl e)
    then show ?thesis using can_vote_error [of abi c k e] by simp
  next
    case (Inr voters)
    then have "can_vote abi c k \<noteq> Inl e" for e using can_vote_error [of abi c k e] by simp
    then show ?thesis
      using Inr can_vote_iff [of abi c k] by (cases "can_vote abi c k") (auto simp: SUPPORTED_API_VERSION_def)
  qed
  with Inr show ?thesis
    by (cases st) (auto simp: event_base_process_def MIN_EVENT_BALANCE_def rbind_eq_Inr_iff split: if_splits)
qed (simp add: event_base_process_def)

text \<open>
  C16: What the relay does with an event contract, completely. It votes exactly when it is one of the relays that
  have not voted yet, the contract has the supported API version, and the event is pending, or is
  confirmed while all signatures are wanted and its balance is at least 0.1 TON. It waits exactly
  while the contract is initializing. It drops the event exactly when the event is rejected, is confirmed with
  no more signatures wanted or too small a balance, or is pending or confirmed and the relay is no voter or the version
  is another one. It reports an error exactly when the status, or the voters where they are asked for, cannot be read.
\<close>

theorem event_process_decision:
  "(event_base_process abi c k all_signatures = Inr Vote \<longleftrightarrow>
      (\<exists>st voters. status abi c = Inr st \<and> get_voters abi c EmptyVote = Inr voters \<and> k \<in> set voters
        \<and> get_api_version abi c = Inr 2
        \<and> (st = Pending \<or> st = Confirmed \<and> all_signatures \<and> 100000000 \<le> balance (account c))))
   \<and> (event_base_process abi c k all_signatures = Inr Nop \<longleftrightarrow> status abi c = Inr Initializing)
   \<and> (event_base_process abi c k all_signatures = Inr Remove \<longleftrightarrow>
      status abi c = Inr Rejected
      \<or> status abi c = Inr Confirmed \<and> \<not> (all_signatures \<and> 100000000 \<le> balance (account c))
      \<or> status abi c \<in> {Inr Pending, Inr Confirmed}
        \<and> (\<exists>voters. get_voters abi c EmptyVote = Inr voters \<and> (k \<notin> set voters \<or> get_api_version abi c \<noteq> Inr 2)))
   \<and> (\<forall>e. event_base_process abi c k all_signatures = Inl e \<longleftrightarrow>
      status abi c = Inl e
      \<or> (status abi c = Inr Pending \<or> status abi c = Inr Confirmed \<and> all_signatures \<and> 100000000 \<le> balance (account c))
        \<and> get_voters abi c EmptyVote = Inl e)"
  by (intro conjI allI event_base_process_Vote event_base_process_Nop event_base_process_Remove event_base_process_Inl)

lemma complement_len:
  assumes "length xs < 2 ^ 63" "expected < 2 ^ 63"
  shows "NOT (of_nat (length xs) :: usize) \<noteq> of_nat expected"
proof -
  have bits: "\<not> bit (of_nat n :: usize) 63" if "n < 2 ^ 63" for n :: nat
  proof -
    have "take_bit 63 n = n" using that by (simp add: take_bit_nat_eq_self)
    then have "\<not> bit n 63" by (metis bit_take_bit_iff less_irrefl)
    then show ?thesis by (simp add: bit_of_nat_iff)
  qed
  have "bit (NOT (of_nat (length xs) :: usize)) 63"
    using bits [OF assms(1)] by (simp add: bit_not_iff)
  then show ?thesis using bits [OF assms(2)] by metis
qed

text \<open>
  The stack length check of the jetton getters never fires: with any stack that fits in
  memory, \<open>get_wallet_address\<close> does not report a length mismatch, and an empty stack makes
  the task panic instead.
\<close>

theorem jetton_length_check_never_fires:
  assumes "vm_run_getter abi c ''get_wallet_address'' [s] = Inr out"
    and "slice_of_address abi owner = Inr s"
    and "is_ok out" and "exit_code out = 0" and "length (stack out) < 2 ^ 63"
  shows "jetton_minter_get_wallet_address abi c owner = read_address abi (stack out) 0
    \<and> (stack out = [] \<longrightarrow>
        jetton_minter_get_wallet_address abi c owner = Inl (Panic ''index out of bounds''))"
proof -
  have "stack_len_check 1 xs = Inr ()" if "length xs < 2 ^ 63" for xs
    using complement_len [OF that, of 1] by (simp add: stack_len_check_def)
  from this [OF assms(5)] this [of "[]"] assms show ?thesis
    by (simp add: jetton_minter_get_wallet_address_def read_address_def)
qed

text \<open>
  Unpacking the staker addresses keeps the standard addresses in order, drops the empty
  ones, and fails exactly on any other value.
\<close>

theorem nonzero_addresses_unpacked:
  "array_address_only_nonzero_hash (TokenArray vs) = Inr hashes \<longleftrightarrow>
     set vs \<subseteq> {TokenAddrNone} \<union> range TokenAddrStd
     \<and> hashes = concat (map (\<lambda>v. case v of TokenAddrStd a \<Rightarrow> [addr_hash a] | _ \<Rightarrow> []) vs)"
proof -
  have "unpack_nonzero_addresses vs = Inr hashes \<longleftrightarrow>
     set vs \<subseteq> {TokenAddrNone} \<union> range TokenAddrStd
     \<and> hashes = concat (map (\<lambda>v. case v of TokenAddrStd a \<Rightarrow> [addr_hash a] | _ \<Rightarrow> []) vs)"
    by (induction vs arbitrary: hashes rule: unpack_nonzero_addresses.induct)
      (auto simp: rbind_eq_Inr_iff)
  then show ?thesis by (simp add: array_address_only_nonzero_hash_def)
qed

subsection \<open>The calls are well typed\<close>

text \<open>\<open>checked_env\<close> is the library with every call its signature does not admit refused.\<close>

definition checked_env ::
  "(string \<Rightarrow> param_type) \<Rightarrow> (string \<Rightarrow> (string \<times> param_type) list) \<Rightarrow> abi_env \<Rightarrow> abi_env" where
  "checked_env known models abi = abi\<lparr>
     vm_run_local := (\<lambda>c f ts. if tokens_match known models f ts then vm_run_local abi c f ts
        else Inl (Foreign ''WrongParameterType'')),
     vm_run_local_responsible := (\<lambda>c f ts. if tokens_match known models f ts
        then vm_run_local_responsible abi c f ts else Inl (Foreign ''WrongParameterType''))\<rparr>"

named_theorems getter_functions \<open>the signatures the getters call\<close>

lemmas [getter_functions] =
  base_event_contract_status_def base_event_contract_round_number_def base_event_contract_created_at_def
  base_event_contract_get_voters_def base_event_contract_get_api_version_def
  eth_ton_event_contract_get_event_init_data_def eth_ton_event_contract_get_decoded_data_def
  ton_eth_event_contract_get_event_init_data_def ton_eth_event_contract_get_decoded_data_def
  sol_ton_event_contract_get_event_init_data_def ton_sol_event_contract_get_event_init_data_def
  base_event_configuration_contract_get_type_def base_event_configuration_contract_get_flags_def
  eth_ton_event_configuration_contract_get_details_def ton_eth_event_configuration_contract_get_details_def
  sol_ton_event_configuration_contract_get_details_def ton_sol_event_configuration_contract_get_details_def
  bridge_contract_connector_counter_def bridge_contract_get_details_def
  bridge_contract_derive_connector_address_def connector_contract_get_details_def
  token_root_contract_wallet_of_def token_wallet_contract_root_def

lemma checked_calls:
  assumes "tokens_match known models f ts"
  shows "call_local (checked_env known models abi) c f ts = call_local abi c f ts"
    and "call_responsible (checked_env known models abi) c f ts = call_responsible abi c f ts"
    and "vm_run_local_responsible (checked_env known models abi) c f ts = vm_run_local_responsible abi c f ts"
  using assms by (simp_all add: call_local_def call_responsible_def checked_env_def)

lemma checked_env_same [simp]:
  "answer_id (checked_env known models abi) = answer_id abi"
  "unpack_status (checked_env known models abi) = unpack_status abi"
  "unpack_event_type (checked_env known models abi) = unpack_event_type abi"
  "unpack_u32 (checked_env known models abi) = unpack_u32 abi"
  "unpack_u64 (checked_env known models abi) = unpack_u64 abi"
  "unpack_relay_keys (checked_env known models abi) = unpack_relay_keys abi"
  "unpack_address (checked_env known models abi) = unpack_address abi"
  "unpack_bridge_details (checked_env known models abi) = unpack_bridge_details abi"
  "unpack_connector_details (checked_env known models abi) = unpack_connector_details abi"
  "unpack_et_init (checked_env known models abi) = unpack_et_init abi"
  "unpack_et_decoded (checked_env known models abi) = unpack_et_decoded abi"
  "unpack_te_init (checked_env known models abi) = unpack_te_init abi"
  "unpack_te_decoded (checked_env known models abi) = unpack_te_decoded abi"
  "unpack_st_init (checked_env known models abi) = unpack_st_init abi"
  "unpack_ts_init (checked_env known models abi) = unpack_ts_init abi"
  "unpack_et_details (checked_env known models abi) = unpack_et_details abi"
  "unpack_te_details (checked_env known models abi) = unpack_te_details abi"
  "unpack_st_details (checked_env known models abi) = unpack_st_details abi"
  "unpack_ts_details (checked_env known models abi) = unpack_ts_details abi"
  "unpack_bool (checked_env known models abi) = unpack_bool abi"
  by (simp_all add: checked_env_def)

text \<open>The getters of this theory call their functions as declared; those of staking follow with their models.\<close>

lemma contract_getters_checked:
  assumes "answer_id abi = (''answerId'', TokenUint n 32)" and "n < 2 ^ 32"
    and "known ''EventVote'' = UintType 8"
  shows "status (checked_env known models abi) = status abi
    \<and> round_number (checked_env known models abi) = round_number abi
    \<and> created_at (checked_env known models abi) = created_at abi
    \<and> get_voters (checked_env known models abi) = get_voters abi
    \<and> get_api_version (checked_env known models abi) = get_api_version abi
    \<and> eth_ton_event_init_data_of (checked_env known models abi) = eth_ton_event_init_data_of abi
    \<and> eth_ton_event_decoded_data_of (checked_env known models abi) = eth_ton_event_decoded_data_of abi
    \<and> ton_eth_event_init_data_of (checked_env known models abi) = ton_eth_event_init_data_of abi
    \<and> ton_eth_event_decoded_data_of (checked_env known models abi) = ton_eth_event_decoded_data_of abi
    \<and> sol_ton_event_init_data_of (checked_env known models abi) = sol_ton_event_init_data_of abi
    \<and> ton_sol_event_init_data_of (checked_env known models abi) = ton_sol_event_init_data_of abi
    \<and> get_type (checked_env known models abi) = get_type abi
    \<and> get_flags (checked_env known models abi) = get_flags abi
    \<and> eth_ton_configuration_details (checked_env known models abi) = eth_ton_configuration_details abi
    \<and> ton_eth_configuration_details (checked_env known models abi) = ton_eth_configuration_details abi
    \<and> sol_ton_configuration_details (checked_env known models abi) = sol_ton_configuration_details abi
    \<and> ton_sol_configuration_details (checked_env known models abi) = ton_sol_configuration_details abi
    \<and> connector_counter (checked_env known models abi) = connector_counter abi
    \<and> bridge_get_details (checked_env known models abi) = bridge_get_details abi
    \<and> derive_connector_address (checked_env known models abi) = derive_connector_address abi
    \<and> connector_get_details (checked_env known models abi) = connector_get_details abi
    \<and> wallet_of (checked_env known models abi) = wallet_of abi
    \<and> token_wallet_root (checked_env known models abi) = token_wallet_root abi"
proof -
  have small: "unat (num :: u64) < 2 ^ 64" for num
    using unsigned_less [of num] by simp
  have vote: "event_vote_value vote < 2 ^ 8" for vote
    by (cases vote) simp_all
  note defs = status_def round_number_def created_at_def get_voters_def get_api_version_def
    eth_ton_event_init_data_of_def eth_ton_event_decoded_data_of_def ton_eth_event_init_data_of_def
    ton_eth_event_decoded_data_of_def sol_ton_event_init_data_of_def ton_sol_event_init_data_of_def
    get_type_def get_flags_def eth_ton_configuration_details_def ton_eth_configuration_details_def
    sol_ton_configuration_details_def ton_sol_configuration_details_def connector_counter_def
    bridge_get_details_def derive_connector_address_def connector_get_details_def wallet_of_def token_wallet_root_def
  show ?thesis
    unfolding fun_eq_iff defs using assms small vote
    by (intro conjI allI)
      (simp_all add: checked_calls tokens_match_def function_params_def getter_functions cong: if_cong option.case_cong)
qed

subsection \<open>A concrete library environment\<close>

text \<open>Constant answers, for the witnesses.\<close>

definition demo_details :: "'n \<Rightarrow> cell \<Rightarrow> 'n event_configuration_details" where
  "demo_details n code = \<lparr>basic_configuration = \<lparr>event_abi = '''', bc_staking = [],
      event_initial_balance = 0, event_code = code\<rparr>, network_configuration = n, meta = []\<rparr>"

definition demo_address :: msg_address where
  "demo_address = \<lparr>addr_workchain = 0, addr_hash = [1]\<rparr>"

definition demo_abi :: abi_env where
  "demo_abi = \<lparr>
     vm_run_local = (\<lambda>_ _ _. Inr \<lparr>tokens = Some [], result_code = 0\<rparr>),
     vm_run_local_responsible = (\<lambda>_ _ _. Inr \<lparr>tokens = Some [], result_code = 0\<rparr>),
     vm_run_getter = (\<lambda>_ _ _. Inr \<lparr>is_ok = True, exit_code = 0, stack = []\<rparr>),
     answer_id = (''answerId'', TokenUint 0 32),
     unpack_status = (\<lambda>_. Inr Pending),
     unpack_event_type = (\<lambda>_. Inr EthTon),
     unpack_u32 = (\<lambda>_. Inr 2),
     unpack_u64 = (\<lambda>_. Inr 1),
     unpack_bool = (\<lambda>_. Inr True),
     unpack_relay_keys = (\<lambda>_. Inr [[7]]),
     unpack_address = (\<lambda>_. Inr demo_address),
     unpack_et_init = (\<lambda>_. Inr \<lparr>et_vote_data = \<lparr>event_transaction = [2], event_index = 0,
        et_event_data = [], event_block_number = 10, event_block = [3]\<rparr>,
        et_configuration = [4], et_staking = [], et_chain_id = 1\<rparr>),
     unpack_et_decoded = (\<lambda>_. Inr \<lparr>token = demo_address, amount = 1, recipient = demo_address,
        event_value = [], expected_evers = [], et_payload = [], proxy = demo_address, token_wallet = demo_address\<rparr>),
     unpack_te_init = (\<lambda>_. Inr \<lparr>te_vote_data = \<lparr>te_event_transaction_lt = 1, te_event_timestamp = 1,
        te_event_data = []\<rparr>, te_configuration = [4], te_staking = []\<rparr>),
     unpack_te_decoded = (\<lambda>_. Inr \<lparr>te_proxy = demo_address, te_token_wallet = demo_address, te_token = demo_address,
        te_remaining_gas_to = demo_address, te_amount = 1, te_recipient = [], te_chain_id = [],
        te_callback = \<lparr>cb_recipient = [], cb_payload = [], strict = False\<rparr>, te_name = ''T'', te_symbol = ''T'', te_decimals = 9\<rparr>),
     unpack_st_init = (\<lambda>_. Inr \<lparr>st_vote_data = \<lparr>account_seed = 1, slot = 1, block_time = 1,
        st_signature = ''s'', st_event_data = []\<rparr>, st_configuration = [4], st_staking = []\<rparr>),
     unpack_ts_init = (\<lambda>_. Inr \<lparr>ts_vote_data = \<lparr>ts_event_transaction_lt = 1, ts_event_timestamp = 1,
        execute_accounts = [], execute_payload_needed = False, execute_payload_accounts = [],
        ts_event_data = []\<rparr>, ts_configuration = [4], ts_staking = []\<rparr>),
     unpack_et_details = (\<lambda>_. Inr (demo_details \<lparr>etc_chain_id = 1, etc_event_emitter = [5],
        event_blocks_to_confirm = 12, etc_proxy = [], start_block_number = 0, end_block_number = 0\<rparr> [8])),
     unpack_te_details = (\<lambda>_. Inr (demo_details \<lparr>tec_event_emitter = [], tec_proxy = [6],
        tec_start_timestamp = 0, tec_end_timestamp = 0\<rparr> [9])),
     unpack_st_details = (\<lambda>_. Inr (demo_details \<lparr>stc_program = [1], stc_proxy = [],
        stc_start_timestamp = 0, stc_end_timestamp = 0\<rparr> [10])),
     unpack_ts_details = (\<lambda>_. Inr (demo_details \<lparr>tsc_program = [1], tsc_event_emitter = [],
        tsc_instruction = 0, tsc_start_timestamp = 0, tsc_end_timestamp = 0, execute_needed = True,
        execute_instruction = 1, execute_payload_instruction = 2\<rparr> [11])),
     unpack_bridge_details = (\<lambda>_. Inl (Foreign ''InvalidAbi'')),
     unpack_connector_details = (\<lambda>_. Inr \<lparr>connector_id = 0, event_configuration = [4], enabled = True\<rparr>),
     slice_of_address = (\<lambda>a. Inr (StackSlice (addr_hash a))),
     address_from_cell = (\<lambda>c. Inr \<lparr>addr_workchain = 0, addr_hash = c\<rparr>),
     address_from_slice = (\<lambda>b. Inr \<lparr>addr_workchain = 0, addr_hash = b\<rparr>)\<rparr>"

definition demo_contract :: existing_contract where
  "demo_contract = \<lparr>account = \<lparr>balance = 200000000, acc_state = AccountActive None\<rparr>,
     last_transaction_id = Exact 0 []\<rparr>"

lemma demo_call_local [simp]:
  "call_local (demo_abi\<lparr>unpack_status := f\<rparr>) demo_contract fn inputs = Inr []"
  by (simp add: call_local_def demo_abi_def demo_contract_def run_local_def)

theorem event_process_decision_witness:
  "event_base_process (demo_abi\<lparr>unpack_status := \<lambda>_. Inr Pending\<rparr>) demo_contract [7] False = Inr Vote
   \<and> event_base_process (demo_abi\<lparr>unpack_status := \<lambda>_. Inr Pending\<rparr>) demo_contract [8] False = Inr Remove
   \<and> event_base_process (demo_abi\<lparr>unpack_status := \<lambda>_. Inr Confirmed\<rparr>) demo_contract [7] True = Inr Vote
   \<and> event_base_process (demo_abi\<lparr>unpack_status := \<lambda>_. Inr Confirmed\<rparr>) demo_contract [7] False = Inr Remove
   \<and> event_base_process (demo_abi\<lparr>unpack_status := \<lambda>_. Inr Initializing\<rparr>) demo_contract [7] True = Inr Nop
   \<and> event_base_process (demo_abi\<lparr>unpack_status := \<lambda>_. Inr Rejected\<rparr>) demo_contract [7] True = Inr Remove"
proof -
  let ?abi = "\<lambda>st. demo_abi\<lparr>unpack_status := \<lambda>_. Inr st\<rparr>"
  have reads: "status (?abi st) demo_contract = Inr st" "get_voters (?abi st) demo_contract EmptyVote = Inr [[7]]"
    "get_api_version (?abi st) demo_contract = Inr 2" "balance (account demo_contract) = 200000000" for st
    by (simp_all add: status_def get_voters_def get_api_version_def) (simp_all add: demo_abi_def demo_contract_def)
  note decision = event_process_decision [of "?abi st" demo_contract k all_signatures for st k all_signatures, unfolded reads]
  show ?thesis by (intro conjI) (simp_all add: decision)
qed

theorem jetton_length_check_never_fires_witness:
  "jetton_minter_get_wallet_address demo_abi demo_contract demo_address =
     Inl (Panic ''index out of bounds'')"
proof -
  have "vm_run_getter demo_abi demo_contract ''get_wallet_address'' [StackSlice [1]] =
      Inr \<lparr>is_ok = True, exit_code = 0, stack = []\<rparr>"
    "slice_of_address demo_abi demo_address = Inr (StackSlice [1])"
    by (simp_all add: demo_abi_def demo_address_def)
  from jetton_length_check_never_fires [OF this, THEN conjunct2] show ?thesis by simp
qed

end
