(* ===== verification/Bridge_Events.thy ===== *)
theory Bridge_Events
  imports Contracts
begin

section \<open>Pending bridge events\<close>

text \<open>
  \<open>EventsState\<close> of \<open>src/engine/bridge/mod.rs\<close>: the event contracts the relay watches, one map
  per direction, and what the handlers of their transactions do with them. The observer of an
  event lives exactly as long as its entry, so the entry stands for it. What a handler starts or
  subscribes is returned as a list of effects, in order.
\<close>

datatype bridge_effect =
    SubscribeAccount uint256
  | SubscribeEth u32 eth_address uint256 uint256 \<comment> \<open>chain, contract, topic, configuration\<close>
  | SubscribeSol uint256
  | SpawnPreprocess event_type uint256
  | SpawnUpdate event_type uint256
  | SpawnCheckConnector uint256

record pending_event_state =
  processing_started :: bool

record events_state =
  pending :: "(uint256, pending_event_state) hashmap"
  count :: usize

definition events_state_new :: events_state where
  "events_state_new = \<lparr>pending = [], count = 0\<rparr>"

text \<open>\<open>start_processing\<close>: true for the first caller only, false if the event is unknown.\<close>

definition start_processing :: "uint256 \<Rightarrow> events_state \<Rightarrow> bool \<times> events_state" where
  "start_processing acc st =
     (case hm_get (pending st) acc of
        Some entry \<Rightarrow> (\<not> processing_started entry,
          st\<lparr>pending := hm_insert acc (entry\<lparr>processing_started := True\<rparr>) (pending st)\<rparr>)
      | None \<Rightarrow> (False, st))"

definition events_remove :: "uint256 \<Rightarrow> events_state \<Rightarrow> events_state" where
  "events_remove acc st =
     (if hm_get (pending st) acc \<noteq> None
      then st\<lparr>pending := hm_remove acc (pending st), count := count st - 1\<rparr> else st)"

definition add_pending_event ::
  "uint256 \<Rightarrow> events_state \<Rightarrow> bool \<times> events_state \<times> bridge_effect list" where
  "add_pending_event acc st =
     (if hm_get (pending st) acc = None
      then (True, st\<lparr>pending := hm_insert acc \<lparr>processing_started = False\<rparr> (pending st),
                     count := count st + 1\<rparr>, [SubscribeAccount acc])
      else (False, st, []))"

definition events_inv :: "events_state \<Rightarrow> bool" where
  "events_inv st \<longleftrightarrow> hm_wf (pending st) \<and> count st = of_nat (length (pending st))"

lemma events_inv_new [simp, wf_intros]: "events_inv events_state_new"
  by (simp add: events_inv_def events_state_new_def)

lemma pending_new [simp]: "hm_get (pending events_state_new) acc = None"
  by (simp add: events_state_new_def)

lemma events_inv_start [simp, wf_intros]: "events_inv st \<Longrightarrow> events_inv (snd (start_processing acc st))"
  by (auto simp: events_inv_def start_processing_def hm_length_insert_old split: option.split)

lemma events_inv_remove [simp, wf_intros]:
  assumes "events_inv st" shows "events_inv (events_remove acc st)"
proof (cases "hm_get (pending st) acc")
  case (Some e)
  then have "Suc (length (hm_remove acc (pending st))) = length (pending st)"
    using assms by (intro hm_length_remove_old) (simp_all add: events_inv_def)
  then have "(of_nat (length (pending st)) :: usize) = of_nat (length (hm_remove acc (pending st))) + 1"
    by (metis add.commute of_nat_Suc)
  with assms Some show ?thesis by (simp add: events_inv_def events_remove_def)
qed (use assms in \<open>simp add: events_remove_def\<close>)

lemma events_inv_add [simp, wf_intros]:
  "events_inv st \<Longrightarrow> events_inv (fst (snd (add_pending_event acc st)))"
  by (auto simp: events_inv_def add_pending_event_def hm_length_insert_new)

interpretation events: counted_registry events_inv pending count
  by unfold_locales (simp_all add: events_inv_def)

lemma pending_remove [hm_simps]:
  "hm_get (pending (events_remove acc st)) acc' = (if acc' = acc then None else hm_get (pending st) acc')"
  by (auto simp: events_remove_def hm_simps)

lemma pending_start [hm_simps]:
  "hm_get (pending (snd (start_processing acc st))) acc' =
     (if acc' = acc then map_option (\<lambda>e. e\<lparr>processing_started := True\<rparr>) (hm_get (pending st) acc)
      else hm_get (pending st) acc')"
  by (auto simp: start_processing_def hm_simps split: option.split)

lemma pending_add [hm_simps]:
  "hm_get (pending (fst (snd (add_pending_event acc st)))) acc' =
     (if acc' = acc \<and> hm_get (pending st) acc = None then Some \<lparr>processing_started = False\<rparr>
      else hm_get (pending st) acc')"
  by (auto simp: add_pending_event_def hm_simps)

lemma start_processing_iff:
  "fst (start_processing acc st) \<longleftrightarrow> hm_get (pending st) acc = Some \<lparr>processing_started = False\<rparr>"
  by (auto simp: start_processing_def split: option.split)

subsection \<open>Transactions of the event contracts\<close>

datatype eth_ton_event =
    EthTonReceiveRoundRelays "uint256 list"
  | EthTonConfirm uint256
  | EthTonReject uint256
  | EthTonRejected

datatype ton_eth_event =
    TonEthReceiveRoundRelays "uint256 list"
  | TonEthConfirm uint256
  | TonEthReject uint256
  | TonEthRejected
  | TonEthClosed

datatype sol_ton_event =
    SolTonReceiveRoundRelays "uint256 list"
  | SolTonConfirm uint256
  | SolTonReject uint256
  | SolTonRejected

datatype ton_sol_event =
    TonSolReceiveRoundRelays "uint256 list"
  | TonSolConfirm uint256
  | TonSolReject uint256
  | TonSolRejected
  | TonSolClosed

text \<open>
  The handlers. The entry is removed under the map's lock and the counter decremented after it;
  the arms of the match are tried in the order of the code.
\<close>

definition process_eth_ton_event ::
  "uint256 \<Rightarrow> uint256 \<Rightarrow> eth_ton_event \<times> event_status \<Rightarrow> events_state \<Rightarrow> events_state \<times> bridge_effect list"
where
  "process_eth_ton_event our_public_key acc event st =
     (if hm_get (pending st) acc = None then (st, [])
      else
        let removed = (st\<lparr>pending := hm_remove acc (pending st), count := count st - 1\<rparr>, [])
        in if fst event = EthTonRejected \<or> snd event = Confirmed \<or> snd event = Rejected then removed
           else (case fst event of
                   EthTonReceiveRoundRelays keys \<Rightarrow>
                     if our_public_key \<in> set keys then (st, [SpawnUpdate EthTon acc]) else removed
                 | EthTonConfirm public_key \<Rightarrow> if public_key = our_public_key then removed else (st, [])
                 | EthTonReject public_key \<Rightarrow> if public_key = our_public_key then removed else (st, [])
                 | _ \<Rightarrow> (st, [])))"

definition process_ton_eth_event ::
  "uint256 \<Rightarrow> uint256 \<Rightarrow> ton_eth_event \<times> event_status \<Rightarrow> events_state \<Rightarrow> events_state \<times> bridge_effect list"
where
  "process_ton_eth_event our_public_key acc event st =
     (if hm_get (pending st) acc = None then (st, [])
      else
        let removed = (st\<lparr>pending := hm_remove acc (pending st), count := count st - 1\<rparr>, [])
        in if fst event = TonEthClosed \<and> snd event = Confirmed then removed
           else if fst event = TonEthRejected \<or> snd event = Rejected then removed
           else (case fst event of
                   TonEthReceiveRoundRelays keys \<Rightarrow>
                     if our_public_key \<in> set keys then (st, [SpawnUpdate TonEth acc]) else removed
                 | TonEthConfirm public_key \<Rightarrow> if public_key = our_public_key then removed else (st, [])
                 | TonEthReject public_key \<Rightarrow> if public_key = our_public_key then removed else (st, [])
                 | _ \<Rightarrow> (st, [])))"

definition process_sol_ton_event ::
  "uint256 \<Rightarrow> uint256 \<Rightarrow> sol_ton_event \<times> event_status \<Rightarrow> events_state \<Rightarrow> events_state \<times> bridge_effect list"
where
  "process_sol_ton_event our_public_key acc event st =
     (if hm_get (pending st) acc = None then (st, [])
      else
        let removed = (st\<lparr>pending := hm_remove acc (pending st), count := count st - 1\<rparr>, [])
        in if fst event = SolTonRejected \<or> snd event = Confirmed \<or> snd event = Rejected then removed
           else (case fst event of
                   SolTonReceiveRoundRelays keys \<Rightarrow>
                     if our_public_key \<in> set keys then (st, [SpawnUpdate SolTon acc]) else removed
                 | SolTonConfirm public_key \<Rightarrow> if public_key = our_public_key then removed else (st, [])
                 | SolTonReject public_key \<Rightarrow> if public_key = our_public_key then removed else (st, [])
                 | _ \<Rightarrow> (st, [])))"

definition process_ton_sol_event ::
  "uint256 \<Rightarrow> uint256 \<Rightarrow> ton_sol_event \<times> event_status \<Rightarrow> events_state \<Rightarrow> events_state \<times> bridge_effect list"
where
  "process_ton_sol_event our_public_key acc event st =
     (if hm_get (pending st) acc = None then (st, [])
      else
        let removed = (st\<lparr>pending := hm_remove acc (pending st), count := count st - 1\<rparr>, [])
        in if fst event = TonSolClosed \<and> snd event = Confirmed then removed
           else if fst event = TonSolRejected \<or> snd event = Rejected then removed
           else (case fst event of
                   TonSolReceiveRoundRelays keys \<Rightarrow>
                     if our_public_key \<in> set keys then (st, [SpawnUpdate TonSol acc]) else removed
                 | TonSolConfirm public_key \<Rightarrow> if public_key = our_public_key then removed else (st, [])
                 | TonSolReject public_key \<Rightarrow> if public_key = our_public_key then removed else (st, [])
                 | _ \<Rightarrow> (st, [])))"

subsection \<open>The contract of the four handlers\<close>

text \<open>
  What a handler decides, as a table: the entry is kept, dropped, or voting is started. The
  handlers of one direction share the interface \<open>event_handler\<close>: their decision depends on our
  key and the event alone, and they act on known events only, on the one account.
\<close>

datatype verdict = Keep | Drop | StartVoting

locale event_handler =
  fixes handle :: "uint256 \<Rightarrow> uint256 \<Rightarrow> 'e \<times> event_status \<Rightarrow> events_state \<Rightarrow> events_state \<times> bridge_effect list"
    and decide :: "uint256 \<Rightarrow> 'e \<times> event_status \<Rightarrow> verdict"
    and kind :: event_type
  assumes handle_unknown: "hm_get (pending st) acc = None \<Longrightarrow> handle k acc ev st = (st, [])"
    and handle_known: "hm_get (pending st) acc \<noteq> None \<Longrightarrow> handle k acc ev st =
      (case decide k ev of
         Keep \<Rightarrow> (st, [])
       | Drop \<Rightarrow> (events_remove acc st, [])
       | StartVoting \<Rightarrow> (st, [SpawnUpdate kind acc]))"
begin

lemma handle_inv: "events_inv st \<Longrightarrow> events_inv (fst (handle k acc ev st))"
  by (cases "hm_get (pending st) acc"; cases "decide k ev") (simp_all add: handle_unknown handle_known)

lemma handle_frame: "acc' \<noteq> acc \<Longrightarrow> hm_get (pending (fst (handle k acc ev st))) acc' = hm_get (pending st) acc'"
  by (cases "hm_get (pending st) acc"; cases "decide k ev")
    (simp_all add: handle_unknown handle_known hm_simps)

lemma handle_entry:
  "hm_get (pending (fst (handle k acc ev st))) acc =
     (if decide k ev = Drop then None else hm_get (pending st) acc)"
  by (cases "hm_get (pending st) acc"; cases "decide k ev")
    (simp_all add: handle_unknown handle_known hm_simps)

lemma handle_effects:
  "snd (handle k acc ev st) =
     (if hm_get (pending st) acc \<noteq> None \<and> decide k ev = StartVoting then [SpawnUpdate kind acc] else [])"
  by (cases "hm_get (pending st) acc"; cases "decide k ev") (simp_all add: handle_unknown handle_known)

end

definition decide_eth_ton :: "uint256 \<Rightarrow> eth_ton_event \<times> event_status \<Rightarrow> verdict" where
  "decide_eth_ton k ev =
     (if fst ev = EthTonRejected \<or> snd ev \<in> {Confirmed, Rejected} then Drop
      else case fst ev of
        EthTonReceiveRoundRelays keys \<Rightarrow> if k \<in> set keys then StartVoting else Drop
      | EthTonConfirm pk \<Rightarrow> if pk = k then Drop else Keep
      | EthTonReject pk \<Rightarrow> if pk = k then Drop else Keep
      | EthTonRejected \<Rightarrow> Drop)"

definition decide_ton_eth :: "uint256 \<Rightarrow> ton_eth_event \<times> event_status \<Rightarrow> verdict" where
  "decide_ton_eth k ev =
     (if fst ev = TonEthRejected \<or> snd ev = Rejected \<or> ev = (TonEthClosed, Confirmed) then Drop
      else case fst ev of
        TonEthReceiveRoundRelays keys \<Rightarrow> if k \<in> set keys then StartVoting else Drop
      | TonEthConfirm pk \<Rightarrow> if pk = k then Drop else Keep
      | TonEthReject pk \<Rightarrow> if pk = k then Drop else Keep
      | _ \<Rightarrow> Keep)"

definition decide_sol_ton :: "uint256 \<Rightarrow> sol_ton_event \<times> event_status \<Rightarrow> verdict" where
  "decide_sol_ton k ev =
     (if fst ev = SolTonRejected \<or> snd ev \<in> {Confirmed, Rejected} then Drop
      else case fst ev of
        SolTonReceiveRoundRelays keys \<Rightarrow> if k \<in> set keys then StartVoting else Drop
      | SolTonConfirm pk \<Rightarrow> if pk = k then Drop else Keep
      | SolTonReject pk \<Rightarrow> if pk = k then Drop else Keep
      | SolTonRejected \<Rightarrow> Drop)"

definition decide_ton_sol :: "uint256 \<Rightarrow> ton_sol_event \<times> event_status \<Rightarrow> verdict" where
  "decide_ton_sol k ev =
     (if fst ev = TonSolRejected \<or> snd ev = Rejected \<or> ev = (TonSolClosed, Confirmed) then Drop
      else case fst ev of
        TonSolReceiveRoundRelays keys \<Rightarrow> if k \<in> set keys then StartVoting else Drop
      | TonSolConfirm pk \<Rightarrow> if pk = k then Drop else Keep
      | TonSolReject pk \<Rightarrow> if pk = k then Drop else Keep
      | _ \<Rightarrow> Keep)"

interpretation eth_ton: event_handler process_eth_ton_event decide_eth_ton EthTon
  by unfold_locales
    (auto simp: process_eth_ton_event_def decide_eth_ton_def events_remove_def Let_def
      split: eth_ton_event.split)

interpretation ton_eth: event_handler process_ton_eth_event decide_ton_eth TonEth
  by unfold_locales
    (auto simp: process_ton_eth_event_def decide_ton_eth_def events_remove_def Let_def prod_eq_iff
      split: ton_eth_event.split)

interpretation sol_ton: event_handler process_sol_ton_event decide_sol_ton SolTon
  by unfold_locales
    (auto simp: process_sol_ton_event_def decide_sol_ton_def events_remove_def Let_def
      split: sol_ton_event.split)

interpretation ton_sol: event_handler process_ton_sol_event decide_ton_sol TonSol
  by unfold_locales
    (auto simp: process_ton_sol_event_def decide_ton_sol_def events_remove_def Let_def prod_eq_iff
      split: ton_sol_event.split)

subsection \<open>Checking a deployed event\<close>

fun require_all_signatures :: "event_type \<Rightarrow> bool" where
  "require_all_signatures EthTon = False"
| "require_all_signatures TonEth = True"
| "require_all_signatures SolTon = False"
| "require_all_signatures TonSol = True"

text \<open>
  \<open>preprocess_event\<close> after its wait for the contract state: the effect \<open>SpawnUpdate\<close> is the
  call of the direction's update.
\<close>

definition preprocess_event ::
  "abi_env \<Rightarrow> uint256 \<Rightarrow> event_type \<Rightarrow> existing_contract res \<Rightarrow> uint256 \<Rightarrow> events_state \<Rightarrow>
     (events_state \<times> bridge_effect list) \<times> unit res"
where
  "preprocess_event abi our_public_key kind contract acc st =
     (case rbind contract (\<lambda>contract.
             event_base_process abi contract our_public_key (require_all_signatures kind)) of
        Inl e \<Rightarrow> ((st, []), Inl e)
      | Inr Nop \<Rightarrow> ((st, []), Inr ())
      | Inr Remove \<Rightarrow> ((events_remove acc st, []), Inr ())
      | Inr Vote \<Rightarrow> ((st, [SpawnUpdate kind acc]), Inr ()))"

subsection \<open>Properties\<close>

text \<open>
  Processing a transaction of an event contract starts voting only for a known event whose
  relay keys include ours; it never adds an event, changes no other event, keeps the entry
  counter exact, and removes the event exactly when the voting is over or our own vote was seen
  (ETH to TON; the confirmation of the event ends it).
\<close>

theorem eth_ton_event_handled:
  assumes "events_inv st"
    and "process_eth_ton_event k acc (ev, es) st = (st', effects)"
  shows "events_inv st' \<and>
    (effects \<noteq> [] \<longleftrightarrow> hm_get (pending st) acc \<noteq> None \<and> es \<in> {Initializing, Pending}
       \<and> (\<exists>keys. ev = EthTonReceiveRoundRelays keys \<and> k \<in> set keys)) \<and>
    (hm_get (pending st) acc \<noteq> None \<and> hm_get (pending st') acc = None \<longleftrightarrow>
       hm_get (pending st) acc \<noteq> None \<and>
       (ev = EthTonRejected \<or> es \<in> {Confirmed, Rejected} \<or> ev \<in> {EthTonConfirm k, EthTonReject k}
        \<or> (\<exists>keys. ev = EthTonReceiveRoundRelays keys \<and> k \<notin> set keys))) \<and>
    (\<forall>acc'. acc' \<noteq> acc \<longrightarrow> hm_get (pending st') acc' = hm_get (pending st) acc')"
proof -
  have st': "st' = fst (process_eth_ton_event k acc (ev, es) st)"
    and eff: "effects = snd (process_eth_ton_event k acc (ev, es) st)" using assms(2) by simp_all
  have start: "decide_eth_ton k (ev, es) = StartVoting \<longleftrightarrow> es \<in> {Initializing, Pending}
      \<and> (\<exists>keys. ev = EthTonReceiveRoundRelays keys \<and> k \<in> set keys)"
    by (cases es; cases ev) (auto simp: decide_eth_ton_def)
  have drop: "decide_eth_ton k (ev, es) = Drop \<longleftrightarrow>
      ev = EthTonRejected \<or> es \<in> {Confirmed, Rejected} \<or> ev \<in> {EthTonConfirm k, EthTonReject k}
        \<or> (\<exists>keys. ev = EthTonReceiveRoundRelays keys \<and> k \<notin> set keys)"
    by (cases es; cases ev) (auto simp: decide_eth_ton_def)
  show ?thesis
    unfolding st' eff start [symmetric] drop [symmetric] eth_ton.handle_effects eth_ton.handle_entry
    using eth_ton.handle_inv [OF assms(1)] eth_ton.handle_frame by auto
qed

text \<open>
  The same for TON to ETH, where signatures are still collected after the confirmation: the
  entry of a confirmed event survives, until it is rejected, closed, or signed by us.
\<close>

theorem ton_eth_event_handled:
  assumes "events_inv st"
    and "process_ton_eth_event k acc (ev, es) st = (st', effects)"
  shows "events_inv st' \<and>
    (effects \<noteq> [] \<longleftrightarrow> hm_get (pending st) acc \<noteq> None \<and> es \<noteq> Rejected
       \<and> (\<exists>keys. ev = TonEthReceiveRoundRelays keys \<and> k \<in> set keys)) \<and>
    (hm_get (pending st) acc \<noteq> None \<and> hm_get (pending st') acc = None \<longleftrightarrow>
       hm_get (pending st) acc \<noteq> None \<and>
       (ev = TonEthRejected \<or> es = Rejected \<or> (ev = TonEthClosed \<and> es = Confirmed)
        \<or> ev \<in> {TonEthConfirm k, TonEthReject k}
        \<or> (\<exists>keys. ev = TonEthReceiveRoundRelays keys \<and> k \<notin> set keys))) \<and>
    (\<forall>acc'. acc' \<noteq> acc \<longrightarrow> hm_get (pending st') acc' = hm_get (pending st) acc')"
proof -
  have st': "st' = fst (process_ton_eth_event k acc (ev, es) st)"
    and eff: "effects = snd (process_ton_eth_event k acc (ev, es) st)" using assms(2) by simp_all
  have start: "decide_ton_eth k (ev, es) = StartVoting \<longleftrightarrow> es \<noteq> Rejected
      \<and> (\<exists>keys. ev = TonEthReceiveRoundRelays keys \<and> k \<in> set keys)"
    by (cases es; cases ev) (auto simp: decide_ton_eth_def)
  have drop: "decide_ton_eth k (ev, es) = Drop \<longleftrightarrow>
      ev = TonEthRejected \<or> es = Rejected \<or> (ev = TonEthClosed \<and> es = Confirmed)
        \<or> ev \<in> {TonEthConfirm k, TonEthReject k}
        \<or> (\<exists>keys. ev = TonEthReceiveRoundRelays keys \<and> k \<notin> set keys)"
    by (cases es; cases ev) (auto simp: decide_ton_eth_def)
  show ?thesis
    unfolding st' eff start [symmetric] drop [symmetric] ton_eth.handle_effects ton_eth.handle_entry
    using ton_eth.handle_inv [OF assms(1)] ton_eth.handle_frame by auto
qed

theorem eth_ton_event_handled_witness:
  "snd (process_eth_ton_event [7] [1] (EthTonReceiveRoundRelays [[7]], Pending)
     (fst (snd (add_pending_event [1] events_state_new)))) \<noteq> []"
  using eth_ton_event_handled [of "fst (snd (add_pending_event [1] events_state_new))", OF _ surjective_pairing,
      of "[7]" "[1]" "EthTonReceiveRoundRelays [[7]]" Pending]
  by (simp add: pending_add)

theorem ton_eth_event_handled_witness:
  "hm_get (pending (fst (process_ton_eth_event [7] [1] (TonEthClosed, Confirmed)
     (fst (snd (add_pending_event [1] events_state_new)))))) [1] = None"
  using ton_eth_event_handled [of "fst (snd (add_pending_event [1] events_state_new))", OF _ surjective_pairing,
      of "[7]" "[1]" TonEthClosed Confirmed]
  by (simp add: pending_add)

end
