(* ===== verification/Event_Lifecycle.thy ===== *)
theory Event_Lifecycle
  imports "HOL-Library.Multiset" Bridge_Events
begin

section \<open>The life of an event: at most one vote per deployment\<close>

text \<open>
  The tasks of the bridge interleave: deployments add events, transactions of the event contracts
  are processed, deployed events are checked in parallel, and update tasks start, vote and
  remove events. One step of the relation is one of these atomic accesses to the events map of
  a direction, in any order. Beside the map, the system state keeps the update tasks that have not
  started yet, and two histories the theorems speak about: how often an event was added, and how
  many update tasks went on to vote on it.
\<close>

record event_system =
  events :: events_state
  queued :: "uint256 multiset"
  added :: "uint256 \<Rightarrow> nat"
  voted :: "uint256 \<Rightarrow> nat"

definition event_system_init :: event_system where
  "event_system_init = \<lparr>events = events_state_new, queued = {#}, added = (\<lambda>_. 0), voted = (\<lambda>_. 0)\<rparr>"

fun update_targets :: "bridge_effect list \<Rightarrow> uint256 multiset" where
  "update_targets [] = {#}"
| "update_targets (SpawnUpdate kind acc # effects) = add_mset acc (update_targets effects)"
| "update_targets (_ # effects) = update_targets effects"

inductive event_step ::
  "(uint256 \<Rightarrow> 'e \<times> event_status \<Rightarrow> events_state \<Rightarrow> events_state \<times> bridge_effect list) \<Rightarrow>
   event_system \<Rightarrow> event_system \<Rightarrow> bool"
  for handle where
  deploy: "add_pending_event acc (events s) = (new, st, effects) \<Longrightarrow>
    event_step handle s (s\<lparr>events := st, added := (if new then (added s)(acc := Suc (added s acc)) else added s)\<rparr>)"
| transaction: "handle acc ev (events s) = (st, effects) \<Longrightarrow>
    event_step handle s (s\<lparr>events := st, queued := queued s + update_targets effects\<rparr>)"
| preprocess: "preprocess_event abi k kind contract acc (events s) = ((st, effects), r) \<Longrightarrow>
    event_step handle s (s\<lparr>events := st, queued := queued s + update_targets effects\<rparr>)"
| initial: "event_step handle s (s\<lparr>queued := add_mset acc (queued s)\<rparr>)"
| start: "acc \<in># queued s \<Longrightarrow> start_processing acc (events s) = (go, st) \<Longrightarrow>
    event_step handle s (s\<lparr>events := st, queued := queued s - {#acc#},
      voted := (if go then (voted s)(acc := Suc (voted s acc)) else voted s)\<rparr>)"
| finish: "event_step handle s (s\<lparr>events := events_remove acc (events s)\<rparr>)"

inductive_cases event_stepE: "event_step handle s s'"

inductive event_reach ::
  "(uint256 \<Rightarrow> 'e \<times> event_status \<Rightarrow> events_state \<Rightarrow> events_state \<times> bridge_effect list) \<Rightarrow>
   event_system \<Rightarrow> bool"
  for handle where
  reach_init: "event_reach handle event_system_init"
| reach_step: "event_reach handle s \<Longrightarrow> event_step handle s s' \<Longrightarrow> event_reach handle s'"

inductive_simps event_reach_simps: "event_reach handle s"

subsection \<open>The invariant\<close>

text \<open>An entry whose processing has not started is a vote that may still be cast.\<close>

definition unstarted :: "event_system \<Rightarrow> uint256 \<Rightarrow> nat" where
  "unstarted s acc = (case hm_get (pending (events s)) acc of
     Some e \<Rightarrow> if processing_started e then 0 else 1 | None \<Rightarrow> 0)"

definition vote_inv :: "event_system \<Rightarrow> bool" where
  "vote_inv s \<longleftrightarrow> events_inv (events s) \<and> (\<forall>acc. voted s acc + unstarted s acc \<le> added s acc)"



lemma vote_inv_shrink:
  assumes inv: "vote_inv s" and st: "events_inv st"
    and sub: "\<And>a. hm_get (pending st) a = None \<or> hm_get (pending st) a = hm_get (pending (events s)) a"
  shows "vote_inv (s\<lparr>events := st, queued := q\<rparr>)"
proof -
  let ?s = "s\<lparr>events := st, queued := q\<rparr>"
  have "unstarted ?s a \<le> unstarted s a" for a
    using sub [of a] by (auto simp: unstarted_def)
  then have "voted s a + unstarted ?s a \<le> added s a" for a
    using inv unfolding vote_inv_def by (meson add_left_mono le_trans)
  then show ?thesis using st by (simp add: vote_inv_def)
qed

lemma preprocess_shrinks:
  assumes "preprocess_event abi k kind contract acc st = ((st', effects), r)"
  shows "st' = st \<or> st' = events_remove acc st"
  using assms by (auto simp: preprocess_event_def split: sum.split_asm event_action.split_asm)

lemma vote_inv_add:
  assumes inv: "vote_inv s" and add: "add_pending_event acc (events s) = (new, st, effects)"
  shows "vote_inv (s\<lparr>events := st, added := (if new then (added s)(acc := Suc (added s acc)) else added s)\<rparr>)"
proof (cases "hm_get (pending (events s)) acc")
  case None
  then have new: "new" "st = fst (snd (add_pending_event acc (events s)))"
    using add by (simp_all add: add_pending_event_def)
  have get: "hm_get (pending st) a =
      (if a = acc then Some \<lparr>processing_started = False\<rparr> else hm_get (pending (events s)) a)" for a
    using None by (simp add: new(2) pending_add)
  have "unstarted s acc = 0" using None by (simp add: unstarted_def)
  then have "voted s acc \<le> added s acc" using inv by (simp add: vote_inv_def) (metis add_0_right)
  moreover have "events_inv st" using inv new(2) by (simp add: vote_inv_def)
  ultimately show ?thesis using inv new(1) by (simp add: vote_inv_def unstarted_def get)
next
  case (Some e)
  then have "\<not> new" "st = events s" using add by (simp_all add: add_pending_event_def)
  with inv show ?thesis by (simp add: vote_inv_def unstarted_def)
qed

lemma vote_inv_start:
  assumes inv: "vote_inv s" and start: "start_processing acc (events s) = (go, st)"
  shows "vote_inv (s\<lparr>events := st, queued := q, voted := (if go then (voted s)(acc := Suc (voted s acc)) else voted s)\<rparr>)"
proof -
  let ?s = "s\<lparr>events := st, queued := q, voted := (if go then (voted s)(acc := Suc (voted s acc)) else voted s)\<rparr>"
  have st: "st = snd (start_processing acc (events s))" and go: "go = fst (start_processing acc (events s))"
    using start by simp_all
  have ok: "events_inv st" using inv by (simp add: st vote_inv_def)
  have get: "hm_get (pending st) a =
      (if a = acc then map_option (\<lambda>e. e\<lparr>processing_started := True\<rparr>) (hm_get (pending (events s)) acc)
       else hm_get (pending (events s)) a)" for a
    by (simp add: st pending_start)
  have "unstarted s acc = 1" if go using that by (simp add: go start_processing_iff unstarted_def)
  moreover have le: "voted s a + unstarted s a \<le> added s a" for a using inv by (simp add: vote_inv_def)
  ultimately have "Suc (voted s acc) \<le> added s acc" if go using that le [of acc] by simp
  moreover have "voted s acc \<le> added s acc" using le [of acc] by simp
  moreover have "unstarted ?s acc = 0" by (auto simp: unstarted_def get split: option.split)
  moreover have "unstarted ?s a = unstarted s a" if "a \<noteq> acc" for a
    using that by (simp add: unstarted_def get)
  ultimately have "voted ?s a + unstarted ?s a \<le> added ?s a" for a
    using le [of a] by (cases "a = acc") simp_all
  with ok show ?thesis by (simp add: vote_inv_def)
qed

context event_handler begin

lemma handle_shrinks:
  "hm_get (pending (fst (handle k acc ev st))) a = None
   \<or> hm_get (pending (fst (handle k acc ev st))) a = hm_get (pending st) a"
  using handle_frame [of a acc] handle_entry [of k acc ev st] by (cases "a = acc") auto

lemma step_inv: "event_step (handle k) s s' \<Longrightarrow> vote_inv s \<Longrightarrow> vote_inv s'"
proof (induction rule: event_step.induct)
  case (deploy acc s new st effects)
  then show ?case by (intro vote_inv_add)
next
  case (transaction acc ev s st effects)
  then have "st = fst (handle k acc ev (events s))" by simp
  with transaction show ?case
    by (intro vote_inv_shrink) (simp_all add: vote_inv_def handle_inv handle_shrinks)
next
  case (preprocess abi k' kind' contract acc s st effects r)
  then show ?case
    using preprocess_shrinks [OF preprocess.hyps]
    by (intro vote_inv_shrink) (auto simp: vote_inv_def hm_simps)
next
  case (initial s acc)
  then show ?case by (simp add: vote_inv_def unstarted_def)
next
  case (start acc s go st)
  then show ?case by (intro vote_inv_start)
next
  case (finish s acc)
  have "vote_inv (s\<lparr>events := events_remove acc (events s), queued := queued s\<rparr>)"
    by (rule vote_inv_shrink) (use finish in \<open>auto simp: vote_inv_def hm_simps\<close>)
  then show ?case by simp
qed

lemma reach_inv: "event_reach (handle k) s \<Longrightarrow> vote_inv s"
proof (induction rule: event_reach.induct)
  case reach_init
  show ?case by (simp add: vote_inv_def unstarted_def event_system_init_def)
next
  case (reach_step s s')
  then show ?case by (blast intro: step_inv)
qed

lemma votes_bounded: "event_reach (handle k) s \<Longrightarrow> voted s acc \<le> added s acc \<and> events_inv (events s)"
  using reach_inv [of k s] unfolding vote_inv_def by (metis add_leD1)

end

subsection \<open>Properties\<close>

text \<open>
  C6: In every interleaving of deployments, transactions, checks and update tasks, the number of
  update tasks that go on to vote on an event is at most the number of times the event was
  added, and the entry counter of the direction is the number of pending events (shown here for
  ETH to TON; the lemma is one for the four directions).
\<close>

theorem at_most_one_vote_eth_ton:
  assumes "event_reach (process_eth_ton_event our_key) s"
  shows "voted s acc \<le> added s acc \<and> events_state.count (events s) = of_nat (card (hm_keys (pending (events s))))"
  using eth_ton.votes_bounded [OF assms] events.counter_card by simp

text \<open>The same for TON to SOL events, which are also voted on in Solana.\<close>

theorem at_most_one_vote_ton_sol:
  assumes "event_reach (process_ton_sol_event our_key) s"
  shows "voted s acc \<le> added s acc \<and> events_state.count (events s) = of_nat (card (hm_keys (pending (events s))))"
  using ton_sol.votes_bounded [OF assms] events.counter_card by simp

subsection \<open>Witnesses: a run that votes\<close>

definition demo_added :: event_system where
  "demo_added = \<lparr>events = fst (snd (add_pending_event [1] events_state_new)), queued = {#},
     added = (\<lambda>_. 0)([1] := 1), voted = (\<lambda>_. 0)\<rparr>"

definition demo_voting :: event_system where
  "demo_voting = \<lparr>events = snd (start_processing [1] (events demo_added)), queued = {#},
     added = (\<lambda>_. 0)([1] := 1), voted = (\<lambda>_. 0)([1] := 1)\<rparr>"

lemma demo_voting_reach: "event_reach h demo_voting"
proof -
  let ?queued = "demo_added\<lparr>queued := add_mset [1] (queued demo_added)\<rparr>"
  have "add_pending_event [1] (events event_system_init) =
      (True, events demo_added, [SubscribeAccount [1]])"
    by (simp add: event_system_init_def demo_added_def add_pending_event_def events_state_new_def)
  from event_step.deploy [OF this, of h] have "event_step h event_system_init demo_added"
    by (simp add: event_system_init_def demo_added_def)
  moreover have "event_step h demo_added ?queued" by (rule event_step.initial)
  moreover have "event_step h ?queued demo_voting"
  proof -
    have "start_processing [1] (events ?queued) = (True, events demo_voting)"
      by (simp add: demo_added_def demo_voting_def start_processing_def add_pending_event_def
          events_state_new_def)
    from event_step.start [OF _ this, of h] show ?thesis
      by (simp add: demo_added_def demo_voting_def)
  qed
  ultimately show ?thesis by (meson event_reach.intros)
qed

theorem at_most_one_vote_eth_ton_witness: "voted demo_voting [1] = 1 \<and> voted demo_voting [1] \<le> added demo_voting [1]"
  using at_most_one_vote_eth_ton [OF demo_voting_reach, of "[1]"] by (simp add: demo_voting_def)

theorem at_most_one_vote_ton_sol_witness: "voted demo_voting [2] = 0 \<and> voted demo_voting [2] \<le> added demo_voting [2]"
  using at_most_one_vote_ton_sol [OF demo_voting_reach, of "[2]"] by (simp add: demo_voting_def)

end
