(* ===== verification/Bridge_Config.thy ===== *)
theory Bridge_Config
  imports Bridge_Events
begin

section \<open>The bridge: connectors and event configurations\<close>

text \<open>
  The state of \<open>src/engine/bridge/mod.rs\<close>: the connectors, the event configurations of the four
  directions with their activity counters, the code hashes of the event contracts, and the
  pending events. Configurations are added when a connector is found or enabled, changed by their
  own transactions, and dropped by a periodic collection once expired. Parsing an ABI, hashing
  a cell and the flags of a mapping context are third-party: fields of \<open>bridge_env\<close>.
\<close>

type_synonym ton_event_abi = "bytes"

record eth_ton_mapping_context =
  check_token_root :: bool

record ton_eth_context =
  verify_token_meta :: bool

record eth_ton_event_configuration_state =
  et_details :: "eth_ton_event_configuration event_configuration_details"
  mapping_context :: eth_ton_mapping_context
  et_event_abi :: eth_event_abi

record ton_eth_event_configuration_state =
  te_details :: "ton_eth_event_configuration event_configuration_details"
  te_context :: ton_eth_context
  te_event_abi :: ton_event_abi

record sol_ton_event_configuration_state =
  st_details :: "sol_ton_event_configuration event_configuration_details"
  st_event_abi :: ton_event_abi

record ton_sol_event_configuration_state =
  ts_details :: "ton_sol_event_configuration event_configuration_details"
  ts_event_abi :: ton_event_abi

record bridge_env =
  abi :: abi_env
  ton_feature :: bool
  repr_hash :: "cell \<Rightarrow> uint256"
  ton_public_key :: uint256
  sol_public_key :: uint256
  sol_enabled :: bool
  eth_subscriber_exists :: "u32 \<Rightarrow> bool"
  mapping_context_from :: "u8 \<Rightarrow> eth_ton_mapping_context"
  mapping_context_default :: eth_ton_mapping_context
  ton_context_from :: "u8 \<Rightarrow> ton_eth_context"
  ton_context_default :: ton_eth_context
  eth_event_abi_new :: "string \<Rightarrow> eth_ton_mapping_context \<Rightarrow> eth_event_abi res"
  decode_ton_event_abi :: "string \<Rightarrow> ton_event_abi res"

record bridge =
  connectors :: "(uint256, unit) hashmap"
  eth_ton_event_configurations :: "(uint256, eth_ton_event_configuration_state) hashmap"
  ton_eth_event_configurations :: "(uint256, ton_eth_event_configuration_state) hashmap"
  sol_ton_event_configurations :: "(uint256, sol_ton_event_configuration_state) hashmap"
  ton_sol_event_configurations :: "(uint256, ton_sol_event_configuration_state) hashmap"
  event_code_hashes :: "(uint256, event_type) hashmap"
  eth_ton_events_state :: events_state
  ton_eth_events_state :: events_state
  sol_ton_events_state :: events_state
  ton_sol_events_state :: events_state
  total_active_eth_ton :: usize
  total_active_ton_eth :: usize
  total_active_sol_ton :: usize
  total_active_ton_sol :: usize

definition bridge_new :: bridge where
  "bridge_new = \<lparr>connectors = [], eth_ton_event_configurations = [], ton_eth_event_configurations = [],
     sol_ton_event_configurations = [], ton_sol_event_configurations = [], event_code_hashes = [],
     eth_ton_events_state = events_state_new, ton_eth_events_state = events_state_new,
     sol_ton_events_state = events_state_new, ton_sol_events_state = events_state_new,
     total_active_eth_ton = 0, total_active_ton_eth = 0, total_active_sol_ton = 0, total_active_ton_sol = 0\<rparr>"

type_synonym bridge_result = "bridge \<times> bridge_effect list \<times> unit res"

subsection \<open>Expiry\<close>

text \<open>\<open>(1..now).contains(&end)\<close>: an end of zero means no end.\<close>

definition ton_eth_is_expired :: "ton_eth_event_configuration event_configuration_details \<Rightarrow> u32 \<Rightarrow> bool" where
  "ton_eth_is_expired details current_timestamp \<longleftrightarrow>
     1 \<le> tec_end_timestamp (network_configuration details)
     \<and> tec_end_timestamp (network_configuration details) < current_timestamp"

definition sol_ton_is_expired :: "sol_ton_event_configuration event_configuration_details \<Rightarrow> u64 \<Rightarrow> bool" where
  "sol_ton_is_expired details current_timestamp \<longleftrightarrow>
     1 \<le> stc_end_timestamp (network_configuration details)
     \<and> stc_end_timestamp (network_configuration details) < current_timestamp"

definition ton_sol_is_expired :: "ton_sol_event_configuration event_configuration_details \<Rightarrow> u32 \<Rightarrow> bool" where
  "ton_sol_is_expired details current_timestamp \<longleftrightarrow>
     1 \<le> tsc_end_timestamp (network_configuration details)
     \<and> tsc_end_timestamp (network_configuration details) < current_timestamp"

locale expiry =
  fixes expired :: "'d \<Rightarrow> 'w :: len word \<Rightarrow> bool"
    and end_timestamp :: "'d \<Rightarrow> 'w word"
  assumes expired_iff: "expired d now \<longleftrightarrow> 1 \<le> end_timestamp d \<and> end_timestamp d < now"
begin

lemma expired_mono: "expired d now \<Longrightarrow> now \<le> later \<Longrightarrow> expired d later"
  unfolding expired_iff by auto

lemma endless: "end_timestamp d = 0 \<Longrightarrow> \<not> expired d now"
  unfolding expired_iff by (simp add: word_le_nat_alt)

lemma live_until_end: "now \<le> end_timestamp d \<Longrightarrow> \<not> expired d now"
  unfolding expired_iff by auto

end

interpretation ton_eth_expiry: expiry ton_eth_is_expired "\<lambda>d. tec_end_timestamp (network_configuration d)"
  by unfold_locales (simp add: ton_eth_is_expired_def)

interpretation sol_ton_expiry: expiry sol_ton_is_expired "\<lambda>d. stc_end_timestamp (network_configuration d)"
  by unfold_locales (simp add: sol_ton_is_expired_def)

interpretation ton_sol_expiry: expiry ton_sol_is_expired "\<lambda>d. tsc_end_timestamp (network_configuration d)"
  by unfold_locales (simp add: ton_sol_is_expired_def)

subsection \<open>Adding configurations\<close>

definition add_event_code_hash ::
  "(cell \<Rightarrow> uint256) \<Rightarrow> (uint256, event_type) hashmap \<Rightarrow> cell \<Rightarrow> event_type \<Rightarrow> (uint256, event_type) hashmap res"
where
  "add_event_code_hash hash hashes code event_type =
     (case hm_get hashes (hash code) of
        None \<Rightarrow> Inr (hm_insert (hash code) event_type hashes)
      | Some entry \<Rightarrow> if entry \<noteq> event_type then Inl InvalidEventConfiguration else Inr hashes)"

definition add_eth_ton_event_configuration ::
  "bridge_env \<Rightarrow> uint256 \<Rightarrow> existing_contract \<Rightarrow> bridge \<Rightarrow> bridge_result"
where
  "add_eth_ton_event_configuration env acc contract b =
     (case rbind (with_context ''Failed to get ETH->TON event configuration flags''
                    (get_flags (abi env) contract)) (\<lambda>flags.
           rbind (with_context ''Failed to get ETH->TON event configuration details''
                    (eth_ton_configuration_details (abi env) contract)) (\<lambda>details.
           let ctx = (case flags of Some flags \<Rightarrow> mapping_context_from env (ucast flags)
                      | None \<Rightarrow> mapping_context_default env)
           in rbind (eth_event_abi_new env (event_abi (basic_configuration details)) ctx) (\<lambda>parsed_abi.
              if \<not> eth_subscriber_exists env (etc_chain_id (network_configuration details))
              then Inl UnknownChainId
              else rbind (add_event_code_hash (repr_hash env) (event_code_hashes b)
                            (event_code (basic_configuration details)) EthTon) (\<lambda>hashes.
                Inr (details, ctx, parsed_abi, hashes))))) of
        Inl e \<Rightarrow> (b, [], Inl e)
      | Inr (details, ctx, parsed_abi, hashes) \<Rightarrow>
          let b = b\<lparr>event_code_hashes := hashes\<rparr>
          in if hm_get (eth_ton_event_configurations b) acc \<noteq> None
             then (b, [], Inl EventConfigurationAlreadyExists)
             else (b\<lparr>total_active_eth_ton := total_active_eth_ton b + 1,
                     eth_ton_event_configurations :=
                       hm_insert acc \<lparr>et_details = details, mapping_context = ctx, et_event_abi = parsed_abi\<rparr>
                         (eth_ton_event_configurations b)\<rparr>,
                   [SubscribeEth (etc_chain_id (network_configuration details))
                      (etc_event_emitter (network_configuration details)) (get_eth_topic_hash parsed_abi) acc,
                    SubscribeAccount acc],
                   Inr ()))"

definition add_ton_eth_event_configuration ::
  "bridge_env \<Rightarrow> u32 \<Rightarrow> uint256 \<Rightarrow> existing_contract \<Rightarrow> bridge \<Rightarrow> bridge_result"
where
  "add_ton_eth_event_configuration env current_timestamp acc contract b =
     (case rbind (if ton_feature env
                  then with_context ''Failed to get TON->ETH event configuration flags''
                         (get_flags (abi env) contract)
                  else Inr None) (\<lambda>flags.
           rbind (with_context ''Failed to get TON->ETH event configuration details''
                    (ton_eth_configuration_details (abi env) contract)) (\<lambda>details.
           let ctx = (case flags of Some flags \<Rightarrow> ton_context_from env (ucast flags)
                      | None \<Rightarrow> ton_context_default env)
           in if ton_eth_is_expired details current_timestamp then Inr None
              else rbind (decode_ton_event_abi env (event_abi (basic_configuration details))) (\<lambda>parsed_abi.
                   rbind (add_event_code_hash (repr_hash env) (event_code_hashes b)
                            (event_code (basic_configuration details)) TonEth) (\<lambda>hashes.
                     Inr (Some (details, ctx, parsed_abi, hashes)))))) of
        Inl e \<Rightarrow> (b, [], Inl e)
      | Inr None \<Rightarrow> (b, [], Inr ())
      | Inr (Some (details, ctx, parsed_abi, hashes)) \<Rightarrow>
          let b = b\<lparr>event_code_hashes := hashes\<rparr>
          in if hm_get (ton_eth_event_configurations b) acc \<noteq> None
             then (b, [], Inl EventConfigurationAlreadyExists)
             else (b\<lparr>total_active_ton_eth := total_active_ton_eth b + 1,
                     ton_eth_event_configurations :=
                       hm_insert acc \<lparr>te_details = details, te_context = ctx, te_event_abi = parsed_abi\<rparr>
                         (ton_eth_event_configurations b)\<rparr>,
                   [SubscribeAccount acc], Inr ()))"

definition add_sol_ton_event_configuration ::
  "bridge_env \<Rightarrow> u32 \<Rightarrow> uint256 \<Rightarrow> existing_contract \<Rightarrow> bridge \<Rightarrow> bridge_result"
where
  "add_sol_ton_event_configuration env current_timestamp acc contract b =
     (if \<not> sol_enabled env then (b, [], Inr ())
      else case rbind (with_context ''Failed to get SOL->TON event configuration details''
                         (sol_ton_configuration_details (abi env) contract)) (\<lambda>details.
           if sol_ton_is_expired details (ucast current_timestamp) then Inr None
           else rbind (decode_ton_event_abi env (event_abi (basic_configuration details))) (\<lambda>parsed_abi.
                rbind (add_event_code_hash (repr_hash env) (event_code_hashes b)
                         (event_code (basic_configuration details)) SolTon) (\<lambda>hashes.
                  Inr (Some (details, parsed_abi, hashes))))) of
        Inl e \<Rightarrow> (b, [], Inl e)
      | Inr None \<Rightarrow> (b, [], Inr ())
      | Inr (Some (details, parsed_abi, hashes)) \<Rightarrow>
          let b = b\<lparr>event_code_hashes := hashes\<rparr>
          in if hm_get (sol_ton_event_configurations b) acc \<noteq> None
             then (b, [], Inl EventConfigurationAlreadyExists)
             else (b\<lparr>total_active_sol_ton := total_active_sol_ton b + 1,
                     sol_ton_event_configurations :=
                       hm_insert acc \<lparr>st_details = details, st_event_abi = parsed_abi\<rparr>
                         (sol_ton_event_configurations b)\<rparr>,
                   [SubscribeAccount acc], Inr ()))"

definition add_ton_sol_event_configuration ::
  "bridge_env \<Rightarrow> u32 \<Rightarrow> uint256 \<Rightarrow> existing_contract \<Rightarrow> bridge \<Rightarrow> bridge_result"
where
  "add_ton_sol_event_configuration env current_timestamp acc contract b =
     (if \<not> sol_enabled env then (b, [], Inr ())
      else case rbind (with_context ''Failed to get TON->SOL event configuration details''
                         (ton_sol_configuration_details (abi env) contract)) (\<lambda>details.
           if ton_sol_is_expired details current_timestamp then Inr None
           else rbind (decode_ton_event_abi env (event_abi (basic_configuration details))) (\<lambda>parsed_abi.
                rbind (add_event_code_hash (repr_hash env) (event_code_hashes b)
                         (event_code (basic_configuration details)) TonSol) (\<lambda>hashes.
                  Inr (Some (details, parsed_abi, hashes))))) of
        Inl e \<Rightarrow> (b, [], Inl e)
      | Inr None \<Rightarrow> (b, [], Inr ())
      | Inr (Some (details, parsed_abi, hashes)) \<Rightarrow>
          let b = b\<lparr>event_code_hashes := hashes\<rparr>
          in if hm_get (ton_sol_event_configurations b) acc \<noteq> None
             then (b, [], Inl EventConfigurationAlreadyExists)
             else (b\<lparr>total_active_ton_sol := total_active_ton_sol b + 1,
                     ton_sol_event_configurations :=
                       hm_insert acc \<lparr>ts_details = details, ts_event_abi = parsed_abi\<rparr>
                         (ton_sol_event_configurations b)\<rparr>,
                   [SubscribeSol (tsc_program (network_configuration details)), SubscribeAccount acc],
                   Inr ()))"

definition wrap_context :: "string \<Rightarrow> bridge_result \<Rightarrow> bridge_result" where
  "wrap_context msg r = (case r of (b, effects, res) \<Rightarrow> (b, effects, with_context msg res))"

definition process_event_configuration ::
  "bridge_env \<Rightarrow> u32 \<Rightarrow> uint256 \<Rightarrow> uint256 \<Rightarrow> existing_contract \<Rightarrow> bridge \<Rightarrow> bridge_result"
where
  "process_event_configuration env current_utime connector_account configuration_account contract b =
     (case with_context ''Failed to get event configuration type'' (get_type (abi env) contract) of
        Inl e \<Rightarrow> (b, [], Inl e)
      | Inr event_type \<Rightarrow>
          if hm_get (connectors b) connector_account = None then (b, [], Inl UnknownConnector)
          else (case event_type of
              EthTon \<Rightarrow> wrap_context ''Failed to add ETH event configuration''
                (add_eth_ton_event_configuration env configuration_account contract b)
            | TonEth \<Rightarrow> wrap_context ''Failed to add TON->ETH event configuration''
                (add_ton_eth_event_configuration env current_utime configuration_account contract b)
            | SolTon \<Rightarrow> wrap_context ''Failed to add SOL->TON event configuration''
                (add_sol_ton_event_configuration env current_utime configuration_account contract b)
            | TonSol \<Rightarrow> wrap_context ''Failed to add TON->SOL event configuration''
                (add_ton_sol_event_configuration env current_utime configuration_account contract b)))"

subsection \<open>Connectors\<close>

text \<open>
  \<open>check_connector_contract\<close>: the waits for the two contracts are the argument
  \<open>wait_contract_state\<close>; the state is locked only after them, so it is the state at that time.
\<close>

definition check_connector_contract ::
  "bridge_env \<Rightarrow> u32 \<Rightarrow> (uint256 \<Rightarrow> existing_contract res) \<Rightarrow> uint256 \<Rightarrow> bridge \<Rightarrow> bridge_result"
where
  "check_connector_contract env current_utime wait_contract_state connector_account b =
     (case rbind (wait_contract_state connector_account) (\<lambda>contract.
           rbind (connector_get_details (abi env) contract) (\<lambda>details.
             if \<not> enabled details then Inr None
             else rbind (wait_contract_state (event_configuration details)) (\<lambda>contract.
               Inr (Some (event_configuration details, contract))))) of
        Inl e \<Rightarrow> (b, [], Inl e)
      | Inr None \<Rightarrow> (b, [], Inr ())
      | Inr (Some (configuration, contract)) \<Rightarrow>
          process_event_configuration env current_utime connector_account configuration contract b)"

datatype bridge_event = ConnectorDeployed connector_deployed_event

fun process_bridge_event :: "bridge_event \<Rightarrow> bridge \<Rightarrow> bridge_result" where
  "process_bridge_event (ConnectorDeployed ev) b =
     (if hm_get (connectors b) (connector ev) = None
      then (b\<lparr>connectors := hm_insert (connector ev) () (connectors b)\<rparr>,
            [SubscribeAccount (connector ev), SpawnCheckConnector (connector ev)], Inr ())
      else (b, [], Inr ()))"

datatype connector_event = Enable

fun process_connector_event ::
  "bridge_env \<Rightarrow> u32 \<Rightarrow> (uint256 \<Rightarrow> existing_contract res) \<Rightarrow> uint256 \<Rightarrow> connector_event \<Rightarrow> bridge \<Rightarrow> bridge_result"
where
  "process_connector_event env current_utime wait_contract_state connector_account Enable b =
     check_connector_contract env current_utime wait_contract_state connector_account b"

text \<open>
  \<open>get_all_configurations\<close> at start-up: the connectors are enumerated by the bridge contract, and
  looked up in the accounts of all shards. Failing to derive or look up an address ends the
  start-up; a connector or configuration that cannot be read is skipped.
\<close>

fun load_connectors ::
  "bridge_env \<Rightarrow> u32 \<Rightarrow> (uint256 \<Rightarrow> existing_contract option res) \<Rightarrow> existing_contract \<Rightarrow>
     u64 list \<Rightarrow> bridge \<Rightarrow> bridge_result"
where
  "load_connectors env current_utime find_acc bridge_contract [] b = (b, [], Inr ())"
| "load_connectors env current_utime find_acc bridge_contract (num # nums) b =
     (case rbind (with_context ''Failed to derive connector address''
                    (derive_connector_address (abi env) bridge_contract num)) (\<lambda>connector_account.
           rbind (find_acc connector_account) (\<lambda>contract. Inr (connector_account, contract))) of
        Inl e \<Rightarrow> (b, [], Inl e)
      | Inr (connector_account, None) \<Rightarrow> load_connectors env current_utime find_acc bridge_contract nums b
      | Inr (connector_account, Some contract) \<Rightarrow>
          (case connector_get_details (abi env) contract of
             Inl e \<Rightarrow> load_connectors env current_utime find_acc bridge_contract nums b
           | Inr details \<Rightarrow>
               let b = b\<lparr>connectors := hm_insert connector_account () (connectors b)\<rparr>;
                   (b, effects, stop) =
                     (if \<not> enabled details then (b, [], Inr ())
                      else (case find_acc (event_configuration details) of
                              Inl e \<Rightarrow> (b, [], Inl e)
                            | Inr None \<Rightarrow> (b, [], Inr ())
                            | Inr (Some configuration_contract) \<Rightarrow>
                                (case process_event_configuration env current_utime connector_account
                                        (event_configuration details) configuration_contract b of
                                   (b, effects, _) \<Rightarrow> (b, effects, Inr ()))))
               in (case stop of
                     Inl e \<Rightarrow> (b, SubscribeAccount connector_account # effects, Inl e)
                   | Inr _ \<Rightarrow>
                       (case load_connectors env current_utime find_acc bridge_contract nums b of
                          (b, rest, r) \<Rightarrow> (b, SubscribeAccount connector_account # effects @ rest, r)))))"

definition get_all_configurations ::
  "bridge_env \<Rightarrow> u32 \<Rightarrow> (uint256 \<Rightarrow> existing_contract option res) res \<Rightarrow> uint256 \<Rightarrow> bridge \<Rightarrow> bridge_result"
where
  "get_all_configurations env current_utime shard_accounts bridge_account b =
     (case rbind shard_accounts (\<lambda>find_acc.
           rbind (rbind (find_acc bridge_account) (ok_or BridgeAccountNotFound)) (\<lambda>contract.
           rbind (with_context ''Failed to get connector count'' (connector_counter (abi env) contract))
             (\<lambda>connector_count. Inr (find_acc, contract, connector_count)))) of
        Inl e \<Rightarrow> (b, [], Inl e)
      | Inr (find_acc, contract, connector_count) \<Rightarrow>
          load_connectors env current_utime find_acc contract (map of_nat [0..<unat connector_count]) b)"

subsection \<open>Events of the configurations\<close>

datatype eth_ton_configuration_event = EthTonEventsDeployed "uint256 list" | EthTonSetEndBlockNumber u32
datatype ton_eth_configuration_event = TonEthEventDeployed uint256 | TonEthSetEndTimestamp u32
datatype sol_ton_configuration_event = SolTonEventsDeployed "uint256 list" | SolTonSetEndTimestamp u64
datatype ton_sol_configuration_event = TonSolEventDeployed uint256 | TonSolSetEndTimestamp u32

fun deploy_events :: "event_type \<Rightarrow> uint256 list \<Rightarrow> events_state \<Rightarrow> events_state \<times> bridge_effect list" where
  "deploy_events kind [] st = (st, [])"
| "deploy_events kind (acc # events) st =
     (case add_pending_event acc st of
        (new, st, subscribed) \<Rightarrow>
          (case deploy_events kind events st of
             (st, effects) \<Rightarrow> (st, (if new then subscribed @ [SpawnPreprocess kind acc] else []) @ effects)))"

definition process_eth_ton_event_configuration_event ::
  "uint256 \<Rightarrow> eth_ton_configuration_event \<Rightarrow> bridge \<Rightarrow> bridge_result" where
  "process_eth_ton_event_configuration_event acc event b =
     (case event of
        EthTonEventsDeployed events \<Rightarrow>
          (case deploy_events EthTon events (eth_ton_events_state b) of
             (st, effects) \<Rightarrow> (b\<lparr>eth_ton_events_state := st\<rparr>, effects, Inr ()))
      | EthTonSetEndBlockNumber end_block \<Rightarrow>
          (case hm_get (eth_ton_event_configurations b) acc of
             None \<Rightarrow> (b, [], Inl UnknownConfiguration)
           | Some c \<Rightarrow>
               (b\<lparr>eth_ton_event_configurations := hm_insert acc
                    (c\<lparr>et_details := (et_details c)\<lparr>network_configuration :=
                        (network_configuration (et_details c))\<lparr>end_block_number := end_block\<rparr>\<rparr>\<rparr>)
                    (eth_ton_event_configurations b)\<rparr>, [], Inr ())))"

definition process_ton_eth_event_configuration_event ::
  "uint256 \<Rightarrow> ton_eth_configuration_event \<Rightarrow> bridge \<Rightarrow> bridge_result" where
  "process_ton_eth_event_configuration_event acc event b =
     (case event of
        TonEthEventDeployed address \<Rightarrow>
          (case deploy_events TonEth [address] (ton_eth_events_state b) of
             (st, effects) \<Rightarrow> (b\<lparr>ton_eth_events_state := st\<rparr>, effects, Inr ()))
      | TonEthSetEndTimestamp end_timestamp \<Rightarrow>
          (case hm_get (ton_eth_event_configurations b) acc of
             None \<Rightarrow> (b, [], Inl UnknownConfiguration)
           | Some c \<Rightarrow>
               (b\<lparr>ton_eth_event_configurations := hm_insert acc
                    (c\<lparr>te_details := (te_details c)\<lparr>network_configuration :=
                        (network_configuration (te_details c))\<lparr>tec_end_timestamp := end_timestamp\<rparr>\<rparr>\<rparr>)
                    (ton_eth_event_configurations b)\<rparr>, [], Inr ())))"

definition process_sol_ton_event_configuration_event ::
  "uint256 \<Rightarrow> sol_ton_configuration_event \<Rightarrow> bridge \<Rightarrow> bridge_result" where
  "process_sol_ton_event_configuration_event acc event b =
     (case event of
        SolTonEventsDeployed events \<Rightarrow>
          (case deploy_events SolTon events (sol_ton_events_state b) of
             (st, effects) \<Rightarrow> (b\<lparr>sol_ton_events_state := st\<rparr>, effects, Inr ()))
      | SolTonSetEndTimestamp end_timestamp \<Rightarrow>
          (case hm_get (sol_ton_event_configurations b) acc of
             None \<Rightarrow> (b, [], Inl UnknownConfiguration)
           | Some c \<Rightarrow>
               (b\<lparr>sol_ton_event_configurations := hm_insert acc
                    (c\<lparr>st_details := (st_details c)\<lparr>network_configuration :=
                        (network_configuration (st_details c))\<lparr>stc_end_timestamp := end_timestamp\<rparr>\<rparr>\<rparr>)
                    (sol_ton_event_configurations b)\<rparr>, [], Inr ())))"

definition process_ton_sol_event_configuration_event ::
  "uint256 \<Rightarrow> ton_sol_configuration_event \<Rightarrow> bridge \<Rightarrow> bridge_result" where
  "process_ton_sol_event_configuration_event acc event b =
     (case event of
        TonSolEventDeployed address \<Rightarrow>
          (case deploy_events TonSol [address] (ton_sol_events_state b) of
             (st, effects) \<Rightarrow> (b\<lparr>ton_sol_events_state := st\<rparr>, effects, Inr ()))
      | TonSolSetEndTimestamp end_timestamp \<Rightarrow>
          (case hm_get (ton_sol_event_configurations b) acc of
             None \<Rightarrow> (b, [], Inl UnknownConfiguration)
           | Some c \<Rightarrow>
               (b\<lparr>ton_sol_event_configurations := hm_insert acc
                    (c\<lparr>ts_details := (ts_details c)\<lparr>network_configuration :=
                        (network_configuration (ts_details c))\<lparr>tsc_end_timestamp := end_timestamp\<rparr>\<rparr>\<rparr>)
                    (ton_sol_event_configurations b)\<rparr>, [], Inr ())))"

subsection \<open>Collecting expired configurations\<close>

definition has_expired_ton_eth_event_configurations :: "bridge \<Rightarrow> u32 \<Rightarrow> bool" where
  "has_expired_ton_eth_event_configurations b now \<longleftrightarrow>
     list_ex (\<lambda>(_, c). ton_eth_is_expired (te_details c) now) (ton_eth_event_configurations b)"

definition has_expired_ton_sol_event_configurations :: "bridge \<Rightarrow> u32 \<Rightarrow> bool" where
  "has_expired_ton_sol_event_configurations b now \<longleftrightarrow>
     list_ex (\<lambda>(_, c). ton_sol_is_expired (ts_details c) now) (ton_sol_event_configurations b)"

definition has_expired_sol_ton_event_configurations :: "bridge \<Rightarrow> u32 \<Rightarrow> bool" where
  "has_expired_sol_ton_event_configurations b now \<longleftrightarrow>
     list_ex (\<lambda>(_, c). sol_ton_is_expired (st_details c) (ucast now)) (sol_ton_event_configurations b)"

text \<open>
  One round of \<open>start_event_configurations_gc\<close>. The three checks read the state at their own
  times, and waiting for the shards (\<open>shards\<close>: the time of the found blocks, and the results
  of waiting for their states) takes long, so the check and the removal see different states.
\<close>

definition remove_expired_configurations :: "u32 \<Rightarrow> bridge \<Rightarrow> bridge" where
  "remove_expired_configurations current_utime b =
     (let keep = hm_retain (\<lambda>_ c. \<not> ton_eth_is_expired (te_details c) current_utime)
                   (ton_eth_event_configurations b);
          b = b\<lparr>total_active_ton_eth := total_active_ton_eth b
                  - of_nat (length (ton_eth_event_configurations b) - length keep),
                ton_eth_event_configurations := keep\<rparr>;
          keep = hm_retain (\<lambda>_ c. \<not> ton_sol_is_expired (ts_details c) current_utime)
                   (ton_sol_event_configurations b);
          b = b\<lparr>total_active_ton_sol := total_active_ton_sol b
                  - of_nat (length (ton_sol_event_configurations b) - length keep),
                ton_sol_event_configurations := keep\<rparr>;
          keep = hm_retain (\<lambda>_ c. \<not> sol_ton_is_expired (st_details c) (ucast current_utime))
                   (sol_ton_event_configurations b)
      in b\<lparr>total_active_sol_ton := total_active_sol_ton b
             - of_nat (length (sol_ton_event_configurations b) - length keep),
           sol_ton_event_configurations := keep\<rparr>)"

definition gc_round :: "u32 \<Rightarrow> bridge \<Rightarrow> (u32 \<times> unit res list) res \<Rightarrow> bridge \<Rightarrow> bridge" where
  "gc_round current_utime seen shards b =
     (if \<not> has_expired_ton_eth_event_configurations seen current_utime
         \<and> \<not> has_expired_ton_sol_event_configurations seen current_utime
         \<and> \<not> has_expired_sol_ton_event_configurations seen current_utime
      then b
      else (case shards of
              Inl e \<Rightarrow> b
            | Inr (shards_utime, states) \<Rightarrow>
                if list_ex (\<lambda>r. case r of Inl _ \<Rightarrow> True | Inr _ \<Rightarrow> False) states then b
                else remove_expired_configurations shards_utime b))"

subsection \<open>The invariant\<close>

text \<open>
  Keys are distinct, each activity counter is the number of configurations of its direction,
  and the event code of every configuration is registered for its direction.
\<close>

definition bridge_inv :: "bridge \<Rightarrow> bool" where
  "bridge_inv b \<longleftrightarrow>
     hm_wf (connectors b) \<and> hm_wf (event_code_hashes b) \<and>
     hm_wf (eth_ton_event_configurations b) \<and> hm_wf (ton_eth_event_configurations b) \<and>
     hm_wf (sol_ton_event_configurations b) \<and> hm_wf (ton_sol_event_configurations b) \<and>
     total_active_eth_ton b = of_nat (length (eth_ton_event_configurations b)) \<and>
     total_active_ton_eth b = of_nat (length (ton_eth_event_configurations b)) \<and>
     total_active_sol_ton b = of_nat (length (sol_ton_event_configurations b)) \<and>
     total_active_ton_sol b = of_nat (length (ton_sol_event_configurations b)) \<and>
     events_inv (eth_ton_events_state b) \<and> events_inv (ton_eth_events_state b) \<and>
     events_inv (sol_ton_events_state b) \<and> events_inv (ton_sol_events_state b)"

definition registered :: "(cell \<Rightarrow> uint256) \<Rightarrow> (uint256, event_type) hashmap \<Rightarrow> event_type \<Rightarrow> 'n event_configuration_details \<Rightarrow> bool" where
  "registered hash hashes kind details \<longleftrightarrow>
     hm_get hashes (hash (event_code (basic_configuration details))) = Some kind"

definition codes_registered :: "(cell \<Rightarrow> uint256) \<Rightarrow> bridge \<Rightarrow> bool" where
  "codes_registered hash b \<longleftrightarrow>
     (\<forall>acc c. hm_get (eth_ton_event_configurations b) acc = Some c \<longrightarrow>
        registered hash (event_code_hashes b) EthTon (et_details c)) \<and>
     (\<forall>acc c. hm_get (ton_eth_event_configurations b) acc = Some c \<longrightarrow>
        registered hash (event_code_hashes b) TonEth (te_details c)) \<and>
     (\<forall>acc c. hm_get (sol_ton_event_configurations b) acc = Some c \<longrightarrow>
        registered hash (event_code_hashes b) SolTon (st_details c)) \<and>
     (\<forall>acc c. hm_get (ton_sol_event_configurations b) acc = Some c \<longrightarrow>
        registered hash (event_code_hashes b) TonSol (ts_details c))"

interpretation eth_ton_configurations: counted_registry
    bridge_inv eth_ton_event_configurations total_active_eth_ton
  by unfold_locales (simp_all add: bridge_inv_def)

interpretation ton_eth_configurations: counted_registry
    bridge_inv ton_eth_event_configurations total_active_ton_eth
  by unfold_locales (simp_all add: bridge_inv_def)

interpretation sol_ton_configurations: counted_registry
    bridge_inv sol_ton_event_configurations total_active_sol_ton
  by unfold_locales (simp_all add: bridge_inv_def)

interpretation ton_sol_configurations: counted_registry
    bridge_inv ton_sol_event_configurations total_active_ton_sol
  by unfold_locales (simp_all add: bridge_inv_def)

text \<open>Registering a code hash extends the map and never changes an entry.\<close>

lemma add_event_code_hash_Inr:
  assumes "add_event_code_hash hash hashes code kind = Inr hashes'"
  shows "hm_get hashes' (hash code) = Some kind"
    and "hm_get hashes h = Some k \<Longrightarrow> hm_get hashes' h = Some k"
    and "hm_wf hashes \<Longrightarrow> hm_wf hashes'"
  using assms by (auto simp: add_event_code_hash_def hm_simps split: option.split_asm if_split_asm)

lemma registered_mono:
  "registered hash hashes kind d \<Longrightarrow> add_event_code_hash hash hashes code kind' = Inr hashes' \<Longrightarrow>
     registered hash hashes' kind d"
  unfolding registered_def by (rule add_event_code_hash_Inr(2))

text \<open>What adding a configuration may do to the bridge.\<close>

definition extends :: "(cell \<Rightarrow> uint256) \<Rightarrow> bridge \<Rightarrow> bridge \<Rightarrow> bool" where
  "extends hash b b' \<longleftrightarrow>
     (bridge_inv b \<longrightarrow> bridge_inv b') \<and> (codes_registered hash b \<longrightarrow> codes_registered hash b') \<and>
     (\<forall>h k. hm_get (event_code_hashes b) h = Some k \<longrightarrow> hm_get (event_code_hashes b') h = Some k)"

lemma extends_refl [simp, intro]: "extends hash b b"
  by (simp add: extends_def)

lemma extends_trans [trans]: "extends hash b b' \<Longrightarrow> extends hash b' b'' \<Longrightarrow> extends hash b b''"
  unfolding extends_def by blast

lemma extends_hashes:
  assumes "add_event_code_hash hash (event_code_hashes b) code kind = Inr hashes"
  shows "extends hash b (b\<lparr>event_code_hashes := hashes\<rparr>)"
proof -
  have "registered hash hashes k d" if "registered hash (event_code_hashes b) k d" for k and d :: "'n event_configuration_details"
    using registered_mono [OF that assms] .
  then show ?thesis
    using add_event_code_hash_Inr [OF assms] registered_mono [OF _ assms]
    unfolding extends_def bridge_inv_def codes_registered_def by (auto intro: registered_mono [OF _ assms])
qed

lemmas insert_simps = extends_def bridge_inv_def codes_registered_def hm_get_insert hm_length_insert_new

lemma extends_insert_eth_ton:
  assumes "add_event_code_hash hash (event_code_hashes b) (event_code (basic_configuration (et_details c))) EthTon = Inr hashes"
    and "hm_get (eth_ton_event_configurations b) acc = None"
  shows "extends hash b (b\<lparr>event_code_hashes := hashes, total_active_eth_ton := total_active_eth_ton b + 1,
     eth_ton_event_configurations := hm_insert acc c (eth_ton_event_configurations b)\<rparr>)"
proof -
  have "registered hash hashes EthTon (et_details c)"
    unfolding registered_def by (rule add_event_code_hash_Inr(1) [OF assms(1)])
  with assms(2) have "extends hash (b\<lparr>event_code_hashes := hashes\<rparr>) (b\<lparr>event_code_hashes := hashes,
     total_active_eth_ton := total_active_eth_ton b + 1,
     eth_ton_event_configurations := hm_insert acc c (eth_ton_event_configurations b)\<rparr>)"
    by (simp add: insert_simps)
  with extends_hashes [OF assms(1)] show ?thesis by (rule extends_trans)
qed

lemma extends_insert_ton_eth:
  assumes "add_event_code_hash hash (event_code_hashes b) (event_code (basic_configuration (te_details c))) TonEth = Inr hashes"
    and "hm_get (ton_eth_event_configurations b) acc = None"
  shows "extends hash b (b\<lparr>event_code_hashes := hashes, total_active_ton_eth := total_active_ton_eth b + 1,
     ton_eth_event_configurations := hm_insert acc c (ton_eth_event_configurations b)\<rparr>)"
proof -
  have "registered hash hashes TonEth (te_details c)"
    unfolding registered_def by (rule add_event_code_hash_Inr(1) [OF assms(1)])
  with assms(2) have "extends hash (b\<lparr>event_code_hashes := hashes\<rparr>) (b\<lparr>event_code_hashes := hashes,
     total_active_ton_eth := total_active_ton_eth b + 1,
     ton_eth_event_configurations := hm_insert acc c (ton_eth_event_configurations b)\<rparr>)"
    by (simp add: insert_simps)
  with extends_hashes [OF assms(1)] show ?thesis by (rule extends_trans)
qed

lemma extends_insert_sol_ton:
  assumes "add_event_code_hash hash (event_code_hashes b) (event_code (basic_configuration (st_details c))) SolTon = Inr hashes"
    and "hm_get (sol_ton_event_configurations b) acc = None"
  shows "extends hash b (b\<lparr>event_code_hashes := hashes, total_active_sol_ton := total_active_sol_ton b + 1,
     sol_ton_event_configurations := hm_insert acc c (sol_ton_event_configurations b)\<rparr>)"
proof -
  have "registered hash hashes SolTon (st_details c)"
    unfolding registered_def by (rule add_event_code_hash_Inr(1) [OF assms(1)])
  with assms(2) have "extends hash (b\<lparr>event_code_hashes := hashes\<rparr>) (b\<lparr>event_code_hashes := hashes,
     total_active_sol_ton := total_active_sol_ton b + 1,
     sol_ton_event_configurations := hm_insert acc c (sol_ton_event_configurations b)\<rparr>)"
    by (simp add: insert_simps)
  with extends_hashes [OF assms(1)] show ?thesis by (rule extends_trans)
qed

lemma extends_insert_ton_sol:
  assumes "add_event_code_hash hash (event_code_hashes b) (event_code (basic_configuration (ts_details c))) TonSol = Inr hashes"
    and "hm_get (ton_sol_event_configurations b) acc = None"
  shows "extends hash b (b\<lparr>event_code_hashes := hashes, total_active_ton_sol := total_active_ton_sol b + 1,
     ton_sol_event_configurations := hm_insert acc c (ton_sol_event_configurations b)\<rparr>)"
proof -
  have "registered hash hashes TonSol (ts_details c)"
    unfolding registered_def by (rule add_event_code_hash_Inr(1) [OF assms(1)])
  with assms(2) have "extends hash (b\<lparr>event_code_hashes := hashes\<rparr>) (b\<lparr>event_code_hashes := hashes,
     total_active_ton_sol := total_active_ton_sol b + 1,
     ton_sol_event_configurations := hm_insert acc c (ton_sol_event_configurations b)\<rparr>)"
    by (simp add: insert_simps)
  with extends_hashes [OF assms(1)] show ?thesis by (rule extends_trans)
qed

lemma add_eth_ton_extends:
  "extends (repr_hash env) b (fst (add_eth_ton_event_configuration env acc contract b))"
  unfolding add_eth_ton_event_configuration_def
  by (auto simp: Let_def rbind_eq_Inr_iff split: sum.split option.split if_split_asm
      intro!: extends_insert_eth_ton extends_hashes)

lemma add_ton_eth_extends:
  "extends (repr_hash env) b (fst (add_ton_eth_event_configuration env now acc contract b))"
  unfolding add_ton_eth_event_configuration_def
  by (auto simp: Let_def rbind_eq_Inr_iff split: sum.split option.split if_split_asm
      intro!: extends_insert_ton_eth extends_hashes)

lemma add_sol_ton_extends:
  "extends (repr_hash env) b (fst (add_sol_ton_event_configuration env now acc contract b))"
  unfolding add_sol_ton_event_configuration_def
  by (auto simp: Let_def rbind_eq_Inr_iff split: sum.split option.split if_split_asm
      intro!: extends_insert_sol_ton extends_hashes)

lemma add_ton_sol_extends:
  "extends (repr_hash env) b (fst (add_ton_sol_event_configuration env now acc contract b))"
  unfolding add_ton_sol_event_configuration_def
  by (auto simp: Let_def rbind_eq_Inr_iff split: sum.split option.split if_split_asm
      intro!: extends_insert_ton_sol extends_hashes)

lemma wrap_context_fst [simp]: "fst (wrap_context msg r) = fst r"
  by (cases r) (simp add: wrap_context_def)

lemma process_event_configuration_extends:
  "extends (repr_hash env) b (fst (process_event_configuration env now connector_account acc contract b))"
  unfolding process_event_configuration_def
  by (auto simp: add_eth_ton_extends add_ton_eth_extends add_sol_ton_extends add_ton_sol_extends
      split: sum.split event_type.split)

lemma extends_connector: "extends hash b (b\<lparr>connectors := hm_insert acc () (connectors b)\<rparr>)"
  by (simp add: extends_def bridge_inv_def codes_registered_def)

lemma check_connector_extends:
  "extends (repr_hash env) b (fst (check_connector_contract env now wait acc b))"
  unfolding check_connector_contract_def
  by (auto simp: process_event_configuration_extends split: sum.split option.split)

lemma load_connectors_extends:
  "extends (repr_hash env) b (fst (load_connectors env now find_acc contract nums b))"
proof (induction nums arbitrary: b)
  case (Cons num nums)
  note conf = extends_trans [OF extends_connector process_event_configuration_extends]
  show ?case
    by (auto simp: Let_def split: sum.split option.split prod.split
        intro: Cons.IH extends_connector extends_trans [OF extends_connector]
          extends_trans [OF extends_connector Cons.IH]
        dest!: arg_cong [where f = fst])
      (metis Cons.IH conf extends_trans fst_conv)+
qed simp

lemma get_all_configurations_extends:
  "extends (repr_hash env) b (fst (get_all_configurations env now shard_accounts acc b))"
  unfolding get_all_configurations_def
  by (auto simp: load_connectors_extends split: sum.split)

lemma deploy_events_inv: "events_inv st \<Longrightarrow> events_inv (fst (deploy_events kind events st))"
proof (induction events arbitrary: st)
  case (Cons acc events)
  obtain new st1 sub where add: "add_pending_event acc st = (new, st1, sub)"
    by (cases "add_pending_event acc st") auto
  then have "events_inv st1" using events_inv_add [OF Cons.prems, of acc] by simp
  from Cons.IH [OF this] add show ?case by (auto split: prod.split)
qed simp

lemma deploy_events_get:
  "hm_get (pending (fst (deploy_events kind events st))) acc =
     (if acc \<in> set events \<and> hm_get (pending st) acc = None then Some \<lparr>processing_started = False\<rparr>
      else hm_get (pending st) acc)"
proof (induction events arbitrary: st)
  case (Cons a events)
  obtain new st1 sub where add: "add_pending_event a st = (new, st1, sub)"
    by (cases "add_pending_event a st") auto
  with pending_add [of a st acc] Cons.IH [of st1] show ?case by (auto split: prod.split)
qed simp

text \<open>Changing a configuration in place keeps the counters and the registered codes.\<close>

lemmas update_simps = bridge_inv_def codes_registered_def registered_def hm_get_insert hm_length_insert_old

lemma eth_ton_configuration_event_inv:
  "bridge_inv b \<Longrightarrow> bridge_inv (fst (process_eth_ton_event_configuration_event acc ev b))"
  "codes_registered hash b \<Longrightarrow> codes_registered hash (fst (process_eth_ton_event_configuration_event acc ev b))"
  by (auto simp: process_eth_ton_event_configuration_event_def update_simps deploy_events_inv
      split: eth_ton_configuration_event.split prod.split option.split)
    (metis deploy_events_inv fst_conv)

lemma ton_eth_configuration_event_inv:
  "bridge_inv b \<Longrightarrow> bridge_inv (fst (process_ton_eth_event_configuration_event acc ev b))"
  "codes_registered hash b \<Longrightarrow> codes_registered hash (fst (process_ton_eth_event_configuration_event acc ev b))"
  by (auto simp: process_ton_eth_event_configuration_event_def update_simps simp del: deploy_events.simps
      split: ton_eth_configuration_event.split prod.split option.split)
    (metis deploy_events_inv fst_conv)

lemma sol_ton_configuration_event_inv:
  "bridge_inv b \<Longrightarrow> bridge_inv (fst (process_sol_ton_event_configuration_event acc ev b))"
  "codes_registered hash b \<Longrightarrow> codes_registered hash (fst (process_sol_ton_event_configuration_event acc ev b))"
  by (auto simp: process_sol_ton_event_configuration_event_def update_simps
      split: sol_ton_configuration_event.split prod.split option.split)
    (metis deploy_events_inv fst_conv)

lemma ton_sol_configuration_event_inv:
  "bridge_inv b \<Longrightarrow> bridge_inv (fst (process_ton_sol_event_configuration_event acc ev b))"
  "codes_registered hash b \<Longrightarrow> codes_registered hash (fst (process_ton_sol_event_configuration_event acc ev b))"
  by (auto simp: process_ton_sol_event_configuration_event_def update_simps simp del: deploy_events.simps
      split: ton_sol_configuration_event.split prod.split option.split)
    (metis deploy_events_inv fst_conv)

subsection \<open>The collection removes exactly what has expired\<close>

lemma retained_counter:
  "n = of_nat (length m) \<Longrightarrow> n - of_nat (length m - length (hm_retain p m)) = (of_nat (length (hm_retain p m)) :: usize)"
proof -
  assume "n = of_nat (length m)"
  moreover have "length (hm_retain p m) \<le> length m" by (simp add: hm_retain_def)
  ultimately show ?thesis by (simp add: of_nat_diff)
qed

lemma remove_expired_inv:
  assumes "bridge_inv b" shows "bridge_inv (remove_expired_configurations now b)"
  using assms by (simp add: remove_expired_configurations_def Let_def bridge_inv_def retained_counter)

lemma remove_expired_codes:
  assumes "bridge_inv b" "codes_registered hash b"
  shows "codes_registered hash (remove_expired_configurations now b)"
  using assms by (auto simp: remove_expired_configurations_def Let_def bridge_inv_def codes_registered_def
      hm_get_retain split: option.split_asm if_split_asm)

lemma remove_expired_get:
  assumes "bridge_inv b"
  shows "hm_get (ton_eth_event_configurations (remove_expired_configurations now b)) acc =
      option_filter (\<lambda>c. \<not> ton_eth_is_expired (te_details c) now) (hm_get (ton_eth_event_configurations b) acc)"
    "hm_get (ton_sol_event_configurations (remove_expired_configurations now b)) acc =
      option_filter (\<lambda>c. \<not> ton_sol_is_expired (ts_details c) now) (hm_get (ton_sol_event_configurations b) acc)"
    "hm_get (sol_ton_event_configurations (remove_expired_configurations now b)) acc =
      option_filter (\<lambda>c. \<not> sol_ton_is_expired (st_details c) (ucast now)) (hm_get (sol_ton_event_configurations b) acc)"
  using assms by (simp_all add: remove_expired_configurations_def Let_def bridge_inv_def hm_get_retain_value)

lemma gc_round_inv:
  "bridge_inv b \<Longrightarrow> bridge_inv (gc_round now seen shards b)"
  "bridge_inv b \<Longrightarrow> codes_registered hash b \<Longrightarrow> codes_registered hash (gc_round now seen shards b)"
  by (auto simp: gc_round_def remove_expired_inv remove_expired_codes split: sum.split)

text \<open>The operations of the bridge in sequence are in \<open>Bridge_Run\<close>; these facts are shared by them.\<close>

lemma bridge_event_extends: "extends hash b (fst (process_bridge_event ev b))"
  by (cases ev) (auto simp: extends_connector)

lemma bridge_new_inv: "bridge_inv bridge_new \<and> codes_registered hash bridge_new"
  by (simp add: bridge_inv_def codes_registered_def bridge_new_def)

subsection \<open>Properties\<close>

text \<open>
  Adding an ETH to TON configuration: on success the configuration is stored under its
  account with the details the contract reported, the event code is registered, and the relay
  subscribes to the emitter's topic on its chain and to the account; on any error nothing is
  subscribed and no configuration changes; a code hash of another direction is an error.
\<close>

theorem eth_ton_configuration_added:
  assumes "add_eth_ton_event_configuration env acc contract b = (b', effects, r)"
  shows "(r = Inr () \<longrightarrow> (\<exists>details ctx parsed_abi.
      eth_ton_configuration_details (abi env) contract = Inr details
      \<and> eth_event_abi_new env (event_abi (basic_configuration details)) ctx = Inr parsed_abi
      \<and> hm_get (eth_ton_event_configurations b) acc = None
      \<and> hm_get (eth_ton_event_configurations b') acc =
          Some \<lparr>et_details = details, mapping_context = ctx, et_event_abi = parsed_abi\<rparr>
      \<and> hm_get (event_code_hashes b') (repr_hash env (event_code (basic_configuration details))) = Some EthTon
      \<and> eth_subscriber_exists env (etc_chain_id (network_configuration details))
      \<and> effects = [SubscribeEth (etc_chain_id (network_configuration details))
          (etc_event_emitter (network_configuration details)) (get_eth_topic_hash parsed_abi) acc,
          SubscribeAccount acc]))
    \<and> (r \<noteq> Inr () \<longrightarrow> effects = [] \<and> eth_ton_event_configurations b' = eth_ton_event_configurations b)
    \<and> (\<forall>details. eth_ton_configuration_details (abi env) contract = Inr details \<longrightarrow>
        hm_get (event_code_hashes b) (repr_hash env (event_code (basic_configuration details))) \<notin> {None, Some EthTon} \<longrightarrow>
        r \<noteq> Inr ())"
proof -
  have reg: "add_event_code_hash (repr_hash env) (event_code_hashes b) code EthTon = Inr hashes \<Longrightarrow>
      hm_get hashes (repr_hash env code) = Some EthTon
      \<and> hm_get (event_code_hashes b) (repr_hash env code) \<in> {None, Some EthTon}" for code hashes
    by (auto simp: add_event_code_hash_def hm_simps split: option.split_asm if_split_asm)
  from assms show ?thesis
    unfolding add_eth_ton_event_configuration_def
    by (auto simp: Let_def rbind_eq_Inr_iff hm_get_insert split: sum.split_asm if_split_asm dest!: reg)
qed

text \<open>
  C17: One round of the collection that gets as far as the shards removes exactly the TON to
  ETH, TON to SOL and SOL to TON configurations whose end time is set and lies before the shards'
  time, keeps the counters right, and touches nothing else; ETH to TON configurations and code
  hashes are never removed.
\<close>

theorem gc_removes_exactly_expired:
  assumes "bridge_inv b"
    and "has_expired_ton_eth_event_configurations seen now
      \<or> has_expired_ton_sol_event_configurations seen now
      \<or> has_expired_sol_ton_event_configurations seen now"
    and "shards = Inr (utime, replicate n (Inr ()))"
    and "b' = gc_round now seen shards b"
  shows "bridge_inv b'
    \<and> hm_get (ton_eth_event_configurations b') acc =
        option_filter (\<lambda>c. \<not> (tec_end_timestamp (network_configuration (te_details c)) \<noteq> 0
          \<and> tec_end_timestamp (network_configuration (te_details c)) < utime))
          (hm_get (ton_eth_event_configurations b) acc)
    \<and> hm_get (ton_sol_event_configurations b') acc =
        option_filter (\<lambda>c. \<not> (tsc_end_timestamp (network_configuration (ts_details c)) \<noteq> 0
          \<and> tsc_end_timestamp (network_configuration (ts_details c)) < utime))
          (hm_get (ton_sol_event_configurations b) acc)
    \<and> hm_get (sol_ton_event_configurations b') acc =
        option_filter (\<lambda>c. \<not> (stc_end_timestamp (network_configuration (st_details c)) \<noteq> 0
          \<and> stc_end_timestamp (network_configuration (st_details c)) < ucast utime))
          (hm_get (sol_ton_event_configurations b) acc)
    \<and> eth_ton_event_configurations b' = eth_ton_event_configurations b
    \<and> event_code_hashes b' = event_code_hashes b"
proof -
  have "\<not> list_ex (\<lambda>r. case r of Inl _ \<Rightarrow> True | Inr _ \<Rightarrow> False) (replicate n (Inr () :: unit res))"
    by (simp add: list_ex_iff)
  then have b': "b' = remove_expired_configurations utime b" using assms(2-4) by (auto simp: gc_round_def)
  have pos: "1 \<le> w \<longleftrightarrow> w \<noteq> 0" for w :: "'w :: len word"
    by (metis linorder_not_less word_less_1)
  have exp: "ton_eth_is_expired d utime \<longleftrightarrow> tec_end_timestamp (network_configuration d) \<noteq> 0
      \<and> tec_end_timestamp (network_configuration d) < utime"
    "ton_sol_is_expired d' utime \<longleftrightarrow> tsc_end_timestamp (network_configuration d') \<noteq> 0
      \<and> tsc_end_timestamp (network_configuration d') < utime"
    "sol_ton_is_expired d'' (ucast utime) \<longleftrightarrow> stc_end_timestamp (network_configuration d'') \<noteq> 0
      \<and> stc_end_timestamp (network_configuration d'') < ucast utime" for d d' d''
    by (simp_all only: ton_eth_is_expired_def ton_sol_is_expired_def sol_ton_is_expired_def pos)
  have rest: "eth_ton_event_configurations b' = eth_ton_event_configurations b"
    "event_code_hashes b' = event_code_hashes b"
    by (simp_all add: b' remove_expired_configurations_def Let_def)
  show ?thesis
    using remove_expired_inv [OF assms(1)] remove_expired_get [OF assms(1), of utime acc] rest
    unfolding b' exp by simp
qed

text \<open>
  Disabling works end to end: after a configuration's own transaction sets an end time,
  the first completed collection at a later time drops the configuration, and it is kept until
  then.
\<close>

theorem disabled_configuration_collected:
  assumes "bridge_inv b" and "hm_get (ton_eth_event_configurations b) acc = Some c"
    and "end_timestamp \<noteq> 0"
    and "process_ton_eth_event_configuration_event acc (TonEthSetEndTimestamp end_timestamp) b = (b1, effects, r)"
  shows "r = Inr ()
    \<and> (\<forall>now utime. now \<le> utime \<and> end_timestamp < now \<longrightarrow>
        hm_get (ton_eth_event_configurations (gc_round now b1 (Inr (utime, [])) b1)) acc = None)
    \<and> (\<forall>now shards. (\<forall>u states. shards = Inr (u, states) \<longrightarrow> u \<le> end_timestamp) \<longrightarrow>
        hm_get (ton_eth_event_configurations (gc_round now b1 shards b1)) acc \<noteq> None)"
proof -
  define c' where "c' = c\<lparr>te_details := (te_details c)\<lparr>network_configuration :=
    (network_configuration (te_details c))\<lparr>tec_end_timestamp := end_timestamp\<rparr>\<rparr>\<rparr>"
  have r: "r = Inr ()" and b1: "b1 = fst (process_ton_eth_event_configuration_event acc (TonEthSetEndTimestamp end_timestamp) b)"
    and get: "hm_get (ton_eth_event_configurations b1) acc = Some c'"
    using assms(2,4) by (auto simp: process_ton_eth_event_configuration_event_def hm_simps c'_def)
  have inv: "bridge_inv b1" using assms(1) b1 by (simp add: ton_eth_configuration_event_inv)
  have exp: "ton_eth_is_expired (te_details c') t \<longleftrightarrow> 1 \<le> end_timestamp \<and> end_timestamp < t" for t
    by (simp add: ton_eth_is_expired_def c'_def)
  have one: "1 \<le> end_timestamp" using assms(3) by (metis linorder_not_less word_less_1)
  have seen: "has_expired_ton_eth_event_configurations b1 now" if "end_timestamp < now" for now
    using hm_get_in_set [OF get] exp [of now] one that
    by (auto simp: has_expired_ton_eth_event_configurations_def list_ex_iff)
  have gone: "hm_get (ton_eth_event_configurations (gc_round now b1 (Inr (utime, [])) b1)) acc = None"
    if "now \<le> utime" "end_timestamp < now" for now utime
    using remove_expired_get(1) [OF inv, of utime acc] get exp [of utime] one that seen [of now]
    by (simp add: gc_round_def)
  have kept: "hm_get (ton_eth_event_configurations (gc_round now b1 shards b1)) acc \<noteq> None"
    if "\<forall>u states. shards = Inr (u, states) \<longrightarrow> u \<le> end_timestamp" for now shards
    using that remove_expired_get(1) [OF inv, of _ acc] get exp
    by (auto simp: gc_round_def split: sum.split)
  show ?thesis using r gone kept by blast
qed

subsection \<open>Witnesses\<close>

definition demo_env :: bridge_env where
  "demo_env = \<lparr>abi = demo_abi, ton_feature = False, repr_hash = (\<lambda>c. c), ton_public_key = [7],
     sol_public_key = [8], sol_enabled = True, eth_subscriber_exists = (\<lambda>chain. chain = 1),
     mapping_context_from = (\<lambda>flags. \<lparr>check_token_root = (flags AND 1 = 1)\<rparr>),
     mapping_context_default = \<lparr>check_token_root = False\<rparr>,
     ton_context_from = (\<lambda>_. \<lparr>verify_token_meta = False\<rparr>),
     ton_context_default = \<lparr>verify_token_meta = False\<rparr>,
     eth_event_abi_new = (\<lambda>_ _. Inr \<lparr>get_eth_topic_hash = [9], decode_and_map = (\<lambda>b. Inr b)\<rparr>),
     decode_ton_event_abi = (\<lambda>_. Inr [])\<rparr>"

definition demo_ton_eth_configuration :: "u32 \<Rightarrow> ton_eth_event_configuration_state" where
  "demo_ton_eth_configuration end_timestamp =
     \<lparr>te_details = demo_details \<lparr>tec_event_emitter = [], tec_proxy = [6], tec_start_timestamp = 0,
        tec_end_timestamp = end_timestamp\<rparr> [9],
      te_context = \<lparr>verify_token_meta = False\<rparr>, te_event_abi = []\<rparr>"

definition demo_bridge :: "u32 \<Rightarrow> bridge" where
  "demo_bridge end_timestamp = bridge_new\<lparr>total_active_ton_eth := 1,
     ton_eth_event_configurations := [([4], demo_ton_eth_configuration end_timestamp)]\<rparr>"

lemma demo_bridge_inv: "bridge_inv (demo_bridge t)"
  by (simp add: demo_bridge_def bridge_new_def bridge_inv_def hm_wf_def)

theorem eth_ton_configuration_added_witness:
  "fst (snd (add_eth_ton_event_configuration demo_env [4] demo_contract bridge_new)) =
     [SubscribeEth 1 [5] [9] [4], SubscribeAccount [4]]"
proof -
  obtain b' effects r where run:
    "add_eth_ton_event_configuration demo_env [4] demo_contract bridge_new = (b', effects, r)"
    by (metis prod_cases3)
  have "snd (snd (add_eth_ton_event_configuration demo_env [4] demo_contract bridge_new)) = Inr ()"
    by (simp add: add_eth_ton_event_configuration_def demo_env_def demo_abi_def get_flags_def
        eth_ton_configuration_details_def call_responsible_def run_local_def demo_details_def
        add_event_code_hash_def bridge_new_def Let_def)
  moreover have "eth_ton_configuration_details (abi demo_env) demo_contract =
      Inr (demo_details \<lparr>etc_chain_id = 1, etc_event_emitter = [5],
        event_blocks_to_confirm = 12, etc_proxy = [], start_block_number = 0, end_block_number = 0\<rparr> [8])"
    by (simp add: demo_env_def demo_abi_def eth_ton_configuration_details_def call_responsible_def run_local_def)
  ultimately show ?thesis
    using eth_ton_configuration_added [OF run] run
    by (auto simp: demo_details_def demo_env_def)
qed

theorem gc_removes_exactly_expired_witness:
  "hm_get (ton_eth_event_configurations
     (gc_round 100 (demo_bridge 50) (Inr (101, [Inr ()])) (demo_bridge 50))) [4] = None"
proof -
  have "has_expired_ton_eth_event_configurations (demo_bridge 50) 100"
    by (simp add: has_expired_ton_eth_event_configurations_def demo_bridge_def
        demo_ton_eth_configuration_def demo_details_def ton_eth_is_expired_def)
  then show ?thesis
    using gc_removes_exactly_expired [OF demo_bridge_inv [of 50], of "demo_bridge 50" 100
        "Inr (101, replicate 1 (Inr ()))" 101 1 _ "[4]"]
    by (simp add: demo_bridge_def demo_ton_eth_configuration_def demo_details_def)
qed

theorem disabled_configuration_collected_witness:
  "hm_get (ton_eth_event_configurations (gc_round 100
     (fst (process_ton_eth_event_configuration_event [4] (TonEthSetEndTimestamp 60) (demo_bridge 0)))
     (Inr (100, []))
     (fst (process_ton_eth_event_configuration_event [4] (TonEthSetEndTimestamp 60) (demo_bridge 0))))) [4] = None"
proof -
  obtain b1 effects r where run:
    "process_ton_eth_event_configuration_event [4] (TonEthSetEndTimestamp 60) (demo_bridge 0) = (b1, effects, r)"
    by (metis prod_cases3)
  have "hm_get (ton_eth_event_configurations (demo_bridge 0)) [4] = Some (demo_ton_eth_configuration 0)"
    by (simp add: demo_bridge_def)
  from disabled_configuration_collected [OF demo_bridge_inv this _ run] show ?thesis
    unfolding run by simp
qed

end
