(* ===== verification/Oneshot.thy ===== *)
theory Oneshot
  imports "HOL-Library.Multiset" Prelude
begin

section \<open>Registries of one-shot channels\<close>

text \<open>
  The queue of external messages and the pending confirmations of the two subscribers keep
  one-shot senders in a map: an operation may store the sender of a fresh channel, answer
  a stored one (\<open>Some\<close>), or drop it unanswered (\<open>None\<close>, the receiver gets an error). The contract
  they share is conservation: what waits after an operation and what it answered or dropped
  is what waited before it and what it opened.
\<close>

lemma mset_insert_new: "hm_get m k = None \<Longrightarrow> mset (hm_insert k v m) = add_mset (k, v) (mset m)"
  by (induction m) (auto split: if_splits)

lemma mset_remove_old:
  assumes "hm_wf m" "hm_get m k = Some v"
  shows "mset m = add_mset (k, v) (mset (hm_remove k m))"
  using assms
proof (induction m)
  case (Cons e m)
  obtain k' w where e: "e = (k', w)" by (cases e)
  show ?case
  proof (cases "k' = k")
    case True
    with Cons.prems e have "hm_get m k = None"
      by (auto simp: hm_wf_def map_of_eq_None_iff)
    with True e Cons.prems show ?thesis by (simp add: hm_remove_absent)
  next
    case False
    with Cons e show ?thesis by (simp add: hm_wf_def)
  qed
qed simp

lemma set_insert_new: "hm_get m k = None \<Longrightarrow> set (hm_insert k v m) = insert (k, v) (set m)"
  using mset_insert_new by (metis set_mset_add_mset_insert set_mset_mset)

lemma set_remove_old: "hm_wf m \<Longrightarrow> hm_get m k = Some v \<Longrightarrow> set m = insert (k, v) (set (hm_remove k m))"
  using mset_remove_old by (metis set_mset_add_mset_insert set_mset_mset)

lemma mset_filter_split: "mset (filter p xs) + mset (filter (Not \<circ> p) xs) = mset xs"
  by (induction xs) auto

lemma mset_insert: "hm_wf m \<Longrightarrow> mset (hm_insert k v m) = add_mset (k, v) (mset (hm_remove k m))"
proof (induction m)
  case (Cons e m)
  obtain k' w where e: "e = (k', w)" by (cases e)
  show ?case
  proof (cases "k' = k")
    case True
    with Cons.prems e have "hm_get m k = None" by (auto simp: hm_wf_def map_of_eq_None_iff)
    with True e show ?thesis by (simp add: hm_remove_absent)
  next
    case False
    with Cons e show ?thesis by (simp add: hm_wf_def)
  qed
qed simp

subsection \<open>Maps whose values hold a sender\<close>

definition has_senders :: "('v \<Rightarrow> 'c option) \<Rightarrow> ('k, 'v) hashmap \<Rightarrow> bool" where
  "has_senders sender m \<longleftrightarrow> hm_wf m \<and> (\<forall>(_, v) \<in> set m. sender v \<noteq> None)"

definition senders :: "('v \<Rightarrow> 'c option) \<Rightarrow> ('k, 'v) hashmap \<Rightarrow> 'c multiset" where
  "senders sender m = image_mset (\<lambda>(_, v). the (sender v)) (mset m)"

lemma senders_simps [simp]:
  "senders sender [] = {#}"
  "senders sender ((k, v) # m) = add_mset (the (sender v)) (senders sender m)"
  by (simp_all add: senders_def)

lemma has_senders_Nil [simp]: "has_senders sender []"
  by (simp add: has_senders_def)

lemma has_senders_wf: "has_senders sender m \<Longrightarrow> hm_wf m"
  by (simp add: has_senders_def)

lemma has_senders_get: "has_senders sender m \<Longrightarrow> hm_get m k = Some v \<Longrightarrow> \<exists>c. sender v = Some c"
  by (auto simp: has_senders_def dest!: map_of_SomeD)

lemma has_senders_remove: "has_senders sender m \<Longrightarrow> has_senders sender (hm_remove k m)"
  by (auto simp: has_senders_def AList.delete_eq hm_wf_def distinct_map_filter_fst)

lemma hm_insert_subset: "set (hm_insert k v m) \<subseteq> insert (k, v) (set m)"
  by (induction m) auto

lemma has_senders_insert:
  assumes "has_senders sender m" "sender v \<noteq> None"
  shows "has_senders sender (hm_insert k v m)"
  using assms hm_insert_subset [of k v m] by (fastforce simp: has_senders_def)

lemma senders_remove:
  assumes "has_senders sender m" "hm_get m k = Some v" "sender v = Some c"
  shows "senders sender m = add_mset c (senders sender (hm_remove k m))"
  using mset_remove_old [OF has_senders_wf [OF assms(1)] assms(2)] assms(3) by (simp add: senders_def)

lemma senders_insert: "hm_wf m \<Longrightarrow>
  senders sender (hm_insert k v m) = add_mset (the (sender v)) (senders sender (hm_remove k m))"
  by (simp add: senders_def mset_insert)

lemma mset_chain:
  fixes m :: "'a multiset"
  shows "m1 + sent1 = m \<Longrightarrow> m2 + sent2 = m1 \<Longrightarrow> m2 + (sent1 + sent2) = m"
  by (metis add.assoc add.commute)

subsection \<open>Runs and the contract\<close>

fun run_ops :: "('op \<Rightarrow> 's \<Rightarrow> 's \<times> 'o list) \<Rightarrow> 'op list \<Rightarrow> 's \<Rightarrow> 's \<times> 'o list" where
  "run_ops step [] s = (s, [])"
| "run_ops step (op # ops) s =
     (case step op s of (s1, out1) \<Rightarrow> (case run_ops step ops s1 of (s2, out2) \<Rightarrow> (s2, out1 @ out2)))"

fun opened_ops :: "('op \<Rightarrow> 's \<Rightarrow> 's \<times> 'o list) \<Rightarrow> ('op \<Rightarrow> 's \<Rightarrow> 'c multiset) \<Rightarrow> 'op list \<Rightarrow> 's \<Rightarrow> 'c multiset" where
  "opened_ops step opened [] s = {#}"
| "opened_ops step opened (op # ops) s = opened op s + opened_ops step opened ops (fst (step op s))"

lemma run_ops_append:
  "run_ops step (ops @ ops') s =
     (case run_ops step ops s of (s1, out1) \<Rightarrow> (case run_ops step ops' s1 of (s2, out2) \<Rightarrow> (s2, out1 @ out2)))"
  by (induction ops arbitrary: s) (simp_all add: case_prod_beta)

locale oneshot_registry =
  fixes inv :: "'s \<Rightarrow> bool"
    and step :: "'op \<Rightarrow> 's \<Rightarrow> 's \<times> ('c \<times> 'a option) list"
    and opened :: "'op \<Rightarrow> 's \<Rightarrow> 'c multiset"
    and waiting :: "'s \<Rightarrow> 'c multiset"
  assumes step_inv: "inv s \<Longrightarrow> inv (fst (step op s))"
    and step_conserves:
      "inv s \<Longrightarrow> waiting (fst (step op s)) + mset (map fst (snd (step op s))) = waiting s + opened op s"
begin

lemma run_ops_inv: "inv s \<Longrightarrow> inv (fst (run_ops step ops s))"
proof (induction ops arbitrary: s)
  case (Cons op ops)
  from Cons.IH [OF step_inv [OF Cons.prems, of op]] show ?case
    by (cases "step op s"; cases "run_ops step ops (fst (step op s))") simp
qed simp

lemma run_ops_conserves:
  "inv s \<Longrightarrow> waiting (fst (run_ops step ops s)) + mset (map fst (snd (run_ops step ops s))) = waiting s + opened_ops step opened ops s"
proof (induction ops arbitrary: s)
  case (Cons op ops)
  obtain s1 out1 where one: "step op s = (s1, out1)" by (cases "step op s")
  obtain s2 out2 where two: "run_ops step ops s1 = (s2, out2)" by (cases "run_ops step ops s1")
  have "inv s1" using step_inv [OF Cons.prems, of op] one by simp
  from Cons.IH [OF this] two have ih: "waiting s2 + mset (map fst out2) = waiting s1 + opened_ops step opened ops s1" by simp
  have "waiting s2 + mset (map fst (out1 @ out2)) = (waiting s2 + mset (map fst out2)) + mset (map fst out1)"
    by simp
  also have "\<dots> = (waiting s1 + mset (map fst out1)) + opened_ops step opened ops s1"
    unfolding ih by simp
  also have "waiting s1 + mset (map fst out1) = waiting s + opened op s"
    using step_conserves [OF Cons.prems, of op] one by simp
  finally show ?case using one two by (simp add: add.assoc)
qed simp

lemma answered_at_most_opened:
  assumes "inv s" "waiting s = {#}"
  shows "count (mset (map fst (snd (run_ops step ops s)))) c \<le> count (opened_ops step opened ops s) c"
proof -
  have "mset (map fst (snd (run_ops step ops s))) \<subseteq># opened_ops step opened ops s"
    using run_ops_conserves [OF assms(1), of ops] assms(2) by (metis add_0 mset_subset_eq_add_right)
  then show ?thesis by (rule mset_subset_eq_count)
qed

lemma each_opened_waits_or_is_answered:
  assumes "inv s" "waiting s = {#}"
  shows "count (opened_ops step opened ops s) c =
    count (waiting (fst (run_ops step ops s))) c + count (mset (map fst (snd (run_ops step ops s)))) c"
proof -
  have "opened_ops step opened ops s = waiting (fst (run_ops step ops s)) + mset (map fst (snd (run_ops step ops s)))"
    using run_ops_conserves [OF assms(1), of ops] assms(2) by simp
  then show ?thesis by (metis count_union)
qed

end

end
