(* ===== verification/Pending_Messages.thy ===== *)
theory Pending_Messages
  imports Oneshot Shards
begin

section \<open>Messages waiting for their delivery\<close>

text \<open>
  \<open>src/utils/pending_messages_queue.rs\<close>: external messages the relay has broadcast, keyed by
  their destination and hash, each with a one-shot sender and the time it expires. The least of
  these times is cached in an atomic, so that a shard block that expires nothing costs no lock.
  A one-shot channel is a number; an operation returns what it sends, in order.
\<close>

datatype message_status = Delivered | Expired

record pending_message_id =
  pm_account :: uint256
  message_hash :: uint256

record pending_message =
  tx :: "nat option"
  expire_at :: u32

record messages_queue =
  min_expire_at :: u32
  queue_entries :: "(pending_message_id, pending_message) hashmap"
  entry_count :: usize

definition messages_queue_new :: messages_queue where
  "messages_queue_new = \<lparr>min_expire_at = - 1, queue_entries = [], entry_count = 0\<rparr>"

text \<open>\<open>channel\<close> is the fresh one-shot channel whose receiver is returned.\<close>

definition add_message ::
  "nat \<Rightarrow> uint256 \<Rightarrow> uint256 \<Rightarrow> u32 \<Rightarrow> messages_queue \<Rightarrow> messages_queue \<times> nat res" where
  "add_message channel acc hash expire q =
     (let key = \<lparr>pm_account = acc, message_hash = hash\<rparr>
      in case hm_get (queue_entries q) key of
           None \<Rightarrow>
             (q\<lparr>queue_entries := hm_insert key \<lparr>tx = Some channel, expire_at = expire\<rparr> (queue_entries q),
                min_expire_at := min (min_expire_at q) expire,
                entry_count := entry_count q + 1\<rparr>, Inr channel)
         | Some _ \<Rightarrow> (q, Inl AlreadyExists))"

definition send_status :: "pending_message \<Rightarrow> message_status \<Rightarrow> (nat \<times> message_status) list" where
  "send_status m s = (case tx m of Some channel \<Rightarrow> [(channel, s)] | None \<Rightarrow> [])"

fun scan_min :: "u32 \<Rightarrow> (pending_message_id, pending_message) hashmap \<Rightarrow> u32" where
  "scan_min m [] = m"
| "scan_min m ((_, item) # es) = scan_min (if expire_at item < m then expire_at item else m) es"

definition deliver_message ::
  "uint256 \<Rightarrow> uint256 \<Rightarrow> messages_queue \<Rightarrow> messages_queue \<times> (nat \<times> message_status) list" where
  "deliver_message acc hash q =
     (let key = \<lparr>pm_account = acc, message_hash = hash\<rparr>
      in case hm_get (queue_entries q) key of
           None \<Rightarrow> (q, [])
         | Some message \<Rightarrow>
             let remaining = hm_remove key (queue_entries q);
                 q = q\<lparr>queue_entries := remaining, entry_count := entry_count q - 1\<rparr>;
                 sent = send_status message Delivered
             in if min_expire_at q \<noteq> expire_at message then (q, sent)
                else (q\<lparr>min_expire_at := scan_min (- 1) remaining\<rparr>, sent))"

fun retain_pending ::
  "(shard_ident \<Rightarrow> nat) \<Rightarrow> shard_ident \<Rightarrow> u32 \<Rightarrow> u32 \<Rightarrow> (pending_message_id, pending_message) hashmap \<Rightarrow>
     (pending_message_id, pending_message) hashmap \<times> u32 \<times> (nat \<times> message_status) list"
where
  "retain_pending prefix_len shard utime m [] = ([], m, [])"
| "retain_pending prefix_len shard utime m ((key, item) # es) =
     (if utime \<le> expire_at item \<or> \<not> contains_account prefix_len shard (pm_account key)
      then (case retain_pending prefix_len shard utime
                   (if expire_at item < m then expire_at item else m) es of
              (kept, m, sent) \<Rightarrow> ((key, item) # kept, m, sent))
      else (case retain_pending prefix_len shard utime m es of
              (kept, m, sent) \<Rightarrow> (kept, m, send_status item Expired @ sent)))"

definition queue_update ::
  "(shard_ident \<Rightarrow> nat) \<Rightarrow> shard_ident \<Rightarrow> u32 \<Rightarrow> messages_queue \<Rightarrow> messages_queue \<times> (nat \<times> message_status) list"
where
  "queue_update prefix_len shard current_utime q =
     (if current_utime \<le> min_expire_at q then (q, [])
      else (case retain_pending prefix_len shard current_utime (- 1) (queue_entries q) of
              (kept, m, sent) \<Rightarrow>
                (q\<lparr>queue_entries := kept, min_expire_at := m, entry_count := of_nat (length kept)\<rparr>, sent)))"

subsection \<open>The invariant\<close>

text \<open>
  Keys are distinct, every stored message still has its sender, the counter is the number of
  messages, and \<open>min_expire_at\<close> is the least expiry (\<open>u32::MAX\<close> when nothing waits).
\<close>

definition least_expiry :: "(pending_message_id, pending_message) hashmap \<Rightarrow> u32" where
  "least_expiry es = fold (\<lambda>(_, item). min (expire_at item)) es (- 1)"

definition queue_inv :: "messages_queue \<Rightarrow> bool" where
  "queue_inv q \<longleftrightarrow> hm_wf (queue_entries q) \<and> entry_count q = of_nat (length (queue_entries q))
     \<and> (\<forall>(key, item) \<in> set (queue_entries q). tx item \<noteq> None)
     \<and> min_expire_at q = scan_min (- 1) (queue_entries q)"

lemma le_max [simp]: "w \<le> (- 1 :: u32)"
  by (fact word_n1_ge)

lemma scan_min_le: "t \<le> scan_min m es \<longleftrightarrow> t \<le> m \<and> (\<forall>(key, item) \<in> set es. t \<le> expire_at item)"
  by (induction m es rule: scan_min.induct) auto

lemma scan_min_eqI: "set es = set es' \<Longrightarrow> scan_min m es = scan_min m es'"
  by (rule antisym) (use scan_min_le in \<open>metis order_refl\<close>)+

lemma scan_min_mono: "set es' \<subseteq> set es \<Longrightarrow> scan_min m es \<le> scan_min m es'"
  using scan_min_le [of "scan_min m es" m es] scan_min_le [of "scan_min m es" m es'] by auto

lemma scan_min_attained: "scan_min m es = m \<or> (\<exists>(key, item) \<in> set es. scan_min m es = expire_at item)"
  by (induction m es rule: scan_min.induct) (auto split: if_splits)

lemma retain_pending_eq:
  "retain_pending prefix_len shard utime m es =
     (let keep = (\<lambda>(key, item). utime \<le> expire_at item \<or> \<not> contains_account prefix_len shard (pm_account key))
      in (filter keep es, scan_min m (filter keep es),
          concat (map (\<lambda>(key, item). send_status item Expired) (filter (Not \<circ> keep) es))))"
  by (induction prefix_len shard utime m es rule: retain_pending.induct) (auto simp: Let_def)

text \<open>The early return of \<open>update\<close> loses nothing: it equals the scan of the whole queue.\<close>

lemma queue_update_scan:
  assumes "queue_inv q"
  shows "queue_update prefix_len shard utime q =
     (case retain_pending prefix_len shard utime (- 1) (queue_entries q) of
        (kept, m, sent) \<Rightarrow>
          (q\<lparr>queue_entries := kept, min_expire_at := m, entry_count := of_nat (length kept)\<rparr>, sent))"
proof (cases "utime \<le> min_expire_at q")
  case True
  define keep where "keep = (\<lambda>(key :: pending_message_id, item :: pending_message).
      utime \<le> expire_at item \<or> \<not> contains_account prefix_len shard (pm_account key))"
  from True assms have "\<forall>e \<in> set (queue_entries q). keep e"
    by (auto simp: queue_inv_def scan_min_le keep_def)
  then have "filter keep (queue_entries q) = queue_entries q" "filter (Not \<circ> keep) (queue_entries q) = []"
    by (simp_all add: filter_id_conv filter_empty_conv)
  with True assms show ?thesis
    by (simp add: retain_pending_eq queue_update_def queue_inv_def Let_def flip: keep_def)
qed (simp add: queue_update_def)

subsection \<open>One-shot answers\<close>

datatype queue_op =
    AddMessage nat uint256 uint256 u32
  | DeliverMessage uint256 uint256
  | UpdateQueue shard_ident u32

fun queue_step :: "(shard_ident \<Rightarrow> nat) \<Rightarrow> queue_op \<Rightarrow> messages_queue \<Rightarrow>
    messages_queue \<times> (nat \<times> message_status option) list" where
  "queue_step prefix_len (AddMessage channel acc hash expire) q = (fst (add_message channel acc hash expire q), [])"
| "queue_step prefix_len (DeliverMessage acc hash) q =
     (case deliver_message acc hash q of (q, sent) \<Rightarrow> (q, map (\<lambda>(c, s). (c, Some s)) sent))"
| "queue_step prefix_len (UpdateQueue shard utime) q =
     (case queue_update prefix_len shard utime q of (q, sent) \<Rightarrow> (q, map (\<lambda>(c, s). (c, Some s)) sent))"

fun queue_opened :: "queue_op \<Rightarrow> messages_queue \<Rightarrow> nat multiset" where
  "queue_opened (AddMessage channel acc hash expire) q =
     (if hm_get (queue_entries q) \<lparr>pm_account = acc, message_hash = hash\<rparr> = None then {#channel#} else {#})"
| "queue_opened _ q = {#}"

definition queue_waiting :: "messages_queue \<Rightarrow> nat multiset" where
  "queue_waiting q = image_mset (\<lambda>(key, item). the (tx item)) (mset (queue_entries q))"

lemma queue_inv_new [simp]: "queue_inv messages_queue_new"
  by (simp add: queue_inv_def messages_queue_new_def)

lemma scan_min_insert_new:
  "hm_get es key = None \<Longrightarrow> scan_min m (hm_insert key item es) = min (scan_min m es) (expire_at item)"
proof (induction m es rule: scan_min.induct)
  case (1 m)
  then show ?case by (auto simp: min_def)
qed (auto split: if_splits)

lemma queue_inv_add:
  assumes "queue_inv q" shows "queue_inv (fst (add_message channel acc hash expire q))"
proof (cases "hm_get (queue_entries q) \<lparr>pm_account = acc, message_hash = hash\<rparr>")
  case None
  with assms show ?thesis
    by (auto simp: add_message_def queue_inv_def hm_length_insert_new scan_min_insert_new set_insert_new)
qed (use assms in \<open>simp add: add_message_def\<close>)

lemma queue_inv_deliver:
  assumes inv: "queue_inv q" shows "queue_inv (fst (deliver_message acc hash q))"
proof (cases "hm_get (queue_entries q) \<lparr>pm_account = acc, message_hash = hash\<rparr>")
  case (Some item)
  let ?key = "\<lparr>pm_account = acc, message_hash = hash\<rparr>"
  let ?rest = "hm_remove ?key (queue_entries q)"
  have wf: "hm_wf (queue_entries q)" using inv by (simp add: queue_inv_def)
  have sub: "set (queue_entries q) = insert (?key, item) (set ?rest)"
    by (rule set_remove_old [OF wf Some])
  have len: "length (queue_entries q) = Suc (length ?rest)" using hm_length_remove_old [OF wf Some] by simp
  have "scan_min (- 1) ?rest = scan_min (- 1) (queue_entries q)"
    if "scan_min (- 1) (queue_entries q) \<noteq> expire_at item"
  proof (rule antisym)
    show "scan_min (- 1) (queue_entries q) \<le> scan_min (- 1) ?rest"
      by (rule scan_min_mono) (use sub in blast)
    have rest: "scan_min (- 1) ?rest \<le> expire_at e" if "(k, e) \<in> set ?rest" for k e
      using that scan_min_le [of "scan_min (- 1) ?rest" "- 1" ?rest] by blast
    consider "scan_min (- 1) (queue_entries q) = - 1"
      | k e where "(k, e) \<in> set (queue_entries q)" "scan_min (- 1) (queue_entries q) = expire_at e"
      using scan_min_attained [of "- 1" "queue_entries q"] by blast
    then show "scan_min (- 1) ?rest \<le> scan_min (- 1) (queue_entries q)"
    proof cases
      case (2 k e)
      then have "(k, e) \<in> set ?rest" using that unfolding sub by auto
      with rest 2(2) show ?thesis by simp
    qed simp
  qed
  then have "min_expire_at (fst (deliver_message acc hash q)) = scan_min (- 1) ?rest"
    using inv Some by (simp add: deliver_message_def queue_inv_def Let_def)
  moreover have "queue_entries (fst (deliver_message acc hash q)) = ?rest"
    "entry_count (fst (deliver_message acc hash q)) = entry_count q - 1"
    using Some by (simp_all add: deliver_message_def Let_def)
  moreover have "entry_count q - 1 = of_nat (length ?rest)"
    using inv len by (simp add: queue_inv_def)
  moreover have "\<forall>(key, item) \<in> set ?rest. tx item \<noteq> None"
    using inv sub unfolding queue_inv_def by blast
  ultimately show ?thesis using wf by (simp add: queue_inv_def)
qed (use inv in \<open>simp add: deliver_message_def\<close>)

lemma queue_inv_update:
  assumes "queue_inv q" shows "queue_inv (fst (queue_update prefix_len shard utime q))"
  using assms
  by (auto simp: queue_update_scan retain_pending_eq queue_inv_def Let_def hm_wf_def distinct_map_filter_fst)

lemma deliver_waiting:
  assumes inv: "queue_inv q"
  shows "queue_waiting (fst (deliver_message acc hash q))
      + mset (map fst (snd (deliver_message acc hash q))) = queue_waiting q"
proof (cases "hm_get (queue_entries q) \<lparr>pm_account = acc, message_hash = hash\<rparr>")
  case (Some item)
  let ?key = "\<lparr>pm_account = acc, message_hash = hash\<rparr>"
  have wf: "hm_wf (queue_entries q)" using inv by (simp add: queue_inv_def)
  obtain c where c: "tx item = Some c"
    using inv hm_get_in_set [OF Some] by (auto simp: queue_inv_def)
  have ms: "mset (queue_entries q) = add_mset (?key, item) (mset (hm_remove ?key (queue_entries q)))"
    by (rule mset_remove_old [OF wf Some])
  from Some c show ?thesis
    unfolding queue_waiting_def ms by (simp add: deliver_message_def send_status_def Let_def)
qed (simp add: deliver_message_def)

lemma update_waiting:
  assumes inv: "queue_inv q"
  shows "queue_waiting (fst (queue_update prefix_len shard utime q))
      + mset (map fst (snd (queue_update prefix_len shard utime q))) = queue_waiting q"
proof -
  define keep where "keep = (\<lambda>(key :: pending_message_id, item :: pending_message).
      utime \<le> expire_at item \<or> \<not> contains_account prefix_len shard (pm_account key))"
  have "mset (map fst (concat (map (\<lambda>(key, item). send_status item Expired) es)))
      = image_mset (\<lambda>(key, item). the (tx item)) (mset es)"
    if "set es \<subseteq> set (queue_entries q)" for es
    using that inv by (induction es) (auto simp: queue_inv_def send_status_def)
  then have "mset (map fst (concat (map (\<lambda>(key, item). send_status item Expired) (filter (Not \<circ> keep) (queue_entries q)))))
      = image_mset (\<lambda>(key, item). the (tx item)) (mset (filter (Not \<circ> keep) (queue_entries q)))"
    by (rule meta_mp) auto
  then show ?thesis
    unfolding queue_update_scan [OF inv] retain_pending_eq Let_def keep_def [symmetric] queue_waiting_def
    by (simp flip: image_mset_union mset_filter_split [of keep "queue_entries q"] del: mset_filter)
qed

lemma queue_step_conserves:
  assumes "queue_inv q"
  shows "queue_waiting (fst (queue_step prefix_len op q)) + mset (map fst (snd (queue_step prefix_len op q)))
    = queue_waiting q + queue_opened op q"
proof (cases op)
  case (AddMessage c acc hash e)
  then show ?thesis
    by (cases "hm_get (queue_entries q) \<lparr>pm_account = acc, message_hash = hash\<rparr>")
      (simp_all add: add_message_def queue_waiting_def mset_insert_new Let_def)
next
  case (DeliverMessage acc hash)
  have "map fst (map (\<lambda>(c, s). (c, Some s)) xs) = map fst xs" for xs :: "(nat \<times> message_status) list" by auto
  with DeliverMessage deliver_waiting [OF assms, of acc hash] show ?thesis
    by (cases "deliver_message acc hash q") (simp del: map_map)
next
  case (UpdateQueue shard utime)
  have "map fst (map (\<lambda>(c, s). (c, Some s)) xs) = map fst xs" for xs :: "(nat \<times> message_status) list" by auto
  with UpdateQueue update_waiting [OF assms, of prefix_len shard utime] show ?thesis
    by (cases "queue_update prefix_len shard utime q") (simp del: map_map)
qed

interpretation messages: counted_registry queue_inv queue_entries entry_count
  by unfold_locales (simp_all add: queue_inv_def)

lemma queue_step_inv: "queue_inv q \<Longrightarrow> queue_inv (fst (queue_step prefix_len op q))"
  using queue_inv_add queue_inv_deliver queue_inv_update
  by (cases op) (simp_all add: case_prod_beta)

interpretation queue: oneshot_registry queue_inv "queue_step prefix_len" queue_opened queue_waiting
  for prefix_len
  by unfold_locales (simp_all only: queue_step_inv queue_step_conserves)

lemma queue_update_exact:
  assumes "queue_inv q"
  shows "(\<forall>key. hm_get (queue_entries (fst (queue_update prefix_len shard utime q))) key =
      option_filter (\<lambda>item. utime \<le> expire_at item \<or> \<not> contains_account prefix_len shard (pm_account key))
        (hm_get (queue_entries q) key))
    \<and> (\<forall>c s. (c, s) \<in> set (snd (queue_update prefix_len shard utime q)) \<longleftrightarrow>
        s = Expired \<and> (\<exists>key item. hm_get (queue_entries q) key = Some item \<and> tx item = Some c
          \<and> expire_at item < utime \<and> contains_account prefix_len shard (pm_account key)))"
proof -
  have wf: "hm_wf (queue_entries q)" using assms by (simp add: queue_inv_def)
  have get: "hm_get (filter (\<lambda>(key, item). p key item) m) key = option_filter (p key) (hm_get m key)"
    if "hm_wf m" for p and m :: "(pending_message_id, pending_message) hashmap" and key
    using hm_get_retain [OF that, of p key] by (simp add: hm_retain_def option_filter_def)
  show ?thesis
    unfolding queue_update_scan [OF assms] retain_pending_eq Let_def prod.case fst_conv snd_conv
    using wf by (auto simp: get send_status_def hm_wf_get_iff not_le split: option.splits) (force+)
qed

subsection \<open>Properties\<close>

text \<open>
  C21: Whatever the order of additions, deliveries and shard blocks, every one-shot channel
  handed to the queue either still waits in it or has been answered, exactly as often as it was
  handed over: with fresh channels, each waiting delivery is answered at most once, and none is
  dropped unanswered. The queue's counter stays exact and its cached minimum is the least expiry.
\<close>

theorem messages_answered_once:
  "count (opened_ops (queue_step prefix_len) queue_opened ops messages_queue_new) c =
     count (queue_waiting (fst (run_ops (queue_step prefix_len) ops messages_queue_new))) c
     + count (mset (map fst (snd (run_ops (queue_step prefix_len) ops messages_queue_new)))) c
   \<and> queue_inv (fst (run_ops (queue_step prefix_len) ops messages_queue_new))"
proof
  have "queue_waiting messages_queue_new = {#}" by (simp add: queue_waiting_def messages_queue_new_def)
  from queue.each_opened_waits_or_is_answered [OF queue_inv_new this]
  show "count (opened_ops (queue_step prefix_len) queue_opened ops messages_queue_new) c =
     count (queue_waiting (fst (run_ops (queue_step prefix_len) ops messages_queue_new))) c
     + count (mset (map fst (snd (run_ops (queue_step prefix_len) ops messages_queue_new)))) c" .
  show "queue_inv (fst (run_ops (queue_step prefix_len) ops messages_queue_new))"
    by (rule queue.run_ops_inv [OF queue_inv_new])
qed

text \<open>
  C22: A shard block at time \<open>utime\<close> expires exactly the messages to accounts of that shard
  whose expiry lies before it, and keeps every other message: the cached minimum, which lets
  the update return early, changes nothing.
\<close>

theorem update_expires_exactly:
  assumes "queue_inv q"
  shows "(\<forall>key. hm_get (queue_entries (fst (queue_update prefix_len shard utime q))) key =
      option_filter (\<lambda>item. utime \<le> expire_at item \<or> \<not> contains_account prefix_len shard (pm_account key))
        (hm_get (queue_entries q) key))
    \<and> (\<forall>c s. (c, s) \<in> set (snd (queue_update prefix_len shard utime q)) \<longleftrightarrow>
        s = Expired \<and> (\<exists>key item. hm_get (queue_entries q) key = Some item \<and> tx item = Some c
          \<and> expire_at item < utime \<and> contains_account prefix_len shard (pm_account key)))"
  using assms by (rule queue_update_exact)

text \<open>Two messages, one of them expired by a block of the full shard.\<close>

definition demo_queue :: messages_queue where
  "demo_queue = fst (add_message 2 [2] [2] 50 (fst (add_message 1 [1] [1] 10 messages_queue_new)))"

theorem update_expires_exactly_witness:
  "hm_get (queue_entries (fst (queue_update (\<lambda>_. 0) \<lparr>workchain_id = 0, shard_prefix_with_tag = SHARD_FULL\<rparr> 20 demo_queue)))
     \<lparr>pm_account = [1], message_hash = [1]\<rparr> = None"
proof -
  have "queue_inv demo_queue"
    unfolding demo_queue_def by (intro queue_inv_add queue_inv_new)
  from update_expires_exactly [OF this, THEN conjunct1] show ?thesis
    by (simp add: demo_queue_def add_message_def messages_queue_new_def contains_account_def)
qed

end
