(* ===== verification/Delivery.thy ===== *)
theory Delivery
  imports Pending_Messages Abi
begin

section \<open>Signing and delivering messages\<close>

text \<open>
  The signers of \<open>src/engine/keystore/mod.rs\<close> and the delivery loop of \<open>src/engine/mod.rs\<close>:
  a message is built argument by argument, signed with the current time in its headers,
  registered in the queue and broadcast; it is signed and sent again each time it expires, while
  a condition of the caller holds. Hashing, elliptic curves and ABI encoding are third-party: the
  fields of \<open>signer_env\<close>. Arithmetic on \<open>u32\<close> wraps, as in a release build.
\<close>

record message_body =
  msg_function :: abi_function
  msg_headers :: "(string, token_value) hashmap"
  msg_inputs :: tokens
  msg_signature :: "i32 option option" \<comment> \<open>signed, with which id\<close>
  msg_encoded :: bytes

datatype message_header = ExtInMsgInfo msg_address | OtherMsgInfo

record ton_message =
  msg_header :: message_header
  msg_body :: message_body

record signer_env =
  keccak256 :: "bytes \<Rightarrow> bytes"
  sign_ecdsa_recoverable :: "bytes \<Rightarrow> i32 \<times> bytes" \<comment> \<open>recovery id and 64 bytes\<close>
  encode_input :: "abi_function \<Rightarrow> (string, token_value) hashmap \<Rightarrow> tokens \<Rightarrow>
    i32 option option \<Rightarrow> msg_address option \<Rightarrow> bytes res" \<comment> \<open>signature (with its id), address\<close>
  load_builder :: "bytes \<Rightarrow> bytes res"
  write_to_bytes :: "ton_message \<Rightarrow> bytes res"
  write_to_new_cell :: "ton_message \<Rightarrow> cell res"
  serialize_toc :: "cell \<Rightarrow> bytes res"
  cell_repr_hash :: "cell \<Rightarrow> uint256"
  model_params :: "string \<Rightarrow> (string \<times> param_type) list"
  ton_raw_public_key :: uint256
  default_public_key :: uint256
  feature_ton :: bool

subsection \<open>ETH signatures\<close>

text \<open>The prefix of EIP-191: \<open>"\x19Ethereum Signed Message:\n32"\<close>.\<close>

definition eth_prefix :: bytes where
  "eth_prefix = [0x19, 0x45, 0x74, 0x68, 0x65, 0x72, 0x65, 0x75, 0x6d, 0x20, 0x53, 0x69, 0x67, 0x6e,
     0x65, 0x64, 0x20, 0x4d, 0x65, 0x73, 0x73, 0x61, 0x67, 0x65, 0x3a, 0x0a, 0x33, 0x32]"

definition eth_sign :: "signer_env \<Rightarrow> bytes \<Rightarrow> bytes" where
  "eth_sign env data =
     (let data_hash = keccak256 env data;
          hash = keccak256 env (eth_prefix @ data_hash);
          (recovery_id, signature) = sign_ecdsa_recoverable env hash
      in signature @ [ucast recovery_id + 27])"

subsection \<open>Unsigned messages\<close>

record unsigned_message =
  um_function :: abi_function
  um_inputs :: tokens
  um_account :: uint256
  um_dst :: msg_address

definition unsigned_message_new :: "abi_function \<Rightarrow> uint256 \<Rightarrow> unsigned_message" where
  "unsigned_message_new f acc = \<lparr>um_function = f, um_inputs = [], um_account = acc,
     um_dst = \<lparr>addr_workchain = 0, addr_hash = acc\<rparr>\<rparr>"

text \<open>\<open>arg\<close> names the argument by its position; one too many panics.\<close>

definition arg :: "(string \<Rightarrow> (string \<times> param_type) list) \<Rightarrow> token_value \<Rightarrow> unsigned_message \<Rightarrow> unsigned_message res" where
  "arg models v m =
     (let ps = function_params models (um_function m); i = length (um_inputs m)
      in if i < length ps then Inr (m\<lparr>um_inputs := um_inputs m @ [(fst (ps ! i), v)]\<rparr>)
         else Inl (Panic ''index out of bounds''))"

subsection \<open>TON signatures\<close>

definition MESSAGE_TTL_SEC :: u32 where
  "MESSAGE_TTL_SEC = 60"

definition default_headers :: "u64 \<Rightarrow> u32 \<Rightarrow> uint256 \<Rightarrow> (string, token_value) hashmap" where
  "default_headers time expire public_key =
     hm_insert ''pubkey'' (TokenPublicKey public_key)
       (hm_insert ''expire'' (TokenExpire expire)
         (hm_insert ''time'' (TokenTime time) []))"

record signed_message =
  sm_account :: uint256
  sm_message :: ton_message
  sm_expire_at :: u32

definition message_expire_at :: "u64 \<Rightarrow> u32" where
  "message_expire_at time = ucast (time div 1000) + MESSAGE_TTL_SEC"

definition build_message ::
  "signer_env \<Rightarrow> uint256 \<Rightarrow> i32 option option \<Rightarrow> msg_address option \<Rightarrow> u64 \<Rightarrow> unsigned_message \<Rightarrow>
     signed_message res"
where
  "build_message env public_key signature dst time m =
     (let expire = message_expire_at time;
          headers = default_headers time expire public_key
      in rbind (encode_input env (um_function m) headers (um_inputs m) signature dst) (\<lambda>body.
         rbind (load_builder env body) (\<lambda>body.
           Inr \<lparr>sm_account = um_account m,
             sm_message = \<lparr>msg_header = ExtInMsgInfo (um_dst m),
               msg_body = \<lparr>msg_function = um_function m, msg_headers = headers, msg_inputs = um_inputs m,
                 msg_signature = signature, msg_encoded = body\<rparr>\<rparr>,
             sm_expire_at = expire\<rparr>)))"

definition ton_sign :: "signer_env \<Rightarrow> u64 \<Rightarrow> i32 option \<Rightarrow> unsigned_message \<Rightarrow> signed_message res" where
  "ton_sign env time signature_id m =
     rbind (build_message env (ton_raw_public_key env) (Some signature_id)
        (if feature_ton env then Some (um_dst m) else None) time m) (\<lambda>sm.
     rbind (write_to_bytes env (sm_message sm)) (\<lambda>_. Inr sm))"

definition build_without_signature :: "signer_env \<Rightarrow> u64 \<Rightarrow> unsigned_message \<Rightarrow> signed_message res" where
  "build_without_signature env time m = build_message env (default_public_key env) None None time m"

subsection \<open>Sending\<close>

text \<open>
  Up to the wait: the message is put into the queue, then broadcast (a broadcast that fails is
  only logged). The answer the channel later gives is the result.
\<close>

definition register_message ::
  "signer_env \<Rightarrow> nat \<Rightarrow> uint256 \<Rightarrow> ton_message \<Rightarrow> u32 \<Rightarrow> messages_queue \<Rightarrow> messages_queue \<times> nat res"
where
  "register_message env channel acc message expire q =
     (case msg_header message of
        OtherMsgInfo \<Rightarrow> (q, Inl ExternalTonMessageExpected)
      | ExtInMsgInfo dst \<Rightarrow>
          (case rbind (write_to_new_cell env message) (\<lambda>cells.
                rbind (serialize_toc env cells) (\<lambda>_. Inr cells)) of
             Inl e \<Rightarrow> (q, Inl e)
           | Inr cells \<Rightarrow> add_message channel acc (cell_repr_hash env cells) expire q))"

definition send_ton_message ::
  "signer_env \<Rightarrow> nat \<Rightarrow> uint256 \<Rightarrow> ton_message \<Rightarrow> u32 \<Rightarrow> message_status option \<Rightarrow> messages_queue \<Rightarrow>
     messages_queue \<times> message_status res"
where
  "send_ton_message env channel acc message expire answer q =
     (case register_message env channel acc message expire q of
        (q, Inl e) \<Rightarrow> (q, Inl e)
      | (q, Inr rx) \<Rightarrow> (q, case answer of Some s \<Rightarrow> Inr s | None \<Rightarrow> Inl ChannelClosed))"

text \<open>
  The loop of \<open>deliver_message\<close>. What the surroundings provide in each round (whether the
  condition holds, the clock, the signature id, the queue, the channel and its answer) is a list;
  \<open>None\<close> means the loop is still running when the list ends. The signed messages that were sent
  are returned in order.
\<close>

record delivery_round =
  condition_holds :: bool
  utc_now :: u64
  round_signature_id :: "i32 option"
  round_queue :: messages_queue
  round_channel :: nat
  round_answer :: "message_status option"

fun deliver_loop ::
  "signer_env \<Rightarrow> unsigned_message \<Rightarrow> delivery_round list \<Rightarrow> (signed_message list \<times> unit res) option"
where
  "deliver_loop env m [] = None"
| "deliver_loop env m (r # rounds) =
     (if \<not> condition_holds r then Some ([], Inr ())
      else (case ton_sign env (utc_now r) (round_signature_id r) m of
              Inl e \<Rightarrow> Some ([], Inl e)
            | Inr sm \<Rightarrow>
                (case snd (send_ton_message env (round_channel r) (sm_account sm) (sm_message sm)
                        (sm_expire_at sm) (round_answer r) (round_queue r)) of
                   Inl e \<Rightarrow> Some ([sm], Inl e)
                 | Inr Delivered \<Rightarrow> Some ([sm], Inr ())
                 | Inr Expired \<Rightarrow>
                     (case deliver_loop env m rounds of
                        None \<Rightarrow> None
                      | Some (sent, result) \<Rightarrow> Some (sm # sent, result)))))"

subsection \<open>Expiry is only reported after the fact\<close>

text \<open>The one place a channel may have in the queue.\<close>

definition channel_at :: "nat \<Rightarrow> pending_message_id \<Rightarrow> u32 \<Rightarrow> messages_queue \<Rightarrow> bool" where
  "channel_at c key expire q \<longleftrightarrow>
     (\<forall>(key', item) \<in> set (queue_entries q). tx item = Some c \<longrightarrow> key' = key \<and> expire_at item = expire)"

lemma channel_at_step:
  assumes "queue_inv q" "channel_at c key expire q" "c \<notin># queue_opened op q"
  shows "channel_at c key expire (fst (queue_step prefix_len op q))"
proof (cases op)
  case (AddMessage c' acc hash e)
  then show ?thesis
    using assms by (cases "hm_get (queue_entries q) \<lparr>pm_account = acc, message_hash = hash\<rparr>")
      (auto simp: channel_at_def add_message_def set_insert_new)
next
  case (DeliverMessage acc hash)
  have "set (hm_remove k m) \<subseteq> set m" for k and m :: "(pending_message_id, pending_message) hashmap"
    by (auto simp: AList.delete_eq)
  then have "set (queue_entries (fst (deliver_message acc hash q))) \<subseteq> set (queue_entries q)"
    by (auto simp: deliver_message_def Let_def split: option.splits)
  with DeliverMessage assms(2) show ?thesis
    by (auto simp: channel_at_def case_prod_beta)
next
  case (UpdateQueue shard utime)
  then show ?thesis
    using assms by (auto simp: channel_at_def case_prod_beta queue_update_scan retain_pending_eq Let_def)
qed

lemma channel_expired_step:
  assumes "queue_inv q" "channel_at c key expire q" "(c, Some Expired) \<in> set (snd (queue_step prefix_len op q))"
  shows "\<exists>shard utime. op = UpdateQueue shard utime \<and> expire < utime
    \<and> contains_account prefix_len shard (pm_account key)"
proof (cases op)
  case (DeliverMessage acc hash)
  with assms(3) show ?thesis
    by (auto simp: deliver_message_def send_status_def Let_def split: option.splits if_splits)
next
  case (UpdateQueue shard utime)
  with assms show ?thesis
    by (auto simp: queue_update_scan retain_pending_eq Let_def channel_at_def send_status_def
        split: option.splits)
qed (use assms in auto)

lemma channel_expired_run:
  assumes "queue_inv q" "channel_at c key expire q" "c \<notin># opened_ops (queue_step prefix_len) queue_opened ops q"
    "(c, Some Expired) \<in> set (snd (run_ops (queue_step prefix_len) ops q))"
  shows "\<exists>shard utime. UpdateQueue shard utime \<in> set ops \<and> expire < utime
    \<and> contains_account prefix_len shard (pm_account key)"
  using assms
proof (induction ops arbitrary: q)
  case (Cons op ops)
  let ?q = "fst (queue_step prefix_len op q)"
  have inv: "queue_inv ?q" using Cons.prems(1) by (rule queue_step_inv)
  have at: "channel_at c key expire ?q" using Cons.prems by (intro channel_at_step) auto
  have "(c, Some Expired) \<in> set (snd (queue_step prefix_len op q))
      \<or> (c, Some Expired) \<in> set (snd (run_ops (queue_step prefix_len) ops ?q))"
    using Cons.prems(4) by (auto split: prod.splits)
  then show ?case
  proof
    assume "(c, Some Expired) \<in> set (snd (queue_step prefix_len op q))"
    from channel_expired_step [OF Cons.prems(1,2) this] show ?thesis by auto
  next
    assume "(c, Some Expired) \<in> set (snd (run_ops (queue_step prefix_len) ops ?q))"
    from Cons.IH [OF inv at _ this] Cons.prems(3) show ?thesis by auto
  qed
qed simp

lemma channel_waiting: "(key, item) \<in> set (queue_entries q) \<Longrightarrow> tx item = Some c \<Longrightarrow> c \<in># queue_waiting q"
  unfolding queue_waiting_def by force

lemma channel_at_added:
  assumes "c \<notin># queue_waiting q" "add_message c acc hash expire q = (q1, Inr rx)"
  shows "channel_at c \<lparr>pm_account = acc, message_hash = hash\<rparr> expire q1 \<and> rx = c"
  using assms channel_waiting
  by (fastforce simp: add_message_def channel_at_def set_insert_new Let_def split: option.splits)

lemma expire_header: "ton_sign env time sid m = Inr sm \<Longrightarrow>
    hm_get (msg_headers (msg_body (sm_message sm))) ''expire'' = Some (TokenExpire (sm_expire_at sm))
    \<and> sm_account sm = um_account m"
  by (auto simp: ton_sign_def build_message_def rbind_eq_Inr_iff default_headers_def Let_def)

subsection \<open>Properties\<close>

text \<open>
  C20: A sent message carries the expiry the queue keeps for it in its header, and the queue
  reports it expired only after a block of the destination's shard passed that time. The relay
  therefore never signs a second message while the first one could still be accepted.
\<close>

theorem expired_only_after_expiry:
  assumes "queue_inv q" and "ton_sign env time sid m = Inr sm"
    and "register_message env c (sm_account sm) (sm_message sm) (sm_expire_at sm) q = (q1, Inr rx)"
    and "c \<notin># queue_waiting q" and "c \<notin># opened_ops (queue_step prefix_len) queue_opened ops q1"
    and "(rx, Some Expired) \<in> set (snd (run_ops (queue_step prefix_len) ops q1))"
  shows "hm_get (msg_headers (msg_body (sm_message sm))) ''expire'' = Some (TokenExpire (sm_expire_at sm))
    \<and> (\<exists>shard utime. UpdateQueue shard utime \<in> set ops \<and> sm_expire_at sm < utime
        \<and> contains_account prefix_len shard (um_account m))"
proof -
  obtain hash where add: "add_message c (sm_account sm) hash (sm_expire_at sm) q = (q1, Inr rx)"
    using assms(3) by (auto simp: register_message_def split: message_header.splits sum.splits)
  from channel_at_added [OF assms(4) this]
  have at: "channel_at c \<lparr>pm_account = sm_account sm, message_hash = hash\<rparr> (sm_expire_at sm) q1" and "rx = c"
    by simp_all
  have "queue_inv q1" using queue_inv_add [OF assms(1), of c "sm_account sm" hash "sm_expire_at sm"] add by simp
  from channel_expired_run [OF this at assms(5)] assms(6) \<open>rx = c\<close> expire_header [OF assms(2)]
  show ?thesis by auto
qed

text \<open>
  Delivering a message sends it once per round of the loop, each time signed anew at the
  round's clock and signature id, only while the condition holds, and again only after the
  message of the round before expired. It succeeds exactly when the last message was delivered
  or the condition ended the loop.
\<close>

theorem delivery_trace:
  assumes "deliver_loop env m rounds = Some (sent, result)"
  shows "length sent \<le> length rounds
    \<and> (\<forall>i < length sent. condition_holds (rounds ! i)
        \<and> ton_sign env (utc_now (rounds ! i)) (round_signature_id (rounds ! i)) m = Inr (sent ! i)
        \<and> (Suc i < length sent \<longrightarrow> round_answer (rounds ! i) = Some Expired))
    \<and> (result = Inr () \<longrightarrow>
        (sent \<noteq> [] \<and> round_answer (rounds ! (length sent - 1)) = Some Delivered)
        \<or> (length sent < length rounds \<and> \<not> condition_holds (rounds ! length sent)))"
  using assms
proof (induction env m rounds arbitrary: sent result rule: deliver_loop.induct)
  case (2 env m r rounds)
  have send: "snd (send_ton_message env c acc msg e answer q) = Inr s \<Longrightarrow> answer = Some s"
    for c acc msg e answer q s
    by (auto simp: send_ton_message_def split: prod.splits sum.splits option.splits)
  show ?case
  proof (cases "condition_holds r")
    case True
    show ?thesis
    proof (cases "ton_sign env (utc_now r) (round_signature_id r) m")
      case signed: (Inr sm)
      let ?answer = "snd (send_ton_message env (round_channel r) (sm_account sm) (sm_message sm)
          (sm_expire_at sm) (round_answer r) (round_queue r))"
      consider e where "?answer = Inl e" | "?answer = Inr Delivered"
        | sent' result' where "?answer = Inr Expired" "deliver_loop env m rounds = Some (sent', result')"
        using 2(2) True signed
        by (cases ?answer) (auto split: message_status.splits option.splits)
      then show ?thesis
      proof cases
        case (3 sent' result')
        from 2(1) [OF _ signed this(1) refl this(2)] True
        have ih: "length sent' \<le> length rounds
          \<and> (\<forall>i < length sent'. condition_holds (rounds ! i)
              \<and> ton_sign env (utc_now (rounds ! i)) (round_signature_id (rounds ! i)) m = Inr (sent' ! i)
              \<and> (Suc i < length sent' \<longrightarrow> round_answer (rounds ! i) = Some Expired))
          \<and> (result' = Inr () \<longrightarrow>
              (sent' \<noteq> [] \<and> round_answer (rounds ! (length sent' - 1)) = Some Delivered)
              \<or> (length sent' < length rounds \<and> \<not> condition_holds (rounds ! length sent')))"
          by simp
        have "sent = sm # sent'" "result = result'" using 2(2) True signed 3 by simp_all
        then show ?thesis
          using ih True signed send [OF 3(1)] by (auto simp: nth_Cons' less_Suc_eq_0_disj)
      qed (use 2(2) True signed send in auto)
    qed (use 2(2) True in auto)
  qed (use 2(2) in auto)
qed simp

text \<open>A round whose message expires: it was signed, queued and sent while the condition held, and was answered so.\<close>

definition round_expires :: "signer_env \<Rightarrow> unsigned_message \<Rightarrow> delivery_round \<Rightarrow> bool" where
  "round_expires env m r \<longleftrightarrow> condition_holds r
     \<and> (\<exists>sm q rx. ton_sign env (utc_now r) (round_signature_id r) m = Inr sm
         \<and> register_message env (round_channel r) (sm_account sm) (sm_message sm) (sm_expire_at sm) (round_queue r) = (q, Inr rx))
     \<and> round_answer r = Some Expired"

lemma send_answer:
  "snd (send_ton_message env c acc msg e answer q) =
     (case snd (register_message env c acc msg e q) of
        Inl err \<Rightarrow> Inl err
      | Inr rx \<Rightarrow> (case answer of Some s \<Rightarrow> Inr s | None \<Rightarrow> Inl ChannelClosed))"
  by (simp add: send_ton_message_def split: prod.split sum.split)

lemma deliver_loop_expires:
  assumes "round_expires env m r"
  obtains sm where "ton_sign env (utc_now r) (round_signature_id r) m = Inr sm"
    "deliver_loop env m (r # rounds) = map_option (\<lambda>(sent, result). (sm # sent, result)) (deliver_loop env m rounds)"
proof -
  obtain sm q rx where sm: "ton_sign env (utc_now r) (round_signature_id r) m = Inr sm"
    "register_message env (round_channel r) (sm_account sm) (sm_message sm) (sm_expire_at sm) (round_queue r) = (q, Inr rx)"
    and r: "condition_holds r" "round_answer r = Some Expired"
    using assms unfolding round_expires_def by blast
  have "deliver_loop env m (r # rounds) = map_option (\<lambda>(sent, result). (sm # sent, result)) (deliver_loop env m rounds)"
    using r sm by (simp add: send_answer split: option.split)
  with sm(1) show thesis by (rule that)
qed

lemma deliver_loop_ends:
  assumes "\<not> round_expires env m r"
  shows "deliver_loop env m (r # rounds) = Some
    (if \<not> condition_holds r then ([], Inr ())
     else case ton_sign env (utc_now r) (round_signature_id r) m of
       Inl e \<Rightarrow> ([], Inl e)
     | Inr sm \<Rightarrow> ([sm],
         case snd (register_message env (round_channel r) (sm_account sm) (sm_message sm) (sm_expire_at sm) (round_queue r)) of
           Inl e \<Rightarrow> Inl e
         | Inr rx \<Rightarrow> if round_answer r = Some Delivered then Inr () else Inl ChannelClosed))"
proof (cases "condition_holds r")
  case True
  show ?thesis
  proof (cases "ton_sign env (utc_now r) (round_signature_id r) m")
    case (Inr sm)
    show ?thesis
    proof (cases "register_message env (round_channel r) (sm_account sm) (sm_message sm) (sm_expire_at sm) (round_queue r)")
      case (Pair q registered)
      show ?thesis
      proof (cases registered)
        case (Inr rx)
        then have "round_answer r \<noteq> Some Expired"
          using assms True \<open>ton_sign _ _ _ m = Inr sm\<close> Pair by (auto simp: round_expires_def)
        then show ?thesis
          using True \<open>ton_sign _ _ _ m = Inr sm\<close> Pair Inr
          by (cases "round_answer r"; cases "the (round_answer r)") (simp_all add: send_answer)
      qed (use True \<open>ton_sign _ _ _ m = Inr sm\<close> Pair in \<open>simp add: send_answer\<close>)
    qed
  qed (use True in simp)
qed simp

text \<open>
  C23: The delivery loop goes on exactly as long as messages expire, and ends at the first round in which none does: it
  still runs when all rounds expired, each of which sent one message signed at its own clock and signature id; else the
  result is that of the first other round: success without another message if the condition no longer holds, the
  error of signing or queueing, success if its message was delivered, or the closed channel.
\<close>

theorem delivery_returns:
  "((\<forall>r \<in> set rounds. round_expires env m r) \<longleftrightarrow> deliver_loop env m rounds = None)
   \<and> (\<forall>expired r later. rounds = expired @ r # later \<and> (\<forall>r' \<in> set expired. round_expires env m r') \<and> \<not> round_expires env m r \<longrightarrow>
       (\<exists>sent. list_all2 (\<lambda>r' sm. ton_sign env (utc_now r') (round_signature_id r') m = Inr sm) expired sent
         \<and> deliver_loop env m rounds = Some
            (if \<not> condition_holds r then (sent, Inr ())
             else case ton_sign env (utc_now r) (round_signature_id r) m of
               Inl e \<Rightarrow> (sent, Inl e)
             | Inr sm \<Rightarrow> (sent @ [sm],
                 case snd (register_message env (round_channel r) (sm_account sm) (sm_message sm) (sm_expire_at sm) (round_queue r)) of
                   Inl e \<Rightarrow> Inl e
                 | Inr rx \<Rightarrow> if round_answer r = Some Delivered then Inr () else Inl ChannelClosed))))"
proof (induction rounds)
  case (Cons r' rounds)
  show ?case
  proof (cases "round_expires env m r'")
    case True
    then obtain sm where sm: "ton_sign env (utc_now r') (round_signature_id r') m = Inr sm"
      "deliver_loop env m (r' # rounds) = map_option (\<lambda>(sent, result). (sm # sent, result)) (deliver_loop env m rounds)"
      by (rule deliver_loop_expires)
    show ?thesis
    proof (intro conjI allI impI, goal_cases)
      case 1
      show ?case using Cons.IH [THEN conjunct1] True sm(2) by simp
    next
      case (2 expired r later)
      then obtain expired' where e: "expired = r' # expired'" "rounds = expired' @ r # later"
        using True by (cases expired) auto
      with Cons.IH [THEN conjunct2, rule_format, of expired' r later] 2 obtain sent where
        sent: "list_all2 (\<lambda>r' sm. ton_sign env (utc_now r') (round_signature_id r') m = Inr sm) expired' sent"
        "deliver_loop env m rounds = Some
            (if \<not> condition_holds r then (sent, Inr ())
             else case ton_sign env (utc_now r) (round_signature_id r) m of
               Inl e \<Rightarrow> (sent, Inl e)
             | Inr sm \<Rightarrow> (sent @ [sm],
                 case snd (register_message env (round_channel r) (sm_account sm) (sm_message sm) (sm_expire_at sm) (round_queue r)) of
                   Inl e \<Rightarrow> Inl e
                 | Inr rx \<Rightarrow> if round_answer r = Some Delivered then Inr () else Inl ChannelClosed))" by auto
      show ?case
        by (rule exI [of _ "sm # sent"]) (use sent sm e(1) in \<open>auto split: sum.split\<close>)
    qed
  next
    case False
    note ends = deliver_loop_ends [OF False, of rounds]
    show ?thesis
    proof (intro conjI allI impI, goal_cases)
      case 1
      show ?case using False ends by (simp del: deliver_loop.simps)
    next
      case (2 expired r later)
      then have "expired = []" "r = r'" using False by (cases expired; auto)+
      then show ?case using ends by (auto simp del: deliver_loop.simps split: sum.split)
    qed
  qed
qed simp

definition eth_recover :: "(bytes \<Rightarrow> i32 \<times> bytes \<Rightarrow> eth_address) \<Rightarrow> (bytes \<Rightarrow> bytes) \<Rightarrow> bytes \<Rightarrow> bytes \<Rightarrow> eth_address" where
  "eth_recover recover keccak data signature =
     recover (keccak (eth_prefix @ keccak data)) (ucast (signature ! 64 - 27), take 64 signature)"

text \<open>
  A signature for Ethereum has 65 bytes, and recovering the signer from its EIP-191 hash
  yields our address, for every recovery function that inverts the library's signing.
\<close>

theorem eth_signature_recovers:
  assumes "\<forall>hash. recover hash (sign_ecdsa_recoverable env hash) = address
      \<and> length (snd (sign_ecdsa_recoverable env hash)) = 64
      \<and> fst (sign_ecdsa_recoverable env hash) \<in> {0, 1, 2, 3}"
  shows "length (eth_sign env data) = 65
    \<and> eth_recover recover (keccak256 env) data (eth_sign env data) = address"
proof -
  let ?hash = "keccak256 env (eth_prefix @ keccak256 env data)"
  obtain i s where sig: "sign_ecdsa_recoverable env ?hash = (i, s)" by (cases "sign_ecdsa_recoverable env ?hash")
  have s: "length s = 64" "i \<in> {0, 1, 2, 3}" "recover ?hash (i, s) = address"
    using assms [rule_format, of ?hash] sig by simp_all
  have "ucast (ucast i :: u8) = i" using s(2) by auto
  with sig s show ?thesis by (simp add: eth_sign_def eth_recover_def Let_def nth_append)
qed

subsection \<open>Witnesses\<close>

definition demo_signer :: signer_env where
  "demo_signer = \<lparr>keccak256 = (\<lambda>_. replicate 32 0), sign_ecdsa_recoverable = (\<lambda>_. (1, replicate 64 3)),
     encode_input = (\<lambda>_ _ _ _ _. Inr []), load_builder = Inr, write_to_bytes = (\<lambda>_. Inr []),
     write_to_new_cell = (\<lambda>_. Inr [7]), serialize_toc = Inr, cell_repr_hash = id, model_params = (\<lambda>_. []),
     ton_raw_public_key = [1], default_public_key = [], feature_ton = False\<rparr>"

definition demo_unsigned :: unsigned_message where
  "demo_unsigned = unsigned_message_new eth_ton_event_contract_confirm [5]"

definition demo_round :: "bool \<Rightarrow> message_status option \<Rightarrow> delivery_round" where
  "demo_round holds answer = \<lparr>condition_holds = holds, utc_now = 1000, round_signature_id = None,
     round_queue = messages_queue_new, round_channel = 0, round_answer = answer\<rparr>"

definition demo_signed :: signed_message where
  "demo_signed = projr (ton_sign demo_signer 1000 None demo_unsigned)"

lemma demo_signed: "ton_sign demo_signer 1000 None demo_unsigned = Inr demo_signed"
  by (simp add: demo_signed_def ton_sign_def build_message_def demo_signer_def Let_def)

lemma demo_register:
  assumes "queue_entries q = []"
  shows "\<exists>q'. register_message demo_signer c (sm_account demo_signed) (sm_message demo_signed)
    (sm_expire_at demo_signed) q = (q', Inr c)"
  using assms by (simp add: register_message_def demo_signed_def ton_sign_def build_message_def demo_signer_def
      add_message_def Let_def)

lemma demo_send: "queue_entries q = [] \<Longrightarrow> snd (send_ton_message demo_signer c (sm_account demo_signed)
    (sm_message demo_signed) (sm_expire_at demo_signed) (Some answer) q) = Inr answer"
  using demo_register [of q c] by (auto simp: send_ton_message_def)

theorem delivery_trace_witness:
  "\<exists>sent. deliver_loop demo_signer demo_unsigned
      [demo_round True (Some Expired), demo_round True (Some Delivered)] = Some (sent, Inr ())
    \<and> length sent \<le> 2"
proof -
  have "deliver_loop demo_signer demo_unsigned
      [demo_round True (Some Expired), demo_round True (Some Delivered)] = Some ([demo_signed, demo_signed], Inr ())"
    by (simp add: demo_round_def demo_signed demo_send messages_queue_new_def)
  from delivery_trace [OF this] this show ?thesis by (auto simp: numeral_2_eq_2)
qed

lemma demo_expires: "round_expires demo_signer demo_unsigned (demo_round True (Some Expired))"
  using demo_register [of messages_queue_new 0]
  by (auto simp: round_expires_def demo_round_def demo_signed messages_queue_new_def)

theorem delivery_returns_witness:
  "\<exists>sent. length sent = 2 \<and> deliver_loop demo_signer demo_unsigned
      [demo_round True (Some Expired), demo_round True (Some Expired), demo_round False None, demo_round True None]
    = Some (sent, Inr ())"
proof -
  have "\<not> round_expires demo_signer demo_unsigned (demo_round False None)"
    by (simp add: round_expires_def demo_round_def)
  with delivery_returns [THEN conjunct2, rule_format,
      of "[demo_round True (Some Expired), demo_round True (Some Expired), demo_round False None, demo_round True None]"
        "[demo_round True (Some Expired), demo_round True (Some Expired)]" "demo_round False None" "[demo_round True None]"
        demo_signer demo_unsigned] demo_expires
  obtain sent where "list_all2 (\<lambda>r' sm. ton_sign demo_signer (utc_now r') (round_signature_id r') demo_unsigned = Inr sm)
      [demo_round True (Some Expired), demo_round True (Some Expired)] sent"
    "deliver_loop demo_signer demo_unsigned
      [demo_round True (Some Expired), demo_round True (Some Expired), demo_round False None, demo_round True None]
      = Some (sent, Inr ())"
    by (auto simp: demo_round_def simp del: deliver_loop.simps)
  then show ?thesis by (auto dest!: list_all2_lengthD)
qed

theorem eth_signature_recovers_witness: "length (eth_sign demo_signer [1]) = 65"
  using eth_signature_recovers [of "\<lambda>_ _. []" demo_signer "[]" "[1]"] by (simp add: demo_signer_def)

theorem expired_only_after_expiry_witness:
  "\<exists>shard utime. UpdateQueue shard utime \<in> {UpdateQueue \<lparr>workchain_id = 0, shard_prefix_with_tag = SHARD_FULL\<rparr> 100}
    \<and> sm_expire_at demo_signed < utime \<and> contains_account (\<lambda>_. 0) shard (um_account demo_unsigned)"
proof -
  define q1 where "q1 = fst (add_message 0 (sm_account demo_signed) [7] (sm_expire_at demo_signed) messages_queue_new)"
  have reg: "register_message demo_signer 0 (sm_account demo_signed) (sm_message demo_signed)
      (sm_expire_at demo_signed) messages_queue_new = (q1, Inr 0)"
    by (simp add: register_message_def demo_signed_def ton_sign_def build_message_def demo_signer_def
        q1_def add_message_def messages_queue_new_def Let_def)
  have e: "sm_expire_at demo_signed = 61"
    by (simp add: demo_signed_def ton_sign_def build_message_def demo_signer_def message_expire_at_def
        MESSAGE_TTL_SEC_def Let_def)
  have "(0, Some Expired) \<in> set (snd (run_ops (queue_step (\<lambda>_. 0))
      [UpdateQueue \<lparr>workchain_id = 0, shard_prefix_with_tag = SHARD_FULL\<rparr> 100] q1))"
    by (simp add: q1_def e add_message_def messages_queue_new_def queue_update_def contains_account_def send_status_def)
  from expired_only_after_expiry [OF queue_inv_new demo_signed reg _ _ this] show ?thesis
    by (simp add: queue_waiting_def messages_queue_new_def)
qed

end
