(* ===== verification/Solana.thy ===== *)
theory Solana
  imports Prelude
begin

section \<open>Solana: messages, errors and retries\<close>

text \<open>
  The data the bridge and the subscriber of \<open>src/engine/sol_subscriber/mod.rs\<close> exchange, the
  errors of the Solana client as far as the code tells them apart, and the retry policy of
  \<open>src/utils/retry.rs\<close>. Instructions of the bridge program are built by a third-party crate:
  they are opaque constructors that keep the arguments the code passes.
\<close>

datatype sol_vote = SolConfirm | SolReject

datatype sol_instruction =
    VoteForProposalIx uint256 u8 uint256 uint256 u32 sol_vote \<comment> \<open>program, instruction, voter, proposal, round\<close>
  | ExecuteProposalIx uint256 u8 uint256 "(uint256 \<times> bool \<times> bool) list"
  | ExecutePayloadIx uint256 u8 uint256 "(uint256 \<times> bool \<times> bool) list"

record sol_message =
  sol_instructions :: "sol_instruction list"
  sol_payer :: uint256

datatype client_error =
    PreflightBlockhashNotFound
  | PreflightCustom u32
  | PreflightOther
  | TransactionCustom u32
  | OtherClientError

record sol_ton_transaction_data =
  std_program_id :: uint256
  std_signature :: bytes
  std_slot :: u64
  std_block_time :: "64 word" \<comment> \<open>\<open>i64\<close>, read with \<open>sint\<close>\<close>
  std_seed :: u128

record sol_ton_account_data =
  sad_program_id :: uint256
  sad_seed :: u128
  sad_event_data :: bytes

subsection \<open>Retries\<close>

text \<open>
  \<open>tryhard\<close> runs the request once and then at most \<open>n\<close> times again, as long as it fails and the
  strategy asks for a delay. The list holds the results of the attempts; \<open>None\<close> means they did
  not suffice. A transaction the program rejected in the simulation or on chain is not sent again.
\<close>

datatype retry_policy = Delay | Break

definition sol_rpc_delay :: "client_error \<Rightarrow> retry_policy" where
  "sol_rpc_delay err =
     (case err of
        PreflightBlockhashNotFound \<Rightarrow> Delay
      | PreflightCustom code \<Rightarrow> Break
      | PreflightOther \<Rightarrow> Break
      | TransactionCustom code \<Rightarrow> Break
      | OtherClientError \<Rightarrow> Delay)"

fun retry :: "('e \<Rightarrow> retry_policy) \<Rightarrow> nat \<Rightarrow> ('e + 'a) list \<Rightarrow> ('e + 'a) option" where
  "retry delay n [] = None"
| "retry delay n (Inr x # attempts) = Some (Inr x)"
| "retry delay 0 (Inl e # attempts) = Some (Inl e)"
| "retry delay (Suc n) (Inl e # attempts) =
     (if delay e = Break then Some (Inl e) else retry delay n attempts)"

lemma retry_returns: "n < length attempts \<Longrightarrow> retry delay n attempts \<noteq> None"
  by (induction delay n attempts rule: retry.induct) auto

lemma retry_result:
  "retry delay n attempts = Some r \<Longrightarrow>
     \<exists>failed rest. attempts = map Inl failed @ r # rest \<and> length failed \<le> n
       \<and> (\<forall>e \<in> set failed. delay e = Delay)
       \<and> (\<forall>e. r = Inl e \<longrightarrow> delay e = Break \<or> length failed = n)"
proof (induction delay n attempts rule: retry.induct)
  case (2 delay n x attempts)
  then show ?case by (intro exI [of _ "[]"] exI [of _ attempts]) auto
next
  case (3 delay e attempts)
  then show ?case by (intro exI [of _ "[]"] exI [of _ attempts]) auto
next
  case (4 delay n e attempts)
  show ?case
  proof (cases "delay e = Break")
    case True
    with 4 show ?thesis by (intro exI [of _ "[]"] exI [of _ attempts]) auto
  next
    case False
    with 4 obtain failed rest where "attempts = map Inl failed @ r # rest" "length failed \<le> n"
      "\<forall>e \<in> set failed. delay e = Delay" "\<forall>e. r = Inl e \<longrightarrow> delay e = Break \<or> length failed = n"
      by auto
    with False show ?thesis by (intro exI [of _ "e # failed"] exI [of _ rest]) (auto, metis retry_policy.exhaust)
  qed
qed simp

end
