(* ===== verification/Bridge_Update.thy ===== *)
theory Bridge_Update
  imports Bridge_Config Delivery Solana
begin

section \<open>Voting for an event\<close>

text \<open>
  The four \<open>update_*_event\<close> functions of \<open>src/engine/bridge/mod.rs\<close>: what the relay does,
  from the moment an event contract has relay keys to the message that confirms or rejects it.
  Each function is one task; while it waits, other tasks may change the bridge. The record
  \<open>update_world\<close> holds what the task's awaits return and, for each of them, what the others
  did in the meantime (\<open>during n\<close>, an arbitrary function on the bridge). Third-party code
  (ABI decoding, borsh, the Solana program's instructions and addresses) is in \<open>update_env\<close>.
\<close>

record token_info =
  info_name :: string
  info_symbol :: string
  info_decimals :: u8

datatype solana_bridge_error =
    EmergencyEnabled | VotesOverflow | InvalidVote | InvalidRelay | OtherBridgeError

text \<open>It panics on a custom code that is not one of the bridge program.\<close>

definition parse_client_error :: "(u32 \<Rightarrow> solana_bridge_error option) \<Rightarrow> client_error \<Rightarrow> error res" where
  "parse_client_error bridge_error err =
     (case err of
        PreflightCustom code \<Rightarrow>
          (case bridge_error code of
             None \<Rightarrow> Inl (Panic ''trust_me'')
           | Some EmergencyEnabled \<Rightarrow> Inr (Foreign ''EmergencyEnabled'')
           | Some VotesOverflow \<Rightarrow> Inr (Foreign ''VotesOverflow'')
           | Some InvalidVote \<Rightarrow> Inr (Foreign ''InvalidVote'')
           | Some InvalidRelay \<Rightarrow> Inr (Foreign ''InvalidRelay'')
           | Some _ \<Rightarrow> Inr (Foreign ''Solana RPC error''))
      | TransactionCustom code \<Rightarrow>
          (case bridge_error code of
             None \<Rightarrow> Inl (Panic ''trust_me'')
           | Some EmergencyEnabled \<Rightarrow> Inr (Foreign ''EmergencyEnabled'')
           | Some VotesOverflow \<Rightarrow> Inr (Foreign ''VotesOverflow'')
           | Some InvalidVote \<Rightarrow> Inr (Foreign ''InvalidVote'')
           | Some InvalidRelay \<Rightarrow> Inr (Foreign ''InvalidRelay'')
           | Some _ \<Rightarrow> Inr (Foreign ''Solana Transaction error''))
      | _ \<Rightarrow> Inr (Foreign ''Solana Client error''))"

record update_env = bridge_env +
  param_models :: "string \<Rightarrow> (string \<times> param_type) list"
  decode_event_data :: "ton_event_abi \<Rightarrow> cell \<Rightarrow> tokens res" \<comment> \<open>\<open>load_cell\<close>, then \<open>decode_params\<close>\<close>
  map_ton_tokens_to_eth_bytes :: "tokens \<Rightarrow> bytes res"
  make_mapped_ton_event :: "u64 \<Rightarrow> u32 \<Rightarrow> bytes \<Rightarrow> uint256 \<Rightarrow> uint256 \<Rightarrow> eth_address \<Rightarrow> u32 \<Rightarrow> bytes"
  borsh_serialize :: "tokens \<Rightarrow> bytes res"
  parse_signature :: "string \<Rightarrow> bytes res"
  sol_hash :: "bytes \<Rightarrow> uint256"
  get_associated_proposal_address :: "uint256 \<Rightarrow> u32 \<Rightarrow> u32 \<Rightarrow> u64 \<Rightarrow> uint256 \<Rightarrow> uint256 \<Rightarrow> uint256"
  bridge_error_code :: "u32 \<Rightarrow> solana_bridge_error option"
  eth_signer :: signer_env

record update_world =
  during :: "nat \<Rightarrow> bridge \<Rightarrow> bridge"
  wait_contract_state :: "uint256 \<Rightarrow> existing_contract res"
  get_existing_state :: "uint256 \<Rightarrow> existing_contract option res"
  eth_verify :: "u32 \<Rightarrow> eth_ton_event_vote_data \<Rightarrow> eth_address \<Rightarrow> eth_event_abi \<Rightarrow> u16 \<Rightarrow> bool \<Rightarrow> verification_status res"
  get_token_meta :: "msg_address \<Rightarrow> token_info res"
  verify_sol_ton :: "sol_ton_transaction_data \<Rightarrow> sol_ton_account_data \<Rightarrow> verification_status res"
  verify_ton_sol :: "uint256 \<Rightarrow> bytes \<Rightarrow> u32 \<Rightarrow> verification_status res"
  sol_rpc_client :: "unit res"
  is_already_voted :: "u32 \<Rightarrow> uint256 \<Rightarrow> uint256 \<Rightarrow> bool res"
  decode_vote_ix :: "sol_message \<Rightarrow> sol_vote res"
  sol_send :: "sol_message \<Rightarrow> client_error + unit"
  sol_signature_status :: "client_error + unit"
  deliver_result :: "unsigned_message \<Rightarrow> unit res"

datatype update_effect = DeliverTon unsigned_message | SendSol sol_message

type_synonym update_result = "bridge \<times> update_effect list \<times> unit res"

text \<open>The message of a vote: the function's arguments, the vote receiver last.\<close>

definition vote_message ::
  "(string \<Rightarrow> (string \<times> param_type) list) \<Rightarrow> abi_function \<Rightarrow> uint256 \<Rightarrow> token_value list \<Rightarrow> unsigned_message res"
where
  "vote_message models f acc args =
     foldl (\<lambda>m v. rbind m (arg models v)) (Inr (unsigned_message_new f acc))
       (args @ [TokenAddrStd \<lparr>addr_workchain = 0, addr_hash = acc\<rparr>])"

text \<open>
  The end of all four functions: the message is delivered while the event is still pending;
  the observer is taken from its entry, so nothing is sent for an event that is gone.
\<close>

definition deliver_vote ::
  "update_world \<Rightarrow> (bridge \<Rightarrow> events_state) \<Rightarrow> uint256 \<Rightarrow> unsigned_message \<Rightarrow> bridge \<Rightarrow> update_result"
where
  "deliver_vote w events acc message b =
     (case hm_get (pending (events b)) acc of
        None \<Rightarrow> (b, [], Inr ())
      | Some _ \<Rightarrow> (during w 9 b, [DeliverTon message], deliver_result w message))"

subsection \<open>ETH to TON\<close>

text \<open>The checks of the token root: whether the event's wallet and token belong together.\<close>

definition check_token_wallet :: "update_env \<Rightarrow> update_world \<Rightarrow> existing_contract \<Rightarrow> bool res" where
  "check_token_wallet env w contract =
     rbind (eth_ton_event_decoded_data_of (abi env) contract) (\<lambda>decoded.
       if addr_workchain (token decoded) \<noteq> 0 \<or> addr_workchain (token_wallet decoded) \<noteq> 0
       then Inr False
       else rbind (wait_contract_state w (addr_hash (token decoded))) (\<lambda>root_contract.
            rbind (if ton_feature env
                   then jetton_minter_get_wallet_address (abi env) root_contract (proxy decoded)
                   else wallet_of (abi env) root_contract (proxy decoded)) (\<lambda>computed_token_wallet.
              if token_wallet decoded \<noteq> computed_token_wallet then Inr False
              else rbind (get_existing_state w (addr_hash (token_wallet decoded))) (\<lambda>wallet_contract.
                (case wallet_contract of
                   None \<Rightarrow> Inr False
                 | Some wallet_contract \<Rightarrow>
                     rbind (if ton_feature env then jetton_wallet_root (abi env) wallet_contract
                            else token_wallet_root (abi env) wallet_contract) (\<lambda>computed_token_root.
                       Inr (token decoded = computed_token_root)))))))"

definition update_eth_ton_event :: "update_env \<Rightarrow> update_world \<Rightarrow> uint256 \<Rightarrow> bridge \<Rightarrow> update_result" where
  "update_eth_ton_event env w acc b =
     (case start_processing acc (eth_ton_events_state b) of
        (False, st) \<Rightarrow> (b\<lparr>eth_ton_events_state := st\<rparr>, [], Inr ())
      | (True, st) \<Rightarrow>
         (let b = during w 0 (b\<lparr>eth_ton_events_state := st\<rparr>);
              remove = (\<lambda>b. b\<lparr>eth_ton_events_state := events_remove acc (eth_ton_events_state b)\<rparr>)
          in case rbind (wait_contract_state w acc) (\<lambda>contract.
               rbind (event_base_process (abi env) contract (ton_public_key env) False) (\<lambda>action.
                 Inr (contract, action))) of
               Inl e \<Rightarrow> (b, [], Inl e)
             | Inr (contract, Nop) \<Rightarrow> (b, [], Inr ())
             | Inr (contract, Remove) \<Rightarrow> (remove b, [], Inr ())
             | Inr (contract, Vote) \<Rightarrow>
                (case eth_ton_event_init_data_of (abi env) contract of
                   Inl e \<Rightarrow> (b, [], Inl e)
                 | Inr init \<Rightarrow>
                    (let b = during w 1 b
                     in case hm_get (eth_ton_event_configurations b) (et_configuration init) of
                          None \<Rightarrow> (remove b, [], Inr ())
                        | Some c \<Rightarrow>
                           (let net = network_configuration (et_details c);
                                checks = (if check_token_root (mapping_context c)
                                          then check_token_wallet env w contract else Inr True);
                                b = (if check_token_root (mapping_context c) then during w 2 b else b)
                            in case checks of
                                 Inl e \<Rightarrow> (b, [], Inl e)
                               | Inr preliminary_checks_succeeded \<Rightarrow>
                                  if \<not> eth_subscriber_exists env (etc_chain_id net) then (remove b, [], Inr ())
                                  else
                                   (let b = during w 3 b;
                                        verified = eth_verify w (etc_chain_id net) (et_vote_data init)
                                          (etc_event_emitter net) (et_event_abi c) (event_blocks_to_confirm net)
                                          preliminary_checks_succeeded
                                    in case verified of
                                         Inl e \<Rightarrow> (remove b, [], Inr ())
                                       | Inr outcome \<Rightarrow>
                                          (case vote_message (param_models env)
                                                  (case outcome of Exists \<Rightarrow> eth_ton_event_contract_confirm
                                                   | NotExists reason \<Rightarrow> eth_ton_event_contract_reject) acc [] of
                                             Inl e \<Rightarrow> (b, [], Inl e)
                                           | Inr message \<Rightarrow>
                                               deliver_vote w eth_ton_events_state acc message b)))))))"

subsection \<open>TON to ETH\<close>

definition token_meta_mismatch :: "ton_eth_event_decoded_data \<Rightarrow> token_info \<Rightarrow> bool" where
  "token_meta_mismatch decoded expected \<longleftrightarrow>
     te_name decoded \<noteq> info_name expected \<or> te_symbol decoded \<noteq> info_symbol expected
     \<or> te_decimals decoded \<noteq> info_decimals expected"

definition update_ton_eth_event :: "update_env \<Rightarrow> update_world \<Rightarrow> uint256 \<Rightarrow> bridge \<Rightarrow> update_result" where
  "update_ton_eth_event env w acc b =
     (case start_processing acc (ton_eth_events_state b) of
        (False, st) \<Rightarrow> (b\<lparr>ton_eth_events_state := st\<rparr>, [], Inr ())
      | (True, st) \<Rightarrow>
         (let b = during w 0 (b\<lparr>ton_eth_events_state := st\<rparr>);
              remove = (\<lambda>b. b\<lparr>ton_eth_events_state := events_remove acc (ton_eth_events_state b)\<rparr>)
          in case rbind (wait_contract_state w acc) (\<lambda>contract.
               rbind (event_base_process (abi env) contract (ton_public_key env) True) (\<lambda>action.
                 Inr (contract, action))) of
               Inl e \<Rightarrow> (b, [], Inl e)
             | Inr (contract, Nop) \<Rightarrow> (b, [], Inr ())
             | Inr (contract, Remove) \<Rightarrow> (remove b, [], Inr ())
             | Inr (contract, Vote) \<Rightarrow>
                (case rbind (round_number (abi env) contract) (\<lambda>round_num.
                        rbind (ton_eth_event_init_data_of (abi env) contract) (\<lambda>init. Inr (round_num, init))) of
                   Inl e \<Rightarrow> (b, [], Inl e)
                 | Inr (round_num, init) \<Rightarrow>
                    (let b = during w 1 b
                     in case hm_get (ton_eth_event_configurations b) (te_configuration init) of
                          None \<Rightarrow> (remove b, [], Inr ())
                        | Some c \<Rightarrow>
                           (let data = decode_event_data env (te_event_abi c) (te_event_data (te_vote_data init));
                                check_meta = (ton_feature env \<and> verify_token_meta (te_context c));
                                mismatch = (if check_meta
                                  then rbind (ton_eth_event_decoded_data_of (abi env) contract) (\<lambda>decoded.
                                       rbind (get_token_meta w (te_token decoded)) (\<lambda>expected.
                                         Inr (token_meta_mismatch decoded expected)))
                                  else Inr False);
                                b = (if check_meta then during w 2 b else b)
                            in case mismatch of
                                 Inl e \<Rightarrow> (b, [], Inl e)
                               | Inr mismatch \<Rightarrow>
                                  (let decoded_data =
                                        (if mismatch then Inl TokenMetadataMismatch
                                         else rbind data (\<lambda>data. rbind (map_ton_tokens_to_eth_bytes env data) (\<lambda>bytes.
                                           Inr (make_mapped_ton_event env (te_event_transaction_lt (te_vote_data init))
                                             (te_event_timestamp (te_vote_data init)) bytes (te_configuration init)
                                             acc (tec_proxy (network_configuration (te_details c))) round_num))));
                                       message = (case decoded_data of
                                           Inr data \<Rightarrow> vote_message (param_models env) ton_eth_event_contract_confirm acc
                                             [TokenBytes (eth_sign (eth_signer env) data)]
                                         | Inl e \<Rightarrow> vote_message (param_models env) ton_eth_event_contract_reject acc [])
                                   in case message of
                                        Inl e \<Rightarrow> (b, [], Inl e)
                                      | Inr message \<Rightarrow> deliver_vote w ton_eth_events_state acc message b))))))"

subsection \<open>SOL to TON\<close>

definition update_sol_ton_event :: "update_env \<Rightarrow> update_world \<Rightarrow> uint256 \<Rightarrow> bridge \<Rightarrow> update_result" where
  "update_sol_ton_event env w acc b =
     (if \<not> sol_enabled env then (b, [], Inr ())
      else case start_processing acc (sol_ton_events_state b) of
        (False, st) \<Rightarrow> (b\<lparr>sol_ton_events_state := st\<rparr>, [], Inr ())
      | (True, st) \<Rightarrow>
         (let b = during w 0 (b\<lparr>sol_ton_events_state := st\<rparr>);
              remove = (\<lambda>b. b\<lparr>sol_ton_events_state := events_remove acc (sol_ton_events_state b)\<rparr>)
          in case rbind (wait_contract_state w acc) (\<lambda>contract.
               rbind (event_base_process (abi env) contract (ton_public_key env) False) (\<lambda>action.
                 Inr (contract, action))) of
               Inl e \<Rightarrow> (b, [], Inl e)
             | Inr (contract, Nop) \<Rightarrow> (b, [], Inr ())
             | Inr (contract, Remove) \<Rightarrow> (remove b, [], Inr ())
             | Inr (contract, Vote) \<Rightarrow>
                (case sol_ton_event_init_data_of (abi env) contract of
                   Inl e \<Rightarrow> (b, [], Inl e)
                 | Inr init \<Rightarrow>
                    (let b = during w 1 b; vote = st_vote_data init
                     in case hm_get (sol_ton_event_configurations b) (st_configuration init) of
                          None \<Rightarrow> (remove b, [], Inr ())
                        | Some c \<Rightarrow>
                           (let program = stc_program (network_configuration (st_details c))
                            in case rbind (rbind (decode_event_data env (st_event_abi c) (st_event_data vote))
                                     (borsh_serialize env)) (\<lambda>decoded_event_data.
                                   rbind (parse_signature env (st_signature vote)) (\<lambda>signature.
                                     Inr (decoded_event_data, signature))) of
                                 Inl e \<Rightarrow> (b, [], Inl e)
                               | Inr (decoded_event_data, signature) \<Rightarrow>
                                  (let transaction_data = \<lparr>std_program_id = program, std_signature = signature,
                                         std_slot = slot vote, std_block_time = block_time vote,
                                         std_seed = account_seed vote\<rparr>;
                                       account_data = \<lparr>sad_program_id = program, sad_seed = account_seed vote,
                                         sad_event_data = decoded_event_data\<rparr>;
                                       b = during w 3 b
                                   in case verify_sol_ton w transaction_data account_data of
                                        Inl e \<Rightarrow> (remove b, [], Inr ())
                                      | Inr outcome \<Rightarrow>
                                         (case vote_message (param_models env)
                                                 (case outcome of Exists \<Rightarrow> sol_ton_event_contract_confirm
                                                  | NotExists reason \<Rightarrow> sol_ton_event_contract_reject) acc [] of
                                            Inl e \<Rightarrow> (b, [], Inl e)
                                          | Inr message \<Rightarrow>
                                              deliver_vote w sol_ton_events_state acc message b)))))))"

subsection \<open>TON to SOL\<close>

definition execute_accounts_of :: "execute_account list \<Rightarrow> (uint256 \<times> bool \<times> bool) list" where
  "execute_accounts_of accounts = map (\<lambda>a. (ea_account a, read_only a, is_signer a)) accounts"

text \<open>The Solana messages of a vote: the vote, and after a confirmation the execution and its payload.\<close>

definition sol_messages ::
  "update_env \<Rightarrow> ton_sol_event_vote_data \<Rightarrow> ton_sol_event_configuration \<Rightarrow> uint256 \<Rightarrow> u32 \<Rightarrow>
     verification_status \<Rightarrow> sol_message \<times> sol_message option \<times> sol_message option"
where
  "sol_messages env vote net proposal_pubkey round_num outcome =
     (let voter_pubkey = sol_public_key env;
          message = (\<lambda>ix. \<lparr>sol_instructions = [ix], sol_payer = voter_pubkey\<rparr>)
      in case outcome of
           Exists \<Rightarrow>
             (message (VoteForProposalIx (tsc_program net) (tsc_instruction net) voter_pubkey proposal_pubkey round_num SolConfirm),
              (if execute_needed net
               then Some (message (ExecuteProposalIx (tsc_program net) (execute_instruction net) proposal_pubkey
                      (execute_accounts_of (execute_accounts vote))))
               else None),
              (if execute_needed net \<and> execute_payload_needed vote
               then Some (message (ExecutePayloadIx (tsc_program net) (execute_payload_instruction net) proposal_pubkey
                      (execute_accounts_of (execute_payload_accounts vote))))
               else None))
         | NotExists reason \<Rightarrow>
             (message (VoteForProposalIx (tsc_program net) (tsc_instruction net) voter_pubkey proposal_pubkey round_num SolReject),
              None, None))"

text \<open>
  Executing after the vote: failures are logged, and the payload is sent only after the
  proposal was executed. Only a panic stops the task.
\<close>

definition send_execute ::
  "update_env \<Rightarrow> update_world \<Rightarrow> sol_message option \<Rightarrow> sol_message option \<Rightarrow> update_effect list \<times> unit res"
where
  "send_execute env w execute payload =
     (case execute of
        None \<Rightarrow> ([], Inr ())
      | Some message \<Rightarrow>
          (case sol_send w message of
             Inl e \<Rightarrow> ([SendSol message], rbind (parse_client_error (bridge_error_code env) e) (\<lambda>_. Inr ()))
           | Inr _ \<Rightarrow>
               (case payload of
                  None \<Rightarrow> ([SendSol message], Inr ())
                | Some message' \<Rightarrow>
                    ([SendSol message, SendSol message'],
                     (case sol_send w message' of
                        Inl e \<Rightarrow> rbind (parse_client_error (bridge_error_code env) e) (\<lambda>_. Inr ())
                      | Inr _ \<Rightarrow> Inr ())))))"

text \<open>\<open>map_err(parse_client_error)?\<close>: an error, or a panic while reading it.\<close>

definition client_try :: "update_env \<Rightarrow> client_error + unit \<Rightarrow> unit res" where
  "client_try env r =
     (case r of Inr u \<Rightarrow> Inr u
      | Inl e \<Rightarrow> rbind (parse_client_error (bridge_error_code env) e) (\<lambda>err. Inl err))"

definition vote_on_solana ::
  "update_env \<Rightarrow> update_world \<Rightarrow> u32 \<Rightarrow> uint256 \<Rightarrow> sol_message \<Rightarrow> sol_message option \<Rightarrow> sol_message option \<Rightarrow>
     update_effect list \<times> unit res"
where
  "vote_on_solana env w round_num proposal_pubkey vote_msg execute payload =
     (case rbind (sol_rpc_client w) (\<lambda>_. is_already_voted w round_num proposal_pubkey (sol_public_key env)) of
        Inl e \<Rightarrow> ([], Inl e)
      | Inr True \<Rightarrow> ([], Inr ())
      | Inr False \<Rightarrow>
          (case decode_vote_ix w vote_msg of
             Inl e \<Rightarrow> ([], Inl e)
           | Inr _ \<Rightarrow>
               (case rbind (client_try env (sol_send w vote_msg))
                      (\<lambda>_. client_try env (sol_signature_status w)) of
                  Inl e \<Rightarrow> ([SendSol vote_msg], Inl e)
                | Inr _ \<Rightarrow>
                    (case send_execute env w execute payload of
                       (sent, r) \<Rightarrow> (SendSol vote_msg # sent, r)))))"

definition update_ton_sol_event :: "update_env \<Rightarrow> update_world \<Rightarrow> uint256 \<Rightarrow> bridge \<Rightarrow> update_result" where
  "update_ton_sol_event env w acc b =
     (if \<not> sol_enabled env then (b, [], Inr ())
      else case start_processing acc (ton_sol_events_state b) of
        (False, st) \<Rightarrow> (b\<lparr>ton_sol_events_state := st\<rparr>, [], Inr ())
      | (True, st) \<Rightarrow>
         (let b = during w 0 (b\<lparr>ton_sol_events_state := st\<rparr>);
              remove = (\<lambda>b. b\<lparr>ton_sol_events_state := events_remove acc (ton_sol_events_state b)\<rparr>)
          in case rbind (wait_contract_state w acc) (\<lambda>contract.
               rbind (event_base_process (abi env) contract (ton_public_key env) True) (\<lambda>action.
                 Inr (contract, action))) of
               Inl e \<Rightarrow> (b, [], Inl e)
             | Inr (contract, Nop) \<Rightarrow> (b, [], Inr ())
             | Inr (contract, Remove) \<Rightarrow> (remove b, [], Inr ())
             | Inr (contract, Vote) \<Rightarrow>
                (case rbind (round_number (abi env) contract) (\<lambda>round_num.
                        rbind (created_at (abi env) contract) (\<lambda>created.
                        rbind (ton_sol_event_init_data_of (abi env) contract) (\<lambda>init.
                          Inr (round_num, created, init)))) of
                   Inl e \<Rightarrow> (b, [], Inl e)
                 | Inr (round_num, created, init) \<Rightarrow>
                    (let b = during w 1 b; vote = ts_vote_data init
                     in case hm_get (ton_sol_event_configurations b) (ts_configuration init) of
                          None \<Rightarrow> (remove b, [], Inr ())
                        | Some c \<Rightarrow>
                           (let net = network_configuration (ts_details c)
                            in case rbind (decode_event_data env (ts_event_abi c) (ts_event_data vote))
                                     (borsh_serialize env) of
                                 Inl e \<Rightarrow> (b, [], Inl e)
                               | Inr decoded_event_data \<Rightarrow>
                                  (let proposal_pubkey = get_associated_proposal_address env (tsc_program net) round_num
                                         (ts_event_timestamp vote) (ts_event_transaction_lt vote)
                                         (ts_configuration init) (sol_hash env decoded_event_data);
                                       b = during w 3 b
                                   in case verify_ton_sol w proposal_pubkey decoded_event_data created of
                                        Inl e \<Rightarrow> (remove b, [], Inr ())
                                      | Inr outcome \<Rightarrow>
                                         (case sol_messages env vote net proposal_pubkey round_num outcome of
                                            (vote_msg, execute, payload) \<Rightarrow>
                                              (case vote_message (param_models env)
                                                      (case outcome of Exists \<Rightarrow> ton_sol_event_contract_confirm
                                                       | NotExists reason \<Rightarrow> ton_sol_event_contract_reject) acc [] of
                                                 Inl e \<Rightarrow> (b, [], Inl e)
                                               | Inr message \<Rightarrow>
                                                  (case vote_on_solana env w round_num proposal_pubkey vote_msg execute payload of
                                                     (sent, Inl e) \<Rightarrow> (during w 4 b, sent, Inl e)
                                                   | (sent, Inr _) \<Rightarrow>
                                                       (case deliver_vote w ton_sol_events_state acc message (during w 4 b) of
                                                          (b, delivered, r) \<Rightarrow> (b, sent @ delivered, r)))))))))))"

subsection \<open>Vote messages\<close>

definition vote_of :: "abi_function \<Rightarrow> uint256 \<Rightarrow> tokens \<Rightarrow> unsigned_message" where
  "vote_of f acc args = \<lparr>um_function = f,
     um_inputs = args @ [(''voteReceiver'', TokenAddrStd \<lparr>addr_workchain = 0, addr_hash = acc\<rparr>)],
     um_account = acc, um_dst = \<lparr>addr_workchain = 0, addr_hash = acc\<rparr>\<rparr>"

lemmas vote_functions =
  eth_ton_event_contract_confirm_def eth_ton_event_contract_reject_def
  ton_eth_event_contract_confirm_def ton_eth_event_contract_reject_def
  sol_ton_event_contract_confirm_def sol_ton_event_contract_reject_def
  ton_sol_event_contract_confirm_def ton_sol_event_contract_reject_def

text \<open>Building a vote never panics: it has as many arguments as its function has inputs.\<close>

lemma vote_messages [simp]:
  "vote_message models eth_ton_event_contract_confirm acc [] = Inr (vote_of eth_ton_event_contract_confirm acc [])"
  "vote_message models eth_ton_event_contract_reject acc [] = Inr (vote_of eth_ton_event_contract_reject acc [])"
  "vote_message models ton_eth_event_contract_confirm acc [v] =
     Inr (vote_of ton_eth_event_contract_confirm acc [(''signature'', v)])"
  "vote_message models ton_eth_event_contract_reject acc [] = Inr (vote_of ton_eth_event_contract_reject acc [])"
  "vote_message models sol_ton_event_contract_confirm acc [] = Inr (vote_of sol_ton_event_contract_confirm acc [])"
  "vote_message models sol_ton_event_contract_reject acc [] = Inr (vote_of sol_ton_event_contract_reject acc [])"
  "vote_message models ton_sol_event_contract_confirm acc [] = Inr (vote_of ton_sol_event_contract_confirm acc [])"
  "vote_message models ton_sol_event_contract_reject acc [] = Inr (vote_of ton_sol_event_contract_reject acc [])"
  by (simp_all add: vote_message_def arg_def unsigned_message_new_def function_params_def vote_of_def vote_functions)

lemma deliver_vote_effects:
  "deliver_vote w events acc message b = (b', effects, r) \<Longrightarrow>
     effects = [] \<or> effects = [DeliverTon message] \<and> hm_get (pending (events b)) acc \<noteq> None"
  by (auto simp: deliver_vote_def split: option.splits)

lemma start_processing_True:
  "start_processing acc st = (True, st') \<Longrightarrow> hm_get (pending st) acc = Some \<lparr>processing_started = False\<rparr>"
  using start_processing_iff [of acc st] by simp

text \<open>
  What an ETH to TON vote rests on: the contract calls for our vote, its configuration is
  known, the preliminary checks have a result, and the chain's subscriber has verified the event.
\<close>

definition eth_ton_verified :: "update_env \<Rightarrow> update_world \<Rightarrow> uint256 \<Rightarrow> bridge \<Rightarrow> verification_status \<Rightarrow> bool" where
  "eth_ton_verified env w acc b outcome \<longleftrightarrow>
     (\<exists>contract init c checks.
        wait_contract_state w acc = Inr contract
        \<and> event_base_process (abi env) contract (ton_public_key env) False = Inr Vote
        \<and> eth_ton_event_init_data_of (abi env) contract = Inr init
        \<and> hm_get (eth_ton_event_configurations b) (et_configuration init) = Some c
        \<and> (if check_token_root (mapping_context c) then check_token_wallet env w contract else Inr True) = Inr checks
        \<and> eth_verify w (etc_chain_id (network_configuration (et_details c))) (et_vote_data init)
            (etc_event_emitter (network_configuration (et_details c))) (et_event_abi c)
            (event_blocks_to_confirm (network_configuration (et_details c))) checks = Inr outcome)"

lemma eth_ton_vote_outcome:
  assumes "update_eth_ton_event env w acc b = (b', effects, r)" and "effects \<noteq> []"
  shows "\<exists>outcome. hm_get (pending (eth_ton_events_state b)) acc = Some \<lparr>processing_started = False\<rparr>
    \<and> eth_ton_verified env w acc
        (during w 1 (during w 0 (b\<lparr>eth_ton_events_state := snd (start_processing acc (eth_ton_events_state b))\<rparr>))) outcome
    \<and> effects = [DeliverTon (vote_of (case outcome of Exists \<Rightarrow> eth_ton_event_contract_confirm
        | NotExists _ \<Rightarrow> eth_ton_event_contract_reject) acc [])]"
  using assms
  unfolding update_eth_ton_event_def Let_def eth_ton_verified_def
  by (auto split: prod.splits sum.splits option.splits event_action.splits if_splits bool.splits verification_status.splits
      dest!: deliver_vote_effects start_processing_True simp: rbind_eq_Inr_iff)

subsection \<open>Properties\<close>

text \<open>
  C7: The relay sends at most one vote for an ETH to TON event, only for an event whose
  processing it was the first to start, and only after the contract asked for it, under a known
  configuration: a confirmation exactly when the chain's subscriber found the event, a
  rejection exactly when it found that it does not exist, with the token checks as part of the
  verification, whatever other tasks do in between.
\<close>

theorem eth_ton_vote_follows_verification:
  assumes "update_eth_ton_event env w acc b = (b', effects, r)" and "effects \<noteq> []"
  shows "\<exists>outcome. hm_get (pending (eth_ton_events_state b)) acc = Some \<lparr>processing_started = False\<rparr>
    \<and> eth_ton_verified env w acc
        (during w 1 (during w 0 (b\<lparr>eth_ton_events_state := snd (start_processing acc (eth_ton_events_state b))\<rparr>))) outcome
    \<and> effects = [DeliverTon (vote_of (case outcome of Exists \<Rightarrow> eth_ton_event_contract_confirm
        | NotExists _ \<Rightarrow> eth_ton_event_contract_reject) acc [])]"
  by (rule eth_ton_vote_outcome [OF assms])


text \<open>
  A TON to ETH confirmation carries our signature of the mapped event, built from the
  event's data under a known configuration; a rejection is sent only if the data cannot be
  mapped or the token's metadata does not match.
\<close>

theorem ton_eth_vote_signed:
  assumes "update_ton_eth_event env w acc b = (b', effects, r)" and "effects \<noteq> []"
  shows "\<exists>contract round_num init c mismatch mapped.
      hm_get (pending (ton_eth_events_state b)) acc = Some \<lparr>processing_started = False\<rparr>
    \<and> wait_contract_state w acc = Inr contract
    \<and> event_base_process (abi env) contract (ton_public_key env) True = Inr Vote
    \<and> round_number (abi env) contract = Inr round_num
    \<and> ton_eth_event_init_data_of (abi env) contract = Inr init
    \<and> hm_get (ton_eth_event_configurations (during w 1 (during w 0
        (b\<lparr>ton_eth_events_state := snd (start_processing acc (ton_eth_events_state b))\<rparr>)))) (te_configuration init) = Some c
    \<and> (mismatch \<longleftrightarrow> ton_feature env \<and> verify_token_meta (te_context c)
        \<and> (\<exists>decoded expected. ton_eth_event_decoded_data_of (abi env) contract = Inr decoded
            \<and> get_token_meta w (te_token decoded) = Inr expected \<and> token_meta_mismatch decoded expected))
    \<and> mapped = rbind (decode_event_data env (te_event_abi c) (te_event_data (te_vote_data init)))
        (map_ton_tokens_to_eth_bytes env)
    \<and> effects = [DeliverTon (case mapped of
          Inr bytes \<Rightarrow> if mismatch then vote_of ton_eth_event_contract_reject acc []
            else vote_of ton_eth_event_contract_confirm acc [(''signature'', TokenBytes (eth_sign (eth_signer env)
                (make_mapped_ton_event env (te_event_transaction_lt (te_vote_data init))
                   (te_event_timestamp (te_vote_data init)) bytes (te_configuration init) acc
                   (tec_proxy (network_configuration (te_details c))) round_num)))]
        | Inl _ \<Rightarrow> vote_of ton_eth_event_contract_reject acc [])]"
  using assms
  unfolding update_ton_eth_event_def Let_def
  by (auto split: prod.splits sum.splits option.splits event_action.splits if_splits bool.splits
      dest!: deliver_vote_effects start_processing_True simp: rbind_eq_Inr_iff)

lemma hm_insert_same: "hm_get m k = Some v \<Longrightarrow> hm_insert k v m = m"
  by (induction m) (auto split: if_splits)

text \<open>
  C24: An update that finds the event contract still initializing leaves the event marked as
  started: every later update of it does nothing, the one its relay keys trigger included, so
  the relay does not vote for the event.
\<close>

theorem postponed_update_blocks_voting:
  assumes "hm_get (pending (eth_ton_events_state b)) acc = Some \<lparr>processing_started = False\<rparr>"
    and "wait_contract_state w acc = Inr contract" and "status (abi env) contract = Inr Initializing"
    and "\<forall>b. during w 0 b = b"
    and "b1 = fst (update_eth_ton_event env w acc b)"
  shows "update_eth_ton_event env w acc b = (b1, [], Inr ())
    \<and> hm_get (pending (eth_ton_events_state b1)) acc = Some \<lparr>processing_started = True\<rparr>
    \<and> process_eth_ton_event k acc (EthTonReceiveRoundRelays [k], Pending) (eth_ton_events_state b1) =
        (eth_ton_events_state b1, [SpawnUpdate EthTon acc])
    \<and> (\<forall>w'. update_eth_ton_event env w' acc b1 = (b1, [], Inr ()))"
proof -
  have start: "start_processing acc (eth_ton_events_state b) = (True, eth_ton_events_state b
      \<lparr>pending := hm_insert acc \<lparr>processing_started = True\<rparr> (pending (eth_ton_events_state b))\<rparr>)"
    using assms(1) by (simp add: start_processing_def)
  then have upd: "update_eth_ton_event env w acc b = (b\<lparr>eth_ton_events_state := eth_ton_events_state b
      \<lparr>pending := hm_insert acc \<lparr>processing_started = True\<rparr> (pending (eth_ton_events_state b))\<rparr>\<rparr>, [], Inr ())"
    using assms(2-4) by (simp add: update_eth_ton_event_def event_base_process_def)
  have get: "hm_get (pending (eth_ton_events_state b1)) acc = Some \<lparr>processing_started = True\<rparr>"
    using upd assms(5) by (simp add: hm_simps)
  then have again: "start_processing acc (eth_ton_events_state b1) = (False, eth_ton_events_state b1)"
    by (simp add: start_processing_def hm_insert_same)
  from get upd assms(5) again show ?thesis
    by (simp add: update_eth_ton_event_def process_eth_ton_event_def Let_def)
qed

text \<open>The messages of a vote in the order in which they are sent, as far as the sending gets.\<close>

lemma vote_on_solana_effects:
  assumes "vote_on_solana env w round_num proposal vote_msg execute payload = (sent, r)"
    and "planned = vote_msg # (case execute of None \<Rightarrow> [] | Some m \<Rightarrow> m # (case payload of None \<Rightarrow> [] | Some m' \<Rightarrow> [m']))"
  shows "\<exists>k \<le> length planned. sent = map SendSol (take k planned)
    \<and> (k \<noteq> 0 \<longrightarrow> is_already_voted w round_num proposal (sol_public_key env) = Inr False)
    \<and> (\<forall>i. Suc i < k \<longrightarrow> sol_send w (planned ! i) = Inr ())
    \<and> ((2 \<le> k \<or> r = Inr () \<and> k \<noteq> 0) \<longrightarrow> sol_send w vote_msg = Inr () \<and> sol_signature_status w = Inr ())
    \<and> (r = Inr () \<and> k = 0 \<longrightarrow> is_already_voted w round_num proposal (sol_public_key env) = Inr True)"
proof -
  have try_ok: "client_try env x = Inr u \<longleftrightarrow> x = Inr ()" for x u
    by (auto simp: client_try_def rbind_eq_Inr_iff split: sum.split)
  have prefix: "sent = map SendSol (take (length sent) planned)" "length sent \<le> length planned"
    "sent \<noteq> [] \<Longrightarrow> is_already_voted w round_num proposal (sol_public_key env) = Inr False"
    "2 \<le> length sent \<or> r = Inr () \<and> sent \<noteq> [] \<Longrightarrow> sol_send w vote_msg = Inr () \<and> sol_signature_status w = Inr ()"
    "r = Inr () \<and> sent = [] \<Longrightarrow> is_already_voted w round_num proposal (sol_public_key env) = Inr True"
    using assms unfolding vote_on_solana_def send_execute_def
    by (auto split: sum.splits bool.splits option.splits simp: rbind_eq_Inr_iff try_ok)
  have "sol_send w (planned ! i) = Inr ()" if "Suc i < length sent" for i
  proof (cases i)
    case 0
    with that prefix(4) assms(2) show ?thesis by simp
  next
    case (Suc j)
    then have "3 \<le> length sent" using that by simp
    moreover from this prefix(2) have "j = 0" using that Suc assms(2) by (auto split: option.splits)
    ultimately show ?thesis
      using assms Suc unfolding vote_on_solana_def send_execute_def
      by (auto split: sum.splits bool.splits option.splits)
  qed
  with prefix show ?thesis by (intro exI [of _ "length sent"]) auto
qed

text \<open>
  C18: The relay's two votes on a TON to SOL event agree. The Solana vote, sent first and only if the relay has not
  voted there yet, confirms the proposal if it was verified and rejects it if not, for the program, round and proposal
  address that the event's contract and configuration determine; the TON vote after it is the same. The
  proposal is executed, with the event's accounts, only after a confirming vote that succeeded and if the configuration
  wants it, its payload only after an execution that succeeded; the TON vote is sent only after the Solana vote
  succeeded or was found there already.
\<close>

theorem ton_sol_votes_agree:
  assumes "update_ton_sol_event env w acc b = (b', effects, r)" and "effects \<noteq> []"
  shows "\<exists>contract round_num created init c event_tokens event_data outcome k delivered.
      hm_get (pending (ton_sol_events_state b)) acc = Some \<lparr>processing_started = False\<rparr>
    \<and> wait_contract_state w acc = Inr contract
    \<and> event_base_process (abi env) contract (ton_public_key env) True = Inr Vote
    \<and> ton_sol_event_init_data_of (abi env) contract = Inr init
    \<and> round_number (abi env) contract = Inr round_num \<and> created_at (abi env) contract = Inr created
    \<and> hm_get (ton_sol_event_configurations (during w 1 (during w 0
          (b\<lparr>ton_sol_events_state := snd (start_processing acc (ton_sol_events_state b))\<rparr>)))) (ts_configuration init) = Some c
    \<and> decode_event_data env (ts_event_abi c) (ts_event_data (ts_vote_data init)) = Inr event_tokens
    \<and> borsh_serialize env event_tokens = Inr event_data
    \<and> (let data = ts_vote_data init;
           net = network_configuration (ts_details c);
           proposal = get_associated_proposal_address env (tsc_program net) round_num (ts_event_timestamp data)
             (ts_event_transaction_lt data) (ts_configuration init) (sol_hash env event_data);
           message = (\<lambda>ix. \<lparr>sol_instructions = [ix], sol_payer = sol_public_key env\<rparr>);
           accounts = map (\<lambda>a. (ea_account a, read_only a, is_signer a));
           vote = message (VoteForProposalIx (tsc_program net) (tsc_instruction net) (sol_public_key env) proposal
             round_num (if outcome = Exists then SolConfirm else SolReject));
           execute = message (ExecuteProposalIx (tsc_program net) (execute_instruction net) proposal
             (accounts (execute_accounts data)));
           payload = message (ExecutePayloadIx (tsc_program net) (execute_payload_instruction net) proposal
             (accounts (execute_payload_accounts data)));
           planned = vote # (if outcome = Exists \<and> execute_needed net
             then execute # (if execute_payload_needed data then [payload] else []) else [])
       in verify_ton_sol w proposal event_data created = Inr outcome
        \<and> k \<le> length planned \<and> effects = map SendSol (take k planned) @ delivered
        \<and> (k \<noteq> 0 \<longrightarrow> is_already_voted w round_num proposal (sol_public_key env) = Inr False)
        \<and> (\<forall>i. Suc i < k \<longrightarrow> sol_send w (planned ! i) = Inr ())
        \<and> (2 \<le> k \<or> delivered \<noteq> [] \<and> k \<noteq> 0 \<longrightarrow> sol_send w vote = Inr () \<and> sol_signature_status w = Inr ())
        \<and> (delivered \<noteq> [] \<longrightarrow>
            delivered = [DeliverTon (vote_of (if outcome = Exists then ton_sol_event_contract_confirm
              else ton_sol_event_contract_reject) acc [])]
            \<and> (k = 0 \<longrightarrow> is_already_voted w round_num proposal (sol_public_key env) = Inr True)))"
proof -
  obtain st where enabled: "sol_enabled env" and start: "start_processing acc (ton_sol_events_state b) = (True, st)"
    using assms by (auto simp: update_ton_sol_event_def split: if_splits prod.splits bool.splits)
  then have st: "st = snd (start_processing acc (ton_sol_events_state b))" by simp
  define b1 where "b1 = during w 0 (b\<lparr>ton_sol_events_state := st\<rparr>)"
  obtain contract round_num created init c event_tokens event_data outcome where
    ready: "wait_contract_state w acc = Inr contract"
      "event_base_process (abi env) contract (ton_public_key env) True = Inr Vote"
      "round_number (abi env) contract = Inr round_num" "created_at (abi env) contract = Inr created"
      "ton_sol_event_init_data_of (abi env) contract = Inr init"
      "hm_get (ton_sol_event_configurations (during w 1 b1)) (ts_configuration init) = Some c"
      "decode_event_data env (ts_event_abi c) (ts_event_data (ts_vote_data init)) = Inr event_tokens"
      "borsh_serialize env event_tokens = Inr event_data"
      "verify_ton_sol w (get_associated_proposal_address env (tsc_program (network_configuration (ts_details c))) round_num
         (ts_event_timestamp (ts_vote_data init)) (ts_event_transaction_lt (ts_vote_data init))
         (ts_configuration init) (sol_hash env event_data)) event_data created = Inr outcome"
    using assms start enabled
    unfolding update_ton_sol_event_def Let_def b1_def
    by (auto split: prod.splits sum.splits option.splits event_action.splits if_splits bool.splits simp: rbind_eq_Inr_iff)
  define net where "net = network_configuration (ts_details c)"
  define proposal where "proposal = get_associated_proposal_address env (tsc_program net) round_num
         (ts_event_timestamp (ts_vote_data init)) (ts_event_transaction_lt (ts_vote_data init))
         (ts_configuration init) (sol_hash env event_data)"
  define message :: "sol_instruction \<Rightarrow> sol_message" where
    "message = (\<lambda>ix. \<lparr>sol_instructions = [ix], sol_payer = sol_public_key env\<rparr>)"
  define vote where "vote = message (VoteForProposalIx (tsc_program net) (tsc_instruction net) (sol_public_key env) proposal
     round_num (if outcome = Exists then SolConfirm else SolReject))"
  define planned where "planned = vote # (if outcome = Exists \<and> execute_needed net
     then message (ExecuteProposalIx (tsc_program net) (execute_instruction net) proposal
         (map (\<lambda>a. (ea_account a, read_only a, is_signer a)) (execute_accounts (ts_vote_data init))))
       # (if execute_payload_needed (ts_vote_data init)
          then [message (ExecutePayloadIx (tsc_program net) (execute_payload_instruction net) proposal
            (map (\<lambda>a. (ea_account a, read_only a, is_signer a)) (execute_payload_accounts (ts_vote_data init))))] else []) else [])"
  obtain vote_msg execute payload where msgs:
    "sol_messages env (ts_vote_data init) net proposal round_num outcome = (vote_msg, execute, payload)"
    by (cases "sol_messages env (ts_vote_data init) net proposal round_num outcome") auto
  then have vote_msg: "vote_msg = vote" and planned: "planned = vote_msg # (case execute of None \<Rightarrow> [] | Some m \<Rightarrow>
      m # (case payload of None \<Rightarrow> [] | Some m' \<Rightarrow> [m']))"
    by (auto simp: sol_messages_def Let_def planned_def vote_def message_def execute_accounts_of_def
        split: verification_status.splits if_splits)
  obtain sent r' where sol: "vote_on_solana env w round_num proposal vote_msg execute payload = (sent, r')"
    by (cases "vote_on_solana env w round_num proposal vote_msg execute payload")
  let ?message = "vote_of (if outcome = Exists then ton_sol_event_contract_confirm else ton_sol_event_contract_reject) acc []"
  have "vote_message (param_models env) (case outcome of Exists \<Rightarrow> ton_sol_event_contract_confirm
      | NotExists reason \<Rightarrow> ton_sol_event_contract_reject) acc [] = Inr ?message"
    by (cases outcome) simp_all
  then have eff: "effects = sent @ (case r' of Inl e \<Rightarrow> [] | Inr _ \<Rightarrow>
      fst (snd (deliver_vote w ton_sol_events_state acc ?message (during w 4 (during w 3 (during w 1 b1))))))"
    using assms(1) enabled start ready msgs sol
    by (cases r') (auto simp: update_ton_sol_event_def Let_def case_prod_beta
        b1_def [symmetric] net_def [symmetric] proposal_def [symmetric] split: sum.splits)
  define delivered where "delivered = (case r' of Inl e \<Rightarrow> [] | Inr _ \<Rightarrow>
      fst (snd (deliver_vote w ton_sol_events_state acc ?message (during w 4 (during w 3 (during w 1 b1))))))"
  have delivered: "delivered \<noteq> [] \<Longrightarrow> r' = Inr () \<and> delivered = [DeliverTon ?message]"
    by (auto simp: delivered_def deliver_vote_def split: option.splits sum.splits)
  from vote_on_solana_effects [OF sol planned] obtain k where k: "k \<le> length planned" "sent = map SendSol (take k planned)"
    "k \<noteq> 0 \<longrightarrow> is_already_voted w round_num proposal (sol_public_key env) = Inr False"
    "\<forall>i. Suc i < k \<longrightarrow> sol_send w (planned ! i) = Inr ()"
    "(2 \<le> k \<or> r' = Inr () \<and> k \<noteq> 0) \<longrightarrow> sol_send w vote = Inr () \<and> sol_signature_status w = Inr ()"
    "r' = Inr () \<and> k = 0 \<longrightarrow> is_already_voted w round_num proposal (sol_public_key env) = Inr True"
    unfolding vote_msg by blast
  show ?thesis
    unfolding Let_def
  proof (rule exI [of _ contract], rule exI [of _ round_num], rule exI [of _ created], rule exI [of _ init],
      rule exI [of _ c], rule exI [of _ event_tokens], rule exI [of _ event_data], rule exI [of _ outcome],
      rule exI [of _ k], rule exI [of _ delivered], intro conjI, goal_cases)
    case 1 show ?case using start by (rule start_processing_True)
  next
    case 7 show ?case using ready(6) unfolding b1_def st .
  next
    case 10 show ?case by (rule ready(9))
  next
    case 11 show ?case using k(1) unfolding planned_def vote_def message_def net_def proposal_def .
  next
    case 12 show ?case
      using eff unfolding k(2) delivered_def [symmetric] unfolding planned_def vote_def message_def net_def proposal_def .
  next
    case 13 show ?case using k(3) unfolding net_def proposal_def .
  next
    case 14 show ?case using k(4) unfolding planned_def vote_def message_def net_def proposal_def .
  next
    case 15 show ?case using k(5) delivered unfolding vote_def message_def net_def proposal_def by blast
  next
    case 16 show ?case using k(6) delivered unfolding net_def proposal_def by blast
  qed (rule ready)+
qed

subsection \<open>Witnesses\<close>

definition demo_update_env :: "event_status \<Rightarrow> update_env" where
  "demo_update_env st = \<lparr>abi = demo_abi\<lparr>unpack_status := (\<lambda>_. Inr st)\<rparr>, ton_feature = False, repr_hash = (\<lambda>c. c),
     ton_public_key = [7], sol_public_key = [8], sol_enabled = True, eth_subscriber_exists = (\<lambda>_. True),
     mapping_context_from = (\<lambda>_. \<lparr>check_token_root = False\<rparr>),
     mapping_context_default = \<lparr>check_token_root = False\<rparr>,
     ton_context_from = (\<lambda>_. \<lparr>verify_token_meta = False\<rparr>),
     ton_context_default = \<lparr>verify_token_meta = False\<rparr>,
     eth_event_abi_new = (\<lambda>_ _. Inl (Foreign ''abi'')), decode_ton_event_abi = (\<lambda>_. Inr []),
     param_models = (\<lambda>_. []), decode_event_data = (\<lambda>_ _. Inr []), map_ton_tokens_to_eth_bytes = (\<lambda>_. Inr []),
     make_mapped_ton_event = (\<lambda>_ _ _ _ _ _ _. [42]), borsh_serialize = (\<lambda>_. Inr [1]),
     parse_signature = (\<lambda>_. Inr []), sol_hash = (\<lambda>x. x),
     get_associated_proposal_address = (\<lambda>_ _ _ _ _ _. [9]), bridge_error_code = (\<lambda>_. None),
     eth_signer = demo_signer\<rparr>"

definition demo_world :: update_world where
  "demo_world = \<lparr>during = (\<lambda>_ b. b), wait_contract_state = (\<lambda>_. Inr demo_contract),
     get_existing_state = (\<lambda>_. Inr None), eth_verify = (\<lambda>_ _ _ _ _ _. Inr Exists),
     get_token_meta = (\<lambda>_. Inl (Foreign ''meta'')), verify_sol_ton = (\<lambda>_ _. Inr Exists),
     verify_ton_sol = (\<lambda>_ _ _. Inr (NotExists ''no account'')), sol_rpc_client = Inr (),
     is_already_voted = (\<lambda>_ _ _. Inr False), decode_vote_ix = (\<lambda>_. Inr SolReject),
     sol_send = (\<lambda>_. Inr ()), sol_signature_status = Inr (), deliver_result = (\<lambda>_. Inr ())\<rparr>"

definition demo_pending :: events_state where
  "demo_pending = \<lparr>pending = [([1], \<lparr>processing_started = False\<rparr>)], count = 1\<rparr>"

definition demo_voting_bridge :: bridge where
  "demo_voting_bridge = bridge_new\<lparr>
     eth_ton_events_state := demo_pending, ton_eth_events_state := demo_pending, ton_sol_events_state := demo_pending,
     eth_ton_event_configurations := [([4], \<lparr>et_details = demo_details \<lparr>etc_chain_id = 1, etc_event_emitter = [5],
        event_blocks_to_confirm = 12, etc_proxy = [], start_block_number = 0, end_block_number = 0\<rparr> [8],
        mapping_context = \<lparr>check_token_root = False\<rparr>,
        et_event_abi = \<lparr>get_eth_topic_hash = [9], decode_and_map = Inr\<rparr>\<rparr>)],
     ton_eth_event_configurations := [([4], demo_ton_eth_configuration 0)],
     ton_sol_event_configurations := [([4], \<lparr>ts_details = demo_details \<lparr>tsc_program = [1], tsc_event_emitter = [],
        tsc_instruction = 0, tsc_start_timestamp = 0, tsc_end_timestamp = 0, execute_needed = True,
        execute_instruction = 1, execute_payload_instruction = 2\<rparr> [11], ts_event_abi = []\<rparr>)]\<rparr>"

lemmas demo_update_simps = demo_update_env_def demo_world_def demo_pending_def demo_voting_bridge_def bridge_new_def
  demo_abi_def demo_contract_def demo_details_def demo_ton_eth_configuration_def
  start_processing_def event_base_process_def can_vote_def status_def get_voters_def get_api_version_def
  round_number_def created_at_def call_local_def call_responsible_def run_local_def SUPPORTED_API_VERSION_def
  eth_ton_event_init_data_of_def ton_eth_event_init_data_of_def ton_sol_event_init_data_of_def deliver_vote_def

lemma demo_eth_ton_vote: "fst (snd (update_eth_ton_event (demo_update_env Pending) demo_world [1] demo_voting_bridge)) =
    [DeliverTon (vote_of eth_ton_event_contract_confirm [1] [])]"
  by (simp add: update_eth_ton_event_def Let_def demo_update_simps)

lemma demo_ton_eth_vote: "fst (snd (update_ton_eth_event (demo_update_env Pending) demo_world [1] demo_voting_bridge)) \<noteq> []"
  by (simp add: update_ton_eth_event_def Let_def demo_update_simps)

text \<open>A proposal that was verified, with an execution: the vote and the execution on Solana, and the vote on TON.\<close>

definition demo_executing_world :: update_world where
  "demo_executing_world = demo_world\<lparr>verify_ton_sol := (\<lambda>_ _ _. Inr Exists), decode_vote_ix := (\<lambda>_. Inr SolConfirm)\<rparr>"

lemma demo_ton_sol_vote:
  "length (fst (snd (update_ton_sol_event (demo_update_env Pending) demo_executing_world [1] demo_voting_bridge))) = 3"
  by (simp add: update_ton_sol_event_def Let_def demo_executing_world_def demo_update_simps sol_messages_def vote_on_solana_def
      send_execute_def client_try_def)

theorem eth_ton_vote_follows_verification_witness:
  "\<exists>outcome. fst (snd (update_eth_ton_event (demo_update_env Pending) demo_world [1] demo_voting_bridge)) =
      [DeliverTon (vote_of (case outcome of Exists \<Rightarrow> eth_ton_event_contract_confirm
        | NotExists _ \<Rightarrow> eth_ton_event_contract_reject) [1] [])]"
proof -
  obtain b' effects r where run: "update_eth_ton_event (demo_update_env Pending) demo_world [1] demo_voting_bridge = (b', effects, r)"
    by (metis prod_cases3)
  with demo_eth_ton_vote have "effects \<noteq> []" by simp
  from eth_ton_vote_follows_verification [OF run this] run show ?thesis by auto
qed


theorem ton_eth_vote_signed_witness:
  "hm_get (pending (ton_eth_events_state demo_voting_bridge)) [1] = Some \<lparr>processing_started = False\<rparr>"
proof -
  obtain b' effects r where run: "update_ton_eth_event (demo_update_env Pending) demo_world [1] demo_voting_bridge = (b', effects, r)"
    by (metis prod_cases3)
  with demo_ton_eth_vote have "effects \<noteq> []" by simp
  from ton_eth_vote_signed [OF run this] show ?thesis by blast
qed

theorem ton_sol_votes_agree_witness:
  "fst (snd (update_ton_sol_event (demo_update_env Pending) demo_executing_world [1] demo_voting_bridge)) =
     [SendSol \<lparr>sol_instructions = [VoteForProposalIx [1] 0 [8] [9] 2 SolConfirm], sol_payer = [8]\<rparr>,
      SendSol \<lparr>sol_instructions = [ExecuteProposalIx [1] 1 [9] []], sol_payer = [8]\<rparr>,
      DeliverTon (vote_of ton_sol_event_contract_confirm [1] [])]"
proof -
  obtain b' effects r where run: "update_ton_sol_event (demo_update_env Pending) demo_executing_world [1] demo_voting_bridge = (b', effects, r)"
    by (metis prod_cases3)
  with demo_ton_sol_vote have three: "length effects = 3" by simp
  then have "effects \<noteq> []" by auto
  note agree = ton_sol_votes_agree [OF run this]
  let ?vote = "\<lparr>sol_instructions = [VoteForProposalIx [1] 0 [8] [9] 2 SolConfirm], sol_payer = [8]\<rparr>"
  let ?execute = "\<lparr>sol_instructions = [ExecuteProposalIx [1] 1 [9] []], sol_payer = [8]\<rparr>"
  let ?deliver = "DeliverTon (vote_of ton_sol_event_contract_confirm [1] [])"
  have "\<exists>k delivered. k \<le> 2 \<and> effects = map SendSol (take k [?vote, ?execute]) @ delivered
      \<and> (delivered = [] \<or> delivered = [?deliver])"
    using agree by (auto simp: demo_executing_world_def demo_update_simps Let_def numeral_2_eq_2)
  then obtain k delivered where k: "k \<le> 2" "effects = map SendSol (take k [?vote, ?execute]) @ delivered"
    "delivered = [] \<or> delivered = [?deliver]" by blast
  with three have "k = 2" "delivered = [?deliver]" by (auto simp: min_def split: if_splits)
  with k(2) run show ?thesis by simp
qed

theorem postponed_update_blocks_voting_witness:
  "fst (snd (update_eth_ton_event (demo_update_env Pending) demo_world [1]
     (fst (update_eth_ton_event (demo_update_env Initializing) demo_world [1] demo_voting_bridge)))) = []"
proof -
  have pend: "hm_get (pending (eth_ton_events_state demo_voting_bridge)) [1] = Some \<lparr>processing_started = False\<rparr>"
    by (simp add: demo_voting_bridge_def demo_pending_def)
  have "status (abi (demo_update_env Initializing)) demo_contract = Inr Initializing"
    by (simp add: demo_update_simps)
  from postponed_update_blocks_voting [OF pend _ this _ refl, of demo_world]
  have noop: "hm_get (pending (eth_ton_events_state (fst (update_eth_ton_event (demo_update_env Initializing) demo_world [1] demo_voting_bridge)))) [1]
      = Some \<lparr>processing_started = True\<rparr>"
    by (simp add: demo_world_def)
  then have "start_processing [1] (eth_ton_events_state (fst (update_eth_ton_event (demo_update_env Initializing) demo_world [1] demo_voting_bridge)))
      = (False, eth_ton_events_state (fst (update_eth_ton_event (demo_update_env Initializing) demo_world [1] demo_voting_bridge)))"
    by (simp add: start_processing_def hm_insert_same)
  then show ?thesis by (simp add: update_eth_ton_event_def [of "demo_update_env Pending"])
qed

end
