(* ===== verification/Eth_Subscriber.thy ===== *)
theory Eth_Subscriber
  imports Oneshot Contracts
begin

section \<open>The EVM subscriber\<close>

text \<open>
  \<open>src/engine/eth_subscriber\<close>: one subscriber per EVM chain watches the logs of the bridge's
  contracts and verifies, for each event the bridge asks about, that its transaction really
  emitted it. A request waits in \<open>pending_confirmations\<close> until the chain has passed the block
  of the event by the configured number of confirmations; then its receipt is fetched and every
  field is compared. The chain's answers, timeouts and retries are the record \<open>eth_world\<close>;
  decoding event data and hashing cells are third-party.
\<close>

subsection \<open>Logs\<close>

record eth_log =
  log_address :: eth_address
  log_topics :: "uint256 list"
  log_data :: bytes
  log_block_hash :: "uint256 option"
  log_block_number :: "u64 option"
  log_transaction_hash :: "uint256 option"
  log_index :: "nat option" \<comment> \<open>a \<open>U256\<close>\<close>
  log_removed :: "bool option"

type_synonym event_id = "uint256 \<times> u32"

record removed_eth_event =
  re_address :: eth_address
  re_transaction_hash :: uint256
  re_event_index :: u32

record received_eth_event =
  ev_address :: eth_address
  ev_topic_hash :: uint256
  ev_transaction_hash :: uint256
  ev_event_index :: u32
  ev_block_number :: u64
  ev_block_hash :: uint256
  ev_data :: bytes

datatype parsed_eth_event = RemovedEvent removed_eth_event | ReceivedEvent received_eth_event

primrec parsed_event_id :: "parsed_eth_event \<Rightarrow> event_id" where
  "parsed_event_id (RemovedEvent e) = (re_transaction_hash e, re_event_index e)"
| "parsed_event_id (ReceivedEvent e) = (ev_transaction_hash e, ev_event_index e)"

text \<open>A log index beyond \<open>u32\<close> panics in \<open>as_u32\<close>.\<close>

definition as_u32 :: "nat \<Rightarrow> u32 res" where
  "as_u32 n = (if n < 2 ^ 32 then Inr (of_nat n) else Inl (Panic ''Integer overflow when casting to u32''))"

definition parse_log :: "eth_log \<Rightarrow> parsed_eth_event res" where
  "parse_log log =
     rbind (ok_or (Context ''Transaction hash was not found in event'') (log_transaction_hash log)) (\<lambda>transaction_hash.
     rbind (ok_or (Context ''Event index was not found in event'') (log_index log)) (\<lambda>index.
     rbind (as_u32 index) (\<lambda>event_index.
       if log_removed log = Some True
       then Inr (RemovedEvent \<lparr>re_address = log_address log, re_transaction_hash = transaction_hash,
              re_event_index = event_index\<rparr>)
       else (case log_topics log of
               [] \<Rightarrow> Inl (Context ''Topic hash not found'')
             | topic_hash # topics \<Rightarrow>
                 rbind (ok_or (Context ''Block number was not found in event'') (log_block_number log)) (\<lambda>block_number.
                 rbind (ok_or (Context ''Block hash was not found in event'') (log_block_hash log)) (\<lambda>block_hash.
                   Inr (ReceivedEvent \<lparr>ev_address = log_address log, ev_topic_hash = topic_hash,
                     ev_transaction_hash = transaction_hash, ev_event_index = event_index,
                     ev_block_number = block_number, ev_block_hash = block_hash,
                     ev_data = concat topics @ log_data log\<rparr>)))))))"

text \<open>Logs that do not parse are dropped; a panic ends the task.\<close>

fun parse_transaction_logs :: "eth_log list \<Rightarrow> parsed_eth_event list res" where
  "parse_transaction_logs [] = Inr []"
| "parse_transaction_logs (log # logs) =
     (case parse_log log of
        Inl (Panic s) \<Rightarrow> Inl (Panic s)
      | Inl _ \<Rightarrow> parse_transaction_logs logs
      | Inr e \<Rightarrow> rbind (parse_transaction_logs logs) (\<lambda>es. Inr (e # es)))"

subsection \<open>Topics\<close>

record topics_map_entry =
  tm_address :: eth_address
  tm_topic_hash :: uint256
  tm_configuration :: uint256

record topics_map =
  topic_entries :: "(topics_map_entry, unit) hashmap"
  unique_addresses :: "eth_address list"
  unique_topics :: "uint256 list"

definition topics_map_new :: topics_map where
  "topics_map_new = \<lparr>topic_entries = [], unique_addresses = [], unique_topics = []\<rparr>"

definition update_topics_map :: "topics_map \<Rightarrow> topics_map" where
  "update_topics_map m = m\<lparr>unique_addresses := remdups (map (tm_address \<circ> fst) (topic_entries m)),
     unique_topics := remdups (map (tm_topic_hash \<circ> fst) (topic_entries m))\<rparr>"

definition add_entry :: "eth_address \<Rightarrow> uint256 \<Rightarrow> uint256 \<Rightarrow> topics_map \<Rightarrow> topics_map" where
  "add_entry address topic configuration m =
     (let entry = \<lparr>tm_address = address, tm_topic_hash = topic, tm_configuration = configuration\<rparr>
      in if hm_get (topic_entries m) entry = None
         then update_topics_map (m\<lparr>topic_entries := hm_insert entry () (topic_entries m)\<rparr>) else m)"

fun remove_each :: "(eth_address \<times> uint256 \<times> uint256) list \<Rightarrow> topics_map \<Rightarrow> bool \<times> topics_map" where
  "remove_each [] m = (False, m)"
| "remove_each ((address, topic, configuration) # es) m =
     (let entry = \<lparr>tm_address = address, tm_topic_hash = topic, tm_configuration = configuration\<rparr>;
          removed = (hm_get (topic_entries m) entry \<noteq> None);
          (should_update, m) = remove_each es (m\<lparr>topic_entries := hm_remove entry (topic_entries m)\<rparr>)
      in (removed \<or> should_update, m))"

definition remove_entries :: "(eth_address \<times> uint256 \<times> uint256) list \<Rightarrow> topics_map \<Rightarrow> topics_map" where
  "remove_entries entries m =
     (case remove_each entries m of (should_update, m) \<Rightarrow> if should_update then update_topics_map m else m)"

record log_filter =
  filter_addresses :: "eth_address list"
  filter_topics :: "uint256 list"
  from_block :: u64
  to_block :: u64

definition make_filter :: "u64 \<Rightarrow> u64 \<Rightarrow> topics_map \<Rightarrow> log_filter option" where
  "make_filter start end m =
     (if unique_addresses m = [] \<or> unique_topics m = [] then None
      else Some \<lparr>filter_addresses = unique_addresses m, filter_topics = unique_topics m,
             from_block = start, to_block = end\<rparr>)"

subsection \<open>Pending confirmations\<close>

record pending_confirmation =
  vote_data :: eth_ton_event_vote_data
  status_tx :: "nat option"
  pc_event_emitter :: eth_address
  pc_event_abi :: eth_event_abi
  target_block :: u64
  pc_status :: "verification_status option"

definition check :: "(cell \<Rightarrow> uint256) \<Rightarrow> pending_confirmation \<Rightarrow> received_eth_event \<Rightarrow> verification_status" where
  "check cell_hash confirmation event =
     (let vote = vote_data confirmation
      in if ev_address event \<noteq> pc_event_emitter confirmation then NotExists ''Event emitter address mismatch''
         else if ev_topic_hash event \<noteq> get_eth_topic_hash (pc_event_abi confirmation) then NotExists ''Topic hash mismatch''
         else if ev_event_index event \<noteq> event_index vote then NotExists ''Event index mismatch''
         else if ev_transaction_hash event \<noteq> event_transaction vote then NotExists ''Transaction hash mismatch''
         else if ev_block_number event \<noteq> ucast (event_block_number vote) then NotExists ''Block number mismatch''
         else if ev_block_hash event \<noteq> event_block vote then NotExists ''Block hash mismatch''
         else (case decode_and_map (pc_event_abi confirmation) (ev_data event) of
                 Inr data \<Rightarrow> if cell_hash data = cell_hash (et_event_data vote) then Exists
                             else NotExists ''Event data mismatch''
               | Inl e \<Rightarrow> NotExists ''Failed to convert event data''))"

record eth_config =
  max_block_range :: "u64 option"

record eth_subscriber =
  eth_cfg :: eth_config
  topics :: topics_map
  last_processed_block :: u64
  last_block_number :: "u64 option" \<comment> \<open>the chain's entry of the shared \<open>last_block_numbers\<close>\<close>
  pending_confirmations :: "(event_id, pending_confirmation) hashmap"
  pending_confirmation_count :: usize

text \<open>\<open>EthSubscriber::new\<close>, after the current height was fetched.\<close>

definition eth_subscriber_new :: "eth_config \<Rightarrow> u64 \<Rightarrow> eth_subscriber" where
  "eth_subscriber_new config height = \<lparr>eth_cfg = config, topics = topics_map_new,
     last_processed_block = height, last_block_number = Some height,
     pending_confirmations = [], pending_confirmation_count = 0\<rparr>"

text \<open>
  \<open>verify\<close> up to its wait, with the fresh channel it creates: an immediate answer, or a
  registered confirmation. Inserting drops the sender of a confirmation with the same id.
\<close>

definition verify ::
  "nat \<Rightarrow> eth_ton_event_vote_data \<Rightarrow> eth_address \<Rightarrow> eth_event_abi \<Rightarrow> u16 \<Rightarrow> bool \<Rightarrow> eth_subscriber \<Rightarrow>
     eth_subscriber \<times> (nat \<times> verification_status option) list \<times> (verification_status + nat)"
where
  "verify channel vote emitter parsed_abi blocks_to_confirm preliminary_checks_succeeded s =
     (if \<not> preliminary_checks_succeeded then (s, [], Inl (NotExists ''failed preliminary checks''))
      else
        let event_id = (event_transaction vote, event_index vote);
            target = ucast (event_block_number vote) + ucast blocks_to_confirm;
            dropped = (case hm_get (pending_confirmations s) event_id of
                Some old \<Rightarrow> (case status_tx old of Some c \<Rightarrow> [(c, None)] | None \<Rightarrow> [])
              | None \<Rightarrow> []);
            confirmations = hm_insert event_id
              \<lparr>vote_data = vote, status_tx = Some channel, pc_event_emitter = emitter,
                pc_event_abi = parsed_abi, target_block = target, pc_status = None\<rparr> (pending_confirmations s)
        in (s\<lparr>pending_confirmations := confirmations,
              pending_confirmation_count := of_nat (length confirmations)\<rparr>, dropped, Inr channel))"

subsection \<open>Updating from the chain\<close>

record receipt =
  receipt_status :: "nat option"
  receipt_logs :: "eth_log list"

text \<open>
  What the chain answers during one update, retries included. A request that ran out of time
  is \<open>None\<close> resp. an error. The checks of single events complete in the order of \<open>completed\<close>.
\<close>

record eth_world =
  current_height :: "u64 res"
  is_incomplete_message :: "error \<Rightarrow> bool"
  get_logs :: "log_filter \<Rightarrow> eth_log list res option"
  transaction_receipt :: "uint256 \<Rightarrow> receipt option res"
  completed :: "event_id list \<Rightarrow> event_id list"
  cell_hash :: "cell \<Rightarrow> uint256"

definition process_blocks :: "eth_world \<Rightarrow> u64 \<Rightarrow> u64 \<Rightarrow> eth_subscriber \<Rightarrow> parsed_eth_event list res option" where
  "process_blocks w start end s =
     (case make_filter start end (topics s) of
        None \<Rightarrow> Some (Inr [])
      | Some f \<Rightarrow>
          (case get_logs w f of
             None \<Rightarrow> None
           | Some logs \<Rightarrow> Some (rbind (with_context ''Failed getting eth logs'' logs) parse_transaction_logs)))"

text \<open>The iterator over the parsed logs is lazy: searched from its end, it parses no log before the one it finds.\<close>

fun find_parsed :: "event_id \<Rightarrow> eth_log list \<Rightarrow> parsed_eth_event option res" where
  "find_parsed event_id [] = Inr None"
| "find_parsed event_id (log # logs) =
     (case parse_log log of
        Inl (Panic s) \<Rightarrow> Inl (Panic s)
      | Inl _ \<Rightarrow> find_parsed event_id logs
      | Inr e \<Rightarrow> if parsed_event_id e = event_id then Inr (Some e) else find_parsed event_id logs)"

definition find_event :: "eth_world \<Rightarrow> event_id \<Rightarrow> parsed_eth_event option res" where
  "find_event w event_id =
     rbind (with_context ''Failed getting logs'' (transaction_receipt w (fst event_id))) (\<lambda>receipt.
       case receipt of
         None \<Rightarrow> Inr None
       | Some r \<Rightarrow>
           if receipt_status r = Some 1 then find_parsed event_id (rev (receipt_logs r)) else Inr None)"

text \<open>The events of the processed blocks set the statuses of the confirmations they belong to.\<close>

definition apply_event ::
  "(cell \<Rightarrow> uint256) \<Rightarrow> parsed_eth_event \<Rightarrow> (event_id, pending_confirmation) hashmap \<Rightarrow> (event_id, pending_confirmation) hashmap"
where
  "apply_event hash event m =
     (case hm_get m (parsed_event_id event) of
        None \<Rightarrow> m
      | Some confirmation \<Rightarrow>
          hm_insert (parsed_event_id event)
            (confirmation\<lparr>pc_status := Some (case event of
                RemovedEvent _ \<Rightarrow> NotExists ''Log removed''
              | ReceivedEvent e \<Rightarrow> check hash confirmation e)\<rparr>) m)"

definition answer :: "pending_confirmation \<Rightarrow> verification_status \<Rightarrow> (nat \<times> verification_status option) list" where
  "answer confirmation s = (case status_tx confirmation of Some c \<Rightarrow> [(c, Some s)] | None \<Rightarrow> [])"

text \<open>Kept confirmations, the ids to check against their receipts, and the rejections sent.\<close>

fun retain_confirmations ::
  "u64 \<Rightarrow> (event_id, pending_confirmation) hashmap \<Rightarrow>
     (event_id, pending_confirmation) hashmap \<times> event_id list \<times> (nat \<times> verification_status option) list"
where
  "retain_confirmations current_block [] = ([], [], [])"
| "retain_confirmations current_block ((event_id, confirmation) # m) =
     (case retain_confirmations current_block m of
        (kept, to_check, sent) \<Rightarrow>
          if target_block confirmation > current_block then ((event_id, confirmation) # kept, to_check, sent)
          else (case pc_status confirmation of
                  None \<Rightarrow> ((event_id, confirmation) # kept, event_id # to_check, sent)
                | Some Exists \<Rightarrow> ((event_id, confirmation) # kept, event_id # to_check, sent)
                | Some not_exists \<Rightarrow> (kept, to_check, answer confirmation not_exists @ sent)))"

definition resolve ::
  "eth_world \<Rightarrow> event_id \<Rightarrow> (event_id, pending_confirmation) hashmap \<Rightarrow>
     (event_id, pending_confirmation) hashmap \<times> (nat \<times> verification_status option) list"
where
  "resolve w event_id m =
     (case hm_get m event_id of
        None \<Rightarrow> (m, [])
      | Some confirmation \<Rightarrow>
          (case find_event w event_id of
             Inl e \<Rightarrow> (m, [])
           | Inr found \<Rightarrow>
               (hm_remove event_id m, answer confirmation
                  (case found of
                     Some (ReceivedEvent event) \<Rightarrow> check (cell_hash w) confirmation event
                   | Some (RemovedEvent _) \<Rightarrow> NotExists ''Log removed''
                   | None \<Rightarrow> NotExists ''Not found''))))"

fun resolve_all ::
  "eth_world \<Rightarrow> event_id list \<Rightarrow> (event_id, pending_confirmation) hashmap \<Rightarrow>
     (event_id, pending_confirmation) hashmap \<times> (nat \<times> verification_status option) list"
where
  "resolve_all w [] m = (m, [])"
| "resolve_all w (event_id # ids) m =
     (case resolve w event_id m of
        (m, sent) \<Rightarrow> (case resolve_all w ids m of (m, rest) \<Rightarrow> (m, sent @ rest)))"

definition truncate_block :: "u64 option \<Rightarrow> u64 \<Rightarrow> u64 \<Rightarrow> u64" where
  "truncate_block limit last_block current_block =
     (case limit of
        Some max_range \<Rightarrow> if last_block + max_range < current_block then last_block + max_range else current_block
      | None \<Rightarrow> current_block)"

text \<open>
  \<open>update\<close> after its wait for events. The lock on the confirmations is held from the events on,
  so nothing interferes. All checks are awaited before their results are used; a panic while
  parsing logs ends the task.
\<close>

definition panics :: "'a res \<Rightarrow> bool" where
  "panics r = (case r of Inl (Panic _) \<Rightarrow> True | _ \<Rightarrow> False)"

definition eth_update ::
  "eth_world \<Rightarrow> eth_subscriber \<Rightarrow> eth_subscriber \<times> (nat \<times> verification_status option) list \<times> unit res"
where
  "eth_update w s =
     (case current_height w of
        Inl e \<Rightarrow> (s, [], if is_incomplete_message w e then Inr () else Inl (Context ''Failed to get actual EVM height''))
      | Inr height \<Rightarrow>
          (if height \<le> last_processed_block s then (s, [], Inr ())
           else
             let current_block = truncate_block (max_block_range (eth_cfg s)) (last_processed_block s) height
             in case process_blocks w (last_processed_block s) current_block s of
                  None \<Rightarrow> (s, [], Inr ())
                | Some (Inl (Panic msg)) \<Rightarrow> (s, [], Inl (Panic msg))
                | Some (Inl _) \<Rightarrow> (s, [], Inl (Context ''failed processing EVM blocks''))
                | Some (Inr events) \<Rightarrow>
                    (case retain_confirmations current_block
                            (fold (apply_event (cell_hash w)) events (pending_confirmations s)) of
                       (kept, to_check, rejected) \<Rightarrow>
                         if list_ex (\<lambda>event_id. panics (find_event w event_id)) to_check
                         then (s\<lparr>pending_confirmations := kept\<rparr>, rejected, Inl (Panic ''task''))
                         else (case resolve_all w (completed w to_check) kept of
                            (remaining, resolved) \<Rightarrow>
                              (let s = s\<lparr>pending_confirmations := remaining,
                                     pending_confirmation_count := of_nat (length remaining)\<rparr>
                               in (case last_block_number s of
                                     None \<Rightarrow> s
                                   | Some _ \<Rightarrow> s\<lparr>last_block_number := Some current_block,
                                        last_processed_block := current_block\<rparr>, rejected @ resolved, Inr ()))))))"

subsection \<open>Subscribing\<close>

definition subscribe :: "eth_address \<Rightarrow> uint256 \<Rightarrow> uint256 \<Rightarrow> eth_subscriber \<Rightarrow> eth_subscriber" where
  "subscribe address topic configuration s = s\<lparr>topics := add_entry address topic configuration (topics s)\<rparr>"

definition unsubscribe :: "(eth_address \<times> uint256 \<times> uint256) list \<Rightarrow> eth_subscriber \<Rightarrow> eth_subscriber" where
  "unsubscribe subscriptions s = s\<lparr>topics := remove_entries subscriptions (topics s)\<rparr>"

text \<open>The unique lists are exactly the addresses and topics of the entries.\<close>

definition topics_ok :: "topics_map \<Rightarrow> bool" where
  "topics_ok m \<longleftrightarrow> hm_wf (topic_entries m)
     \<and> distinct (unique_addresses m) \<and> set (unique_addresses m) = tm_address ` hm_keys (topic_entries m)
     \<and> distinct (unique_topics m) \<and> set (unique_topics m) = tm_topic_hash ` hm_keys (topic_entries m)"

lemma topics_ok_update: "hm_wf (topic_entries m) \<Longrightarrow> topics_ok (update_topics_map m)"
  by (simp add: topics_ok_def update_topics_map_def image_image)

lemma topics_ok_add: "topics_ok m \<Longrightarrow> topics_ok (add_entry a t c m)"
  unfolding add_entry_def Let_def by (simp add: topics_ok_update topics_ok_def [of m])

lemma remove_each_result:
  "remove_each es m = (changed, m') \<Longrightarrow> hm_wf (topic_entries m) \<Longrightarrow>
     hm_wf (topic_entries m') \<and> unique_addresses m' = unique_addresses m \<and> unique_topics m' = unique_topics m
     \<and> hm_keys (topic_entries m') = hm_keys (topic_entries m)
          - (\<lambda>(a, t, c). \<lparr>tm_address = a, tm_topic_hash = t, tm_configuration = c\<rparr>) ` set es
     \<and> (\<not> changed \<longrightarrow> hm_keys (topic_entries m') = hm_keys (topic_entries m))"
proof (induction es m arbitrary: changed m' rule: remove_each.induct)
  case (2 a t c es m)
  let ?entry = "\<lparr>tm_address = a, tm_topic_hash = t, tm_configuration = c\<rparr>"
  let ?m = "m\<lparr>topic_entries := hm_remove ?entry (topic_entries m)\<rparr>"
  obtain ch where ch: "remove_each es ?m = (ch, m')"
      and changed: "changed \<longleftrightarrow> hm_get (topic_entries m) ?entry \<noteq> None \<or> ch"
    using 2(2) by (auto simp: Let_def split: prod.splits)
  have ih: "hm_wf (topic_entries m') \<and> unique_addresses m' = unique_addresses ?m \<and> unique_topics m' = unique_topics ?m
     \<and> hm_keys (topic_entries m') = hm_keys (topic_entries ?m)
          - (\<lambda>(a, t, c). \<lparr>tm_address = a, tm_topic_hash = t, tm_configuration = c\<rparr>) ` set es
     \<and> (\<not> ch \<longrightarrow> hm_keys (topic_entries m') = hm_keys (topic_entries ?m))"
    by (rule 2(1) [OF refl refl ch]) (use 2(3) in simp)
  have absent: "hm_get (topic_entries m) ?entry = None \<Longrightarrow> hm_keys (topic_entries m) - {?entry} = hm_keys (topic_entries m)"
    by (simp add: hm_get_None_iff)
  have shrink: "K = K0 - {?entry} - S \<Longrightarrow> K = K0 - insert ?entry S" for K K0 S :: "topics_map_entry set" by auto
  have m: "topic_entries ?m = hm_remove ?entry (topic_entries m)" "unique_addresses ?m = unique_addresses m"
    "unique_topics ?m = unique_topics m" by simp_all
  have wf: "hm_wf (topic_entries m')" and uniq: "unique_addresses m' = unique_addresses m" "unique_topics m' = unique_topics m"
    and keys: "hm_keys (topic_entries m') = hm_keys (topic_entries m) - {?entry}
      - (\<lambda>(a, t, c). \<lparr>tm_address = a, tm_topic_hash = t, tm_configuration = c\<rparr>) ` set es"
    and same: "\<not> ch \<longrightarrow> hm_keys (topic_entries m') = hm_keys (topic_entries m) - {?entry}"
    using ih unfolding m hm_keys_remove by blast+
  have "\<not> changed \<longrightarrow> hm_keys (topic_entries m') = hm_keys (topic_entries m)"
    using same changed absent by metis
  with wf uniq shrink [OF keys] show ?case
    unfolding list.set image_insert prod.case by blast
qed simp

lemma topics_ok_remove:
  assumes ok: "topics_ok m" shows "topics_ok (remove_entries es m)"
proof -
  obtain changed m' where r: "remove_each es m = (changed, m')" by (cases "remove_each es m")
  note res = remove_each_result [OF r, unfolded topics_ok_def]
  have wf: "hm_wf (topic_entries m)" using ok by (simp add: topics_ok_def)
  show ?thesis
  proof (cases changed)
    case True
    with r res wf show ?thesis by (simp add: remove_entries_def topics_ok_update)
  next
    case False
    with res wf have "hm_wf (topic_entries m')" "unique_addresses m' = unique_addresses m"
      "unique_topics m' = unique_topics m" "hm_keys (topic_entries m') = hm_keys (topic_entries m)" by blast+
    with False r ok show ?thesis by (simp only: remove_entries_def prod.case if_False topics_ok_def)
  qed
qed

subsection \<open>The invariant of the confirmations\<close>

definition eth_inv :: "eth_subscriber \<Rightarrow> bool" where
  "eth_inv s \<longleftrightarrow> hm_wf (pending_confirmations s)
     \<and> (\<forall>(eid, conf) \<in> set (pending_confirmations s). status_tx conf \<noteq> None
          \<and> eid = (event_transaction (vote_data conf), event_index (vote_data conf)))"

definition conf_wf :: "(event_id, pending_confirmation) hashmap \<Rightarrow> bool" where
  "conf_wf m \<longleftrightarrow> hm_wf m \<and> (\<forall>eid conf. hm_get m eid = Some conf \<longrightarrow> status_tx conf \<noteq> None
          \<and> eid = (event_transaction (vote_data conf), event_index (vote_data conf)))"

lemma eth_inv_conf: "eth_inv s \<longleftrightarrow> conf_wf (pending_confirmations s)"
  by (auto simp: eth_inv_def conf_wf_def hm_wf_get_iff)

text \<open>Processing an event changes the status of a confirmation and nothing else.\<close>

lemma apply_event_get:
  "hm_get (apply_event hash e m) eid = Some conf' \<Longrightarrow>
     \<exists>conf. hm_get m eid = Some conf \<and> conf' = conf\<lparr>pc_status := pc_status conf'\<rparr>"
  by (auto simp: apply_event_def hm_simps split: option.splits if_splits)

lemma apply_events_get:
  "hm_get (fold (apply_event hash) es m) eid = Some conf' \<Longrightarrow>
     \<exists>conf. hm_get m eid = Some conf \<and> conf' = conf\<lparr>pc_status := pc_status conf'\<rparr>"
proof (induction es arbitrary: m)
  case (Cons e es)
  from Cons.IH [of "apply_event hash e m"] Cons.prems obtain conf where
    "hm_get (apply_event hash e m) eid = Some conf" "conf' = conf\<lparr>pc_status := pc_status conf'\<rparr>" by auto
  with apply_event_get [OF this(1)] show ?case by (metis pending_confirmation.surjective pending_confirmation.update_convs(6))
qed (auto intro: exI [of _ conf'])

lemma apply_event_keys: "hm_keys (apply_event hash e m) = hm_keys m"
  by (auto simp: apply_event_def hm_get_None_iff insert_absorb split: option.splits dest: hm_get_in_set)
    (force dest: hm_get_in_set)+

lemma apply_events_keys: "hm_keys (fold (apply_event hash) es m) = hm_keys m"
  by (induction es arbitrary: m) (simp_all add: apply_event_keys)

lemma apply_event_wf: "hm_wf m \<Longrightarrow> hm_wf (apply_event hash e m)"
  by (auto simp: apply_event_def split: option.split)

lemma apply_events_wf: "hm_wf m \<Longrightarrow> hm_wf (fold (apply_event hash) es m)"
  by (induction es arbitrary: m) (simp_all add: apply_event_wf)

lemma conf_wf_tx: "conf_wf m \<Longrightarrow> (k, conf) \<in> set m \<Longrightarrow> status_tx conf \<noteq> None"
  unfolding conf_wf_def using hm_wf_get_iff [of m k conf] by blast

lemma conf_wf_sub:
  assumes "conf_wf m" "hm_wf m'" "\<And>k conf. hm_get m' k = Some conf \<Longrightarrow> hm_get m k = Some conf"
  shows "conf_wf m'"
  using assms unfolding conf_wf_def by blast

lemma apply_events_conf:
  assumes "conf_wf m" shows "conf_wf (fold (apply_event hash) es m)"
  unfolding conf_wf_def
proof (intro conjI allI impI)
  show "hm_wf (fold (apply_event hash) es m)" using assms by (simp add: conf_wf_def apply_events_wf)
  fix k conf'
  assume "hm_get (fold (apply_event hash) es m) k = Some conf'"
  from apply_events_get [OF this] obtain conf where c: "hm_get m k = Some conf"
    "conf' = conf\<lparr>pc_status := pc_status conf'\<rparr>" by blast
  have "status_tx conf' = status_tx conf" "vote_data conf' = vote_data conf"
    by (subst c(2), simp)+
  moreover have "status_tx conf \<noteq> None \<and> k = (event_transaction (vote_data conf), event_index (vote_data conf))"
    using c(1) assms unfolding conf_wf_def by blast
  ultimately show "status_tx conf' \<noteq> None"
    "k = (event_transaction (vote_data conf'), event_index (vote_data conf'))" by simp_all
qed

text \<open>One pass over the confirmations.\<close>

lemma retain_confirmations_eq:
  "retain_confirmations current m =
     (filter (\<lambda>(eid, conf). current < target_block conf \<or> pc_status conf \<in> {None, Some Exists}) m,
      map fst (filter (\<lambda>(eid, conf). target_block conf \<le> current \<and> pc_status conf \<in> {None, Some Exists}) m),
      concat (map (\<lambda>(eid, conf). if target_block conf \<le> current \<and> pc_status conf \<notin> {None, Some Exists}
        then answer conf (the (pc_status conf)) else []) m))"
proof (induction current m rule: retain_confirmations.induct)
  case (2 current eid conf m)
  then show ?case
    by (cases "pc_status conf") (auto simp: not_less split: verification_status.split)
qed simp

lemma resolve_get:
  "hm_get (fst (resolve w eid m)) eid' =
     (if eid' = eid \<and> (\<exists>x. find_event w eid = Inr x) then None else hm_get m eid')"
  by (auto simp: resolve_def hm_simps split: option.split sum.split)

lemma resolve_wf: "hm_wf m \<Longrightarrow> hm_wf (fst (resolve w eid m))"
  by (auto simp: resolve_def split: option.split sum.split)

lemma resolve_all_get:
  "hm_get (fst (resolve_all w ids m)) eid =
     (if eid \<in> set ids \<and> (\<exists>x. find_event w eid = Inr x) then None else hm_get m eid)"
  by (induction ids arbitrary: m) (auto simp: case_prod_beta resolve_get)

lemma resolve_all_wf: "hm_wf m \<Longrightarrow> hm_wf (fst (resolve_all w ids m))"
  by (induction ids arbitrary: m) (auto simp: case_prod_beta resolve_wf)

text \<open>What a resolved confirmation is told.\<close>

definition found_status :: "eth_world \<Rightarrow> pending_confirmation \<Rightarrow> parsed_eth_event option \<Rightarrow> verification_status" where
  "found_status w conf found =
     (case found of
        Some (ReceivedEvent event) \<Rightarrow> check (cell_hash w) conf event
      | Some (RemovedEvent _) \<Rightarrow> NotExists ''Log removed''
      | None \<Rightarrow> NotExists ''Not found'')"

lemma resolve_sent:
  "snd (resolve w eid m) = (case hm_get m eid of None \<Rightarrow> [] | Some conf \<Rightarrow>
     (case find_event w eid of Inl _ \<Rightarrow> [] | Inr found \<Rightarrow> answer conf (found_status w conf found)))"
  by (simp add: resolve_def found_status_def split: option.split sum.split)

lemma resolve_all_sent:
  "(c, a) \<in> set (snd (resolve_all w ids m)) \<Longrightarrow>
     \<exists>eid conf found. eid \<in> set ids \<and> hm_get m eid = Some conf \<and> find_event w eid = Inr found
       \<and> status_tx conf = Some c \<and> a = Some (found_status w conf found)"
proof (induction ids arbitrary: m)
  case (Cons eid ids)
  then consider "(c, a) \<in> set (snd (resolve w eid m))" | "(c, a) \<in> set (snd (resolve_all w ids (fst (resolve w eid m))))"
    by (auto simp: case_prod_beta)
  then show ?case
  proof cases
    case 1
    then obtain conf found where "hm_get m eid = Some conf" "find_event w eid = Inr found"
        "(c, a) \<in> set (answer conf (found_status w conf found))"
      by (cases "hm_get m eid"; cases "find_event w eid") (auto simp: resolve_sent)
    then have "status_tx conf = Some c" "a = Some (found_status w conf found)"
      by (auto simp: answer_def split: option.splits)
    with \<open>hm_get m eid = Some conf\<close> \<open>find_event w eid = Inr found\<close> show ?thesis
      by (metis list.set_intros(1))
  next
    case 2
    from Cons.IH [OF this] show ?thesis
      by (auto simp: resolve_get split: if_splits)
  qed
qed simp

subsection \<open>What an update does\<close>

text \<open>The state an update that reached the confirmations leaves, in one equation.\<close>

definition eth_processed :: "eth_world \<Rightarrow> eth_subscriber \<Rightarrow> u64 \<Rightarrow> parsed_eth_event list \<Rightarrow> bool" where
  "eth_processed w s current_block events \<longleftrightarrow>
     (\<exists>height. current_height w = Inr height \<and> last_processed_block s < height
        \<and> current_block = truncate_block (max_block_range (eth_cfg s)) (last_processed_block s) height)
     \<and> process_blocks w (last_processed_block s) current_block s = Some (Inr events)"

lemma eth_update_cases:
  obtains (idle) "fst (eth_update w s) = s" "fst (snd (eth_update w s)) = []"
  | (processed) current_block events m where "eth_processed w s current_block events"
      "m = fold (apply_event (cell_hash w)) events (pending_confirmations s)"
      "eth_update w s =
        (case retain_confirmations current_block m of (kept, to_check, rejected) \<Rightarrow>
           if list_ex (\<lambda>event_id. panics (find_event w event_id)) to_check
           then (s\<lparr>pending_confirmations := kept\<rparr>, rejected, Inl (Panic ''task''))
           else (case resolve_all w (completed w to_check) kept of (remaining, resolved) \<Rightarrow>
             (let s = s\<lparr>pending_confirmations := remaining, pending_confirmation_count := of_nat (length remaining)\<rparr>
              in (case last_block_number s of None \<Rightarrow> s
                  | Some _ \<Rightarrow> s\<lparr>last_block_number := Some current_block, last_processed_block := current_block\<rparr>,
                  rejected @ resolved, Inr ()))))"
proof -
  show thesis
  proof (cases "current_height w")
    case (Inl e)
    then show ?thesis by (intro idle) (simp_all add: eth_update_def)
  next
    case height: (Inr height)
    define current_block where "current_block = truncate_block (max_block_range (eth_cfg s)) (last_processed_block s) height"
    consider "height \<le> last_processed_block s"
      | "\<not> height \<le> last_processed_block s" "process_blocks w (last_processed_block s) current_block s = None"
      | e where "\<not> height \<le> last_processed_block s" "process_blocks w (last_processed_block s) current_block s = Some (Inl e)"
      | events where "\<not> height \<le> last_processed_block s" "process_blocks w (last_processed_block s) current_block s = Some (Inr events)"
      by (metis option.exhaust sum.exhaust)
    then show ?thesis
    proof cases
      case 1
      with height show ?thesis by (intro idle) (simp_all add: eth_update_def)
    next
      case 2
      with height show ?thesis by (intro idle) (simp_all add: eth_update_def current_block_def [symmetric] Let_def)
    next
      case (3 e)
      with height show ?thesis
        by (intro idle; cases e) (simp_all add: eth_update_def current_block_def [symmetric] Let_def)
    next
      case (4 events)
      with height have "eth_processed w s current_block events" by (auto simp: eth_processed_def current_block_def not_le)
      then show ?thesis
        by (rule processed [OF _ refl])
          (use height 4 in \<open>simp add: eth_update_def current_block_def [symmetric] Let_def del: retain_confirmations.simps\<close>)
    qed
  qed
qed

definition eth_waiting :: "eth_subscriber \<Rightarrow> nat multiset" where
  "eth_waiting s = image_mset (\<lambda>(_, conf). the (status_tx conf)) (mset (pending_confirmations s))"

abbreviation confirmations_waiting :: "(event_id, pending_confirmation) hashmap \<Rightarrow> nat multiset" where
  "confirmations_waiting m \<equiv> image_mset (\<lambda>(_, conf). the (status_tx conf)) (mset m)"

lemma waiting_replace:
  assumes "hm_wf m" "hm_get m k = Some conf" "status_tx conf' = status_tx conf"
  shows "confirmations_waiting (hm_insert k conf' m) = confirmations_waiting m"
  using assms
proof (induction m)
  case (Cons e m)
  then show ?case by (cases e) (auto simp: hm_wf_def split: if_splits)
qed simp

lemma waiting_apply: "hm_wf m \<Longrightarrow> confirmations_waiting (apply_event hash e m) = confirmations_waiting m"
  by (auto simp: apply_event_def waiting_replace split: option.split)

lemma waiting_apply_all: "hm_wf m \<Longrightarrow> confirmations_waiting (fold (apply_event hash) es m) = confirmations_waiting m"
  by (induction es arbitrary: m) (simp_all add: waiting_apply apply_event_wf)

lemma waiting_retain:
  assumes "\<forall>(k, conf) \<in> set m. status_tx conf \<noteq> None" "retain_confirmations current m = (kept, to_check, rejected)"
  shows "confirmations_waiting kept + mset (map fst rejected) = confirmations_waiting m"
  using assms
proof (induction m arbitrary: kept to_check rejected)
  case (Cons e m)
  obtain k conf where e: "e = (k, conf)" by (cases e)
  obtain kept' to_check' rejected' where r: "retain_confirmations current m = (kept', to_check', rejected')"
    by (cases "retain_confirmations current m") auto
  have ih: "confirmations_waiting kept' + mset (map fst rejected') = confirmations_waiting m"
    using Cons.IH [OF _ r] Cons.prems(1) by simp
  from Cons.prems e r ih [symmetric] show ?case
    by (auto simp: answer_def split: if_splits option.splits verification_status.splits)
qed simp

lemma waiting_resolve:
  assumes "conf_wf m"
  shows "confirmations_waiting (fst (resolve w k m)) + mset (map fst (snd (resolve w k m))) = confirmations_waiting m"
proof (cases "hm_get m k")
  case (Some conf)
  moreover from this obtain c where "status_tx conf = Some c" using assms unfolding conf_wf_def by blast
  moreover have "mset m = add_mset (k, conf) (mset (hm_remove k m))"
    using assms Some by (intro mset_remove_old) (simp_all add: conf_wf_def)
  ultimately show ?thesis
    by (cases "find_event w k") (simp_all add: resolve_def answer_def split: option.split parsed_eth_event.split)
qed (simp add: resolve_def)

lemma conf_wf_resolve: "conf_wf m \<Longrightarrow> conf_wf (fst (resolve w k m))"
  by (simp add: conf_wf_def resolve_wf resolve_get)

lemma waiting_resolve_all:
  "conf_wf m \<Longrightarrow> confirmations_waiting (fst (resolve_all w ks m)) + mset (map fst (snd (resolve_all w ks m)))
     = confirmations_waiting m"
proof (induction ks arbitrary: m)
  case (Cons k ks)
  obtain m1 sent1 where one: "resolve w k m = (m1, sent1)" by (cases "resolve w k m")
  obtain m2 sent2 where two: "resolve_all w ks m1 = (m2, sent2)" by (cases "resolve_all w ks m1")
  have "conf_wf m1" using conf_wf_resolve [OF Cons.prems, of w k] one by simp
  from Cons.IH [OF this] two have "confirmations_waiting m2 + mset (map fst sent2) = confirmations_waiting m1" by simp
  moreover have "confirmations_waiting m1 + mset (map fst sent1) = confirmations_waiting m"
    using waiting_resolve [OF Cons.prems, of w k] one by simp
  ultimately show ?case using one two by (simp add: ac_simps)
qed simp

lemma conf_wf_retain:
  assumes "conf_wf m" "retain_confirmations current m = (kept, to_check, rejected)"
  shows "conf_wf kept \<and> set kept \<subseteq> set m"
proof -
  have wf: "hm_wf m" using assms by (simp add: conf_wf_def)
  have sub: "set kept \<subseteq> set m" and wfk: "hm_wf kept"
    using assms wf by (auto simp: retain_confirmations_eq hm_wf_def distinct_map_filter_fst)
  then show ?thesis using assms(1) by (auto simp: conf_wf_def hm_wf_get_iff)
qed

lemma verify_waiting:
  assumes "eth_inv s"
  shows "eth_waiting (fst (verify c vote emitter parsed blocks True s))
      + mset (map fst (fst (snd (verify c vote emitter parsed blocks True s)))) = add_mset c (eth_waiting s)"
proof -
  let ?k = "(event_transaction vote, event_index vote)"
  have wf: "conf_wf (pending_confirmations s)" using assms by (simp add: eth_inv_conf)
  then have hm: "hm_wf (pending_confirmations s)" by (simp add: conf_wf_def)
  show ?thesis
  proof (cases "hm_get (pending_confirmations s) ?k")
    case None
    then show ?thesis by (simp add: verify_def eth_waiting_def mset_insert [OF hm] hm_remove_absent Let_def)
  next
    case (Some old)
    then obtain c' where "status_tx old = Some c'" using wf unfolding conf_wf_def by blast
    with Some show ?thesis
      by (simp add: verify_def eth_waiting_def mset_insert [OF hm] mset_remove_old [OF hm Some] Let_def)
  qed
qed

lemma verify_inv: "eth_inv s \<Longrightarrow> eth_inv (fst (verify c vote emitter parsed blocks checks s))"
  unfolding eth_inv_conf conf_wf_def by (auto simp: verify_def hm_simps Let_def)

lemma update_inv_waiting:
  assumes inv: "eth_inv s"
  shows "eth_inv (fst (eth_update w s))
    \<and> eth_waiting (fst (eth_update w s)) + mset (map fst (fst (snd (eth_update w s)))) = eth_waiting s"
proof (cases rule: eth_update_cases [of w s])
  case idle
  with inv show ?thesis by simp
next
  case (processed current_block events m)
  have wf: "conf_wf (pending_confirmations s)" using inv by (simp add: eth_inv_conf)
  then have "hm_wf (pending_confirmations s)" by (simp add: conf_wf_def)
  with wf have m: "conf_wf m" "confirmations_waiting m = eth_waiting s"
    using processed(2) by (simp_all add: apply_events_conf waiting_apply_all eth_waiting_def)
  obtain kept to_check rejected where r: "retain_confirmations current_block m = (kept, to_check, rejected)"
    by (metis prod_cases3)
  have tx: "\<forall>(k, conf) \<in> set m. status_tx conf \<noteq> None"
    using conf_wf_tx [OF m(1)] by blast
  have kept: "conf_wf kept" using conf_wf_retain [OF m(1) r] by simp
  have k: "confirmations_waiting kept + mset (map fst rejected) = eth_waiting s"
    using waiting_retain [OF tx r] m(2) by simp
  obtain remaining resolved where res: "resolve_all w (completed w to_check) kept = (remaining, resolved)"
    by (cases "resolve_all w (completed w to_check) kept")
  have rem: "conf_wf remaining"
  proof (rule conf_wf_sub [OF kept])
    show "hm_wf remaining"
      using kept resolve_all_wf [of kept w "completed w to_check"] res by (simp add: conf_wf_def)
    show "hm_get kept k = Some conf" if "hm_get remaining k = Some conf" for k conf
      using that resolve_all_get [of w "completed w to_check" kept k] res by (metis fst_conv option.distinct(1))
  qed
  have "confirmations_waiting remaining + mset (map fst resolved) = confirmations_waiting kept"
    using waiting_resolve_all [OF kept, of w "completed w to_check"] res by simp
  with k rem kept show ?thesis
    unfolding processed(3) r eth_inv_conf eth_waiting_def
    by (auto simp: res Let_def ac_simps split: option.split)
qed

datatype eth_op =
    EthVerify nat eth_ton_event_vote_data eth_address eth_event_abi u16 bool
  | EthUpdate eth_world

fun eth_step :: "eth_op \<Rightarrow> eth_subscriber \<Rightarrow> eth_subscriber \<times> (nat \<times> verification_status option) list" where
  "eth_step (EthVerify c vote emitter parsed blocks checks) s =
     (case verify c vote emitter parsed blocks checks s of (s, dropped, _) \<Rightarrow> (s, dropped))"
| "eth_step (EthUpdate w) s = (case eth_update w s of (s, sent, _) \<Rightarrow> (s, sent))"

fun eth_opened :: "eth_op \<Rightarrow> eth_subscriber \<Rightarrow> nat multiset" where
  "eth_opened (EthVerify c vote emitter parsed blocks checks) s = (if checks then {#c#} else {#})"
| "eth_opened (EthUpdate w) s = {#}"

lemma eth_step_inv: "eth_inv s \<Longrightarrow> eth_inv (fst (eth_step op s))"
  by (cases op) (simp_all add: case_prod_beta verify_inv update_inv_waiting)

lemma eth_step_conserves:
  "eth_inv s \<Longrightarrow> eth_waiting (fst (eth_step op s)) + mset (map fst (snd (eth_step op s))) = eth_waiting s + eth_opened op s"
proof (cases op)
  case (EthVerify c vote emitter parsed blocks checks)
  assume "eth_inv s"
  from verify_waiting [OF this, of c vote emitter parsed blocks] EthVerify show ?thesis
    by (cases checks) (simp_all add: case_prod_beta, simp add: verify_def)
next
  case (EthUpdate w)
  assume "eth_inv s"
  from update_inv_waiting [OF this, of w] EthUpdate show ?thesis by (simp add: case_prod_beta)
qed

interpretation eth_confirmations: oneshot_registry eth_inv eth_step eth_opened eth_waiting
  by unfold_locales (simp_all only: eth_step_inv eth_step_conserves)

subsection \<open>Checking an event\<close>

lemma check_Exists:
  "check hash conf ev = Exists \<longleftrightarrow>
     ev_address ev = pc_event_emitter conf \<and> ev_topic_hash ev = get_eth_topic_hash (pc_event_abi conf)
     \<and> ev_event_index ev = event_index (vote_data conf) \<and> ev_transaction_hash ev = event_transaction (vote_data conf)
     \<and> ev_block_number ev = ucast (event_block_number (vote_data conf)) \<and> ev_block_hash ev = event_block (vote_data conf)
     \<and> (\<exists>data. decode_and_map (pc_event_abi conf) (ev_data ev) = Inr data
          \<and> hash data = hash (et_event_data (vote_data conf)))"
  by (auto simp: check_def Let_def split: sum.split)

lemma find_parsed_found:
  "find_parsed k logs = Inr (Some e) \<Longrightarrow> parsed_event_id e = k \<and> (\<exists>log \<in> set logs. parse_log log = Inr e)"
proof (induction logs)
  case (Cons log logs)
  show ?case
  proof (cases "parse_log log")
    case (Inl err)
    with Cons.prems have "find_parsed k logs = Inr (Some e)" by (cases err) simp_all
    from Cons.IH [OF this] show ?thesis by auto
  next
    case (Inr e')
    with Cons show ?thesis by (cases "parsed_event_id e' = k") auto
  qed
qed simp

lemma find_event_found:
  assumes "find_event w k = Inr (Some e)"
  obtains r log where "transaction_receipt w (fst k) = Inr (Some r)" "receipt_status r = Some 1"
    "log \<in> set (receipt_logs r)" "parse_log log = Inr e" "parsed_event_id e = k"
proof -
  obtain r where r: "transaction_receipt w (fst k) = Inr (Some r)" "receipt_status r = Some 1"
    "find_parsed k (rev (receipt_logs r)) = Inr (Some e)"
    using assms by (auto simp: find_event_def rbind_eq_Inr_iff split: option.splits if_splits)
  from find_parsed_found [OF r(3)] obtain log where "log \<in> set (receipt_logs r)" "parse_log log = Inr e" "parsed_event_id e = k"
    by auto
  with r(1,2) show thesis by (rule that)
qed

lemma received_not_removed: "parse_log log = Inr (ReceivedEvent ev) \<Longrightarrow> log_removed log \<noteq> Some True"
  by (auto simp: parse_log_def rbind_eq_Inr_iff split: if_splits list.splits)

lemma kept_confirmation:
  assumes "conf_wf m" "retain_confirmations current m = (kept, to_check, rejected)"
  shows "hm_get kept k = option_filter (\<lambda>conf. current < target_block conf \<or> pc_status conf \<in> {None, Some Exists}) (hm_get m k)"
    and "k \<in> set to_check \<longleftrightarrow> (\<exists>conf. hm_get m k = Some conf \<and> target_block conf \<le> current
        \<and> pc_status conf \<in> {None, Some Exists})"
proof -
  have wf: "hm_wf m" using assms by (simp add: conf_wf_def)
  show "hm_get kept k = option_filter (\<lambda>conf. current < target_block conf \<or> pc_status conf \<in> {None, Some Exists}) (hm_get m k)"
    using assms(2) hm_get_retain_value [OF wf, of "\<lambda>conf. current < target_block conf \<or> pc_status conf \<in> {None, Some Exists}" k]
    by (simp add: retain_confirmations_eq hm_retain_def)
  show "k \<in> set to_check \<longleftrightarrow> (\<exists>conf. hm_get m k = Some conf \<and> target_block conf \<le> current
        \<and> pc_status conf \<in> {None, Some Exists})"
    using assms(2) wf by (force simp: retain_confirmations_eq hm_wf_get_iff)
qed

lemma rejected_not_exists:
  "retain_confirmations current m = (kept, to_check, rejected) \<Longrightarrow> (c, Some Exists) \<notin> set rejected"
  by (auto simp: retain_confirmations_eq answer_def split: if_splits option.splits)

subsection \<open>Verifying the relay's address\<close>

text \<open>
  \<open>verify_relay_staker_address\<close>: the file with the state of an earlier attempt is an option, the
  polls of the transaction and of the balance are lists of answers (\<open>None\<close> of the whole when they
  run out), and the steps that reach the outside are returned in order.
\<close>

record address_verification_state =
  av_transaction_hash :: uint256
  av_address :: eth_address

record address_verification_config =
  min_balance_gwei :: u64
  gas_price_gwei :: u64

datatype verification_step = ClearState | SaveState address_verification_state | SendRawTransaction uint256 u64

text \<open>One lookup: not found, found and pending, or found in a block.\<close>

datatype transaction_lookup = NoTransaction | PendingTransaction | IncludedTransaction

datatype poll_result = TransactionConfirmed | TransactionUnknown

fun poll_transaction :: "transaction_lookup res list \<Rightarrow> poll_result res option" where
  "poll_transaction [] = None"
| "poll_transaction (r # lookups) =
     (case r of
        Inl e \<Rightarrow> Some (Inl (Context ''Failed to find ETH address verification transaction''))
      | Inr IncludedTransaction \<Rightarrow> Some (Inr TransactionConfirmed)
      | Inr PendingTransaction \<Rightarrow> poll_transaction lookups
      | Inr NoTransaction \<Rightarrow> Some (Inr TransactionUnknown))"

fun wait_min_balance :: "nat \<Rightarrow> nat res list \<Rightarrow> unit res option" where
  "wait_min_balance min_balance [] = None"
| "wait_min_balance min_balance (r # balances) =
     (case r of
        Inl e \<Rightarrow> Some (Inl e)
      | Inr wei \<Rightarrow> if wei < min_balance then wait_min_balance min_balance balances else Some (Inr ()))"

definition GWEI :: u64 where
  "GWEI = 1000000000"

text \<open>
  The transaction: \<open>build\<close> encodes and signs it (its hash), \<open>saved\<close> and \<open>sent\<close> are the results of
  writing the file and of sending.
\<close>

definition send_verification ::
  "address_verification_config \<Rightarrow> eth_address \<Rightarrow> nat res list \<Rightarrow> (u64 \<Rightarrow> uint256 res) \<Rightarrow> unit res \<Rightarrow> unit res \<Rightarrow>
     (verification_step list \<times> unit res) option"
where
  "send_verification settings relay_address balances build saved sent =
     (let min_balance = unat (min_balance_gwei settings * GWEI); gas_price = gas_price_gwei settings * GWEI
      in case wait_min_balance min_balance balances of
           None \<Rightarrow> None
         | Some (Inl e) \<Rightarrow> Some ([], Inl e)
         | Some (Inr _) \<Rightarrow>
             (case build gas_price of
                Inl e \<Rightarrow> Some ([], Inl e)
              | Inr hash \<Rightarrow>
                  (let save = SaveState \<lparr>av_transaction_hash = hash, av_address = relay_address\<rparr>
                   in case saved of
                        Inl e \<Rightarrow> Some ([save], Inl (Context ''Failed to save address verification state''))
                      | Inr _ \<Rightarrow>
                          Some ([save, SendRawTransaction hash gas_price],
                            with_context ''Failed to send raw ETH transaction'' sent))))"

definition verify_relay_staker_address ::
  "address_verification_config \<Rightarrow> address_verification_state option res \<Rightarrow> eth_address \<Rightarrow>
     transaction_lookup res list \<Rightarrow> nat res list \<Rightarrow> (u64 \<Rightarrow> uint256 res) \<Rightarrow> unit res \<Rightarrow> unit res \<Rightarrow>
     (verification_step list \<times> unit res) option"
where
  "verify_relay_staker_address settings loaded relay_address lookups balances build saved sent =
     (let continue = send_verification settings relay_address balances build saved sent;
          cleared = map_option (\<lambda>(steps, r). (ClearState # steps, r)) continue
      in case loaded of
           Inl e \<Rightarrow> Some ([], Inl e)
         | Inr None \<Rightarrow> continue
         | Inr (Some st) \<Rightarrow>
             (if av_address st \<noteq> relay_address then cleared
              else (case poll_transaction lookups of
                      None \<Rightarrow> None
                    | Some (Inl e) \<Rightarrow> Some ([], Inl e)
                    | Some (Inr TransactionConfirmed) \<Rightarrow> Some ([ClearState], Inr ())
                    | Some (Inr TransactionUnknown) \<Rightarrow> cleared)))"

subsection \<open>The evidence behind an answer\<close>

lemma exists_receipt:
  assumes "eth_inv s" and "(c, Some Exists) \<in> set (fst (snd (eth_update w s)))"
    and "\<forall>ks. mset (completed w ks) = mset ks"
  shows "\<exists>k conf current_block events r log ev data. hm_get (pending_confirmations s) k = Some conf
    \<and> status_tx conf = Some c \<and> eth_processed w s current_block events \<and> target_block conf \<le> current_block
    \<and> transaction_receipt w (event_transaction (vote_data conf)) = Inr (Some r) \<and> receipt_status r = Some 1
    \<and> log \<in> set (receipt_logs r) \<and> parse_log log = Inr (ReceivedEvent ev) \<and> log_removed log \<noteq> Some True
    \<and> ev_address ev = pc_event_emitter conf \<and> ev_topic_hash ev = get_eth_topic_hash (pc_event_abi conf)
    \<and> ev_event_index ev = event_index (vote_data conf) \<and> ev_transaction_hash ev = event_transaction (vote_data conf)
    \<and> ev_block_number ev = ucast (event_block_number (vote_data conf)) \<and> ev_block_hash ev = event_block (vote_data conf)
    \<and> decode_and_map (pc_event_abi conf) (ev_data ev) = Inr data
    \<and> cell_hash w data = cell_hash w (et_event_data (vote_data conf))"
proof (cases rule: eth_update_cases [of w s])
  case idle
  with assms(2) show ?thesis by simp
next
  case (processed current_block events m)
  have m: "conf_wf m" using assms(1) processed(2) by (simp add: eth_inv_conf apply_events_conf)
  obtain kept to_check rejected where r: "retain_confirmations current_block m = (kept, to_check, rejected)"
    by (metis prod_cases3)
  obtain remaining resolved where res: "resolve_all w (completed w to_check) kept = (remaining, resolved)"
    by (cases "resolve_all w (completed w to_check) kept")
  have "(c, Some Exists) \<in> set resolved"
    using assms(2) rejected_not_exists [OF r]
    unfolding processed(3) r by (auto simp: res Let_def split: if_splits)
  then obtain k conf found where k: "k \<in> set (completed w to_check)" "hm_get kept k = Some conf"
      "find_event w k = Inr found" "status_tx conf = Some c" "Exists = found_status w conf found"
    using resolve_all_sent [of c "Some Exists" w "completed w to_check" kept] res by auto
  then obtain ev where ev: "found = Some (ReceivedEvent ev)" "check (cell_hash w) conf ev = Exists"
    by (auto simp: found_status_def split: option.splits parsed_eth_event.splits)
  have "k \<in> set to_check" using k(1) assms(3) by (metis set_mset_mset)
  with kept_confirmation [OF m r, of k] k(2) have target: "target_block conf \<le> current_block" and "hm_get m k = Some conf"
    by auto
  from apply_events_get [OF this(2) [unfolded processed(2)]] obtain conf0 where
    c0: "hm_get (pending_confirmations s) k = Some conf0" "conf = conf0\<lparr>pc_status := pc_status conf\<rparr>" by blast
  have same: "status_tx conf0 = status_tx conf" "target_block conf0 = target_block conf" "vote_data conf0 = vote_data conf"
    "pc_event_emitter conf0 = pc_event_emitter conf" "pc_event_abi conf0 = pc_event_abi conf"
    by (subst c0(2), simp)+
  have "k = (event_transaction (vote_data conf0), event_index (vote_data conf0))"
    using assms(1) c0(1) unfolding eth_inv_conf conf_wf_def by blast
  then have "fst k = event_transaction (vote_data conf)" using same by simp
  moreover have "find_event w k = Inr (Some (ReceivedEvent ev))" using k(3) ev(1) by simp
  ultimately obtain r log where "transaction_receipt w (event_transaction (vote_data conf)) = Inr (Some r)"
      "receipt_status r = Some 1" "log \<in> set (receipt_logs r)" "parse_log log = Inr (ReceivedEvent ev)"
    by (metis find_event_found)
  with c0(1) k(4) target processed(1) received_not_removed ev(2) show ?thesis
    unfolding check_Exists same [symmetric] by blast
qed

subsection \<open>Properties\<close>

text \<open>
  C8: The subscriber confirms an event only on evidence: the event's target block has been
  processed, and the receipt of its transaction, with status 1, holds a log that was not removed
  and agrees with the vote in the emitter, the topic, the index, the transaction, the block's
  number and hash, and the mapped data.
\<close>

theorem exists_only_with_receipt:
  assumes "eth_inv s" and "(c, Some Exists) \<in> set (fst (snd (eth_update w s)))"
    and "\<forall>ks. mset (completed w ks) = mset ks"
  shows "\<exists>k conf current_block events r log ev data. hm_get (pending_confirmations s) k = Some conf
    \<and> status_tx conf = Some c \<and> eth_processed w s current_block events \<and> target_block conf \<le> current_block
    \<and> transaction_receipt w (event_transaction (vote_data conf)) = Inr (Some r) \<and> receipt_status r = Some 1
    \<and> log \<in> set (receipt_logs r) \<and> parse_log log = Inr (ReceivedEvent ev) \<and> log_removed log \<noteq> Some True
    \<and> ev_address ev = pc_event_emitter conf \<and> ev_topic_hash ev = get_eth_topic_hash (pc_event_abi conf)
    \<and> ev_event_index ev = event_index (vote_data conf) \<and> ev_transaction_hash ev = event_transaction (vote_data conf)
    \<and> ev_block_number ev = ucast (event_block_number (vote_data conf)) \<and> ev_block_hash ev = event_block (vote_data conf)
    \<and> decode_and_map (pc_event_abi conf) (ev_data ev) = Inr data
    \<and> cell_hash w data = cell_hash w (et_event_data (vote_data conf))"
  by (rule exists_receipt [OF assms])

text \<open>
  Whatever requests and updates follow one another, every channel handed to the subscriber
  still waits in it or was answered or dropped, exactly once; the invariant holds throughout.
\<close>

theorem eth_waiters_answered_once:
  "count (opened_ops eth_step eth_opened ops (eth_subscriber_new cfg height)) c =
     count (eth_waiting (fst (run_ops eth_step ops (eth_subscriber_new cfg height)))) c
     + count (mset (map fst (snd (run_ops eth_step ops (eth_subscriber_new cfg height))))) c
   \<and> eth_inv (fst (run_ops eth_step ops (eth_subscriber_new cfg height)))"
proof
  have inv: "eth_inv (eth_subscriber_new cfg height)" and "eth_waiting (eth_subscriber_new cfg height) = {#}"
    by (simp_all add: eth_inv_def eth_subscriber_new_def eth_waiting_def)
  from eth_confirmations.each_opened_waits_or_is_answered [OF this]
  show "count (opened_ops eth_step eth_opened ops (eth_subscriber_new cfg height)) c =
     count (eth_waiting (fst (run_ops eth_step ops (eth_subscriber_new cfg height)))) c
     + count (mset (map fst (snd (run_ops eth_step ops (eth_subscriber_new cfg height))))) c" .
  show "eth_inv (fst (run_ops eth_step ops (eth_subscriber_new cfg height)))"
    by (rule eth_confirmations.run_ops_inv [OF inv])
qed

text \<open>
  C26: The processed height only grows, to the chain's height at most and by the configured
  range at most, and it grows only over blocks whose logs were read: no block is skipped.
\<close>

theorem block_progress:
  assumes "last_block_number s \<noteq> None"
    and "\<forall>limit. max_block_range (eth_cfg s) = Some limit \<longrightarrow> unat (last_processed_block s) + unat limit < 2 ^ 64"
  shows "last_processed_block s \<le> last_processed_block (fst (eth_update w s))
    \<and> (last_processed_block (fst (eth_update w s)) \<noteq> last_processed_block s \<longrightarrow>
        (\<exists>height events. current_height w = Inr height \<and> last_processed_block (fst (eth_update w s)) \<le> height
          \<and> (\<forall>limit. max_block_range (eth_cfg s) = Some limit \<longrightarrow>
               unat (last_processed_block (fst (eth_update w s))) \<le> unat (last_processed_block s) + unat limit)
          \<and> process_blocks w (last_processed_block s) (last_processed_block (fst (eth_update w s))) s = Some (Inr events)
          \<and> last_block_number (fst (eth_update w s)) = Some (last_processed_block (fst (eth_update w s)))))"
proof (cases rule: eth_update_cases [of w s])
  case idle
  then show ?thesis by simp
next
  case (processed current_block events m)
  then obtain height where h: "current_height w = Inr height" "last_processed_block s < height"
      "current_block = truncate_block (max_block_range (eth_cfg s)) (last_processed_block s) height"
      "process_blocks w (last_processed_block s) current_block s = Some (Inr events)"
    by (auto simp: eth_processed_def)
  obtain n where n: "last_block_number s = Some n" using assms(1) by auto
  have range: "last_processed_block s \<le> current_block \<and> current_block \<le> height
      \<and> (\<forall>limit. max_block_range (eth_cfg s) = Some limit \<longrightarrow>
          unat current_block \<le> unat (last_processed_block s) + unat limit)"
  proof (cases "max_block_range (eth_cfg s)")
    case None
    with h show ?thesis by (simp add: truncate_block_def)
  next
    case (Some limit)
    with assms(2) have sum: "unat (last_processed_block s + limit) = unat (last_processed_block s) + unat limit"
      by (simp add: unat_word_ariths)
    show ?thesis
    proof (cases "last_processed_block s + limit < height")
      case True
      with Some h sum show ?thesis by (simp add: truncate_block_def word_le_nat_alt word_less_nat_alt)
    next
      case False
      with Some h sum show ?thesis by (simp add: truncate_block_def word_le_nat_alt word_less_nat_alt)
    qed
  qed
  obtain kept to_check rejected where r: "retain_confirmations current_block m = (kept, to_check, rejected)"
    by (metis prod_cases3)
  obtain remaining resolved where res: "resolve_all w (completed w to_check) kept = (remaining, resolved)"
    by (cases "resolve_all w (completed w to_check) kept")
  have "last_processed_block (fst (eth_update w s)) = last_processed_block s
      \<or> last_processed_block (fst (eth_update w s)) = current_block
        \<and> last_block_number (fst (eth_update w s)) = Some current_block"
    unfolding processed(3) r by (simp add: res n Let_def)
  with range h(1,4) show ?thesis by auto
qed

text \<open>
  An update that advanced answers every confirmation whose target block it reached, unless
  its receipt could not be fetched; confirmations with a later target block stay.
\<close>

theorem reached_confirmations_answered:
  assumes "eth_inv s" and "\<forall>ks. mset (completed w ks) = mset ks"
    and "eth_processed w s current_block events" and "snd (snd (eth_update w s)) = Inr ()"
    and "hm_get (pending_confirmations s) k = Some conf"
  shows "(target_block conf \<le> current_block \<longrightarrow>
      (hm_get (pending_confirmations (fst (eth_update w s))) k = None
        \<or> (\<exists>e. find_event w k = Inl e)))
    \<and> (current_block < target_block conf \<longrightarrow> hm_get (pending_confirmations (fst (eth_update w s))) k \<noteq> None)"
proof -
  define m where "m = fold (apply_event (cell_hash w)) events (pending_confirmations s)"
  have m: "conf_wf m" using assms(1) by (simp add: eth_inv_conf apply_events_conf m_def)
  obtain kept to_check rejected where r: "retain_confirmations current_block m = (kept, to_check, rejected)"
    by (metis prod_cases3)
  obtain remaining resolved where res: "resolve_all w (completed w to_check) kept = (remaining, resolved)"
    by (cases "resolve_all w (completed w to_check) kept")
  obtain height where h: "current_height w = Inr height" "last_processed_block s < height"
      "truncate_block (max_block_range (eth_cfg s)) (last_processed_block s) height = current_block"
      "process_blocks w (last_processed_block s) current_block s = Some (Inr events)"
    using assms(3) by (auto simp: eth_processed_def)
  have rem: "pending_confirmations (fst (eth_update w s)) = remaining"
    using assms(4) h by (auto simp: eth_update_def not_le [symmetric] r res Let_def m_def [symmetric] split: if_splits option.splits)
  have "k \<in> hm_keys m"
    using apply_events_keys [of "cell_hash w" events "pending_confirmations s"] hm_get_in_set [OF assms(5)]
    unfolding m_def by force
  then obtain conf' where conf': "hm_get m k = Some conf'" by (metis hm_get_None_iff option.exhaust)
  from apply_events_get [OF this [unfolded m_def]] assms(5) have target: "target_block conf' = target_block conf"
    by (metis option.inject pending_confirmation.select_convs(5) pending_confirmation.surjective pending_confirmation.update_convs(6))
  have "k \<in> set (completed w to_check) \<longleftrightarrow> k \<in> set to_check" using assms(2) by (metis set_mset_mset)
  then have get: "hm_get remaining k = (if k \<in> set to_check \<and> (\<exists>x. find_event w k = Inr x) then None else hm_get kept k)"
    using resolve_all_get [of w "completed w to_check" kept k] res by simp
  show ?thesis
  proof (intro conjI impI)
    assume reached: "target_block conf \<le> current_block"
    show "hm_get (pending_confirmations (fst (eth_update w s))) k = None \<or> (\<exists>e. find_event w k = Inl e)"
      using get rem kept_confirmation [OF m r, of k] conf' target reached
      by (cases "find_event w k") (auto simp: not_less [symmetric])
  next
    assume later: "current_block < target_block conf"
    then have "k \<notin> set to_check" "hm_get kept k = Some conf'"
      using kept_confirmation [OF m r, of k] conf' target by (auto simp: not_le)
    with get rem show "hm_get (pending_confirmations (fst (eth_update w s))) k \<noteq> None" by simp
  qed
qed

text \<open>
  A second request for the same transaction and log index drops the first one's channel:
  its caller gets an error, on which the bridge forgets the event.
\<close>

theorem second_request_drops_first:
  assumes "hm_get (pending_confirmations s) (event_transaction vote, event_index vote) = Some conf"
    and "status_tx conf = Some c"
  shows "fst (snd (verify c' vote emitter parsed blocks True s)) = [(c, None)]"
  using assms by (simp add: verify_def Let_def)

text \<open>
  The filter of a log query covers exactly the addresses and topics of the current
  subscriptions, each once, however subscriptions were added and removed.
\<close>

theorem filter_covers_subscriptions:
  assumes "topics_ok (topics s)"
  shows "topics_ok (topics (subscribe a t c s)) \<and> topics_ok (topics (unsubscribe es s))
    \<and> make_filter start end (topics s) =
        (if topic_entries (topics s) = [] then None
         else Some \<lparr>filter_addresses = unique_addresses (topics s), filter_topics = unique_topics (topics s),
                from_block = start, to_block = end\<rparr>)
    \<and> set (unique_addresses (topics s)) = tm_address ` hm_keys (topic_entries (topics s))
    \<and> set (unique_topics (topics s)) = tm_topic_hash ` hm_keys (topic_entries (topics s))"
proof -
  have "unique_addresses (topics s) = [] \<longleftrightarrow> topic_entries (topics s) = []"
    "unique_topics (topics s) = [] \<longleftrightarrow> topic_entries (topics s) = []"
    using assms unfolding topics_ok_def by (metis image_is_empty set_empty)+
  moreover have "topics_ok (topics (subscribe a t c s))" "topics_ok (topics (unsubscribe es s))"
    using assms by (simp_all add: subscribe_def unsubscribe_def topics_ok_add topics_ok_remove)
  ultimately show ?thesis using assms by (simp add: make_filter_def topics_ok_def [of "topics s"])
qed

text \<open>
  C27: The relay sends its verification transaction at most once per attempt, never while an
  earlier transaction of its own address is still known to the chain, and only after the
  transaction's hash was saved, so a restart finds it again.
\<close>

theorem verification_sent_after_save:
  assumes "verify_relay_staker_address settings loaded relay_address lookups balances build saved sent = Some (steps, r)"
    and "SendRawTransaction h price \<in> set steps"
  shows "\<exists>pre. steps = pre @ [SaveState \<lparr>av_transaction_hash = h, av_address = relay_address\<rparr>, SendRawTransaction h price]
    \<and> set pre \<subseteq> {ClearState}
    \<and> (\<forall>st. loaded = Inr (Some st) \<and> av_address st = relay_address \<longrightarrow>
        poll_transaction lookups = Some (Inr TransactionUnknown))"
proof -
  have sent: "st = [SaveState \<lparr>av_transaction_hash = h, av_address = relay_address\<rparr>, SendRawTransaction h price]"
    if "send_verification settings relay_address balances build saved sent = Some (st, r')"
      "SendRawTransaction h price \<in> set st" for st r'
    using that by (auto simp: send_verification_def Let_def split: option.splits sum.splits)
  obtain st r' pre where st: "send_verification settings relay_address balances build saved sent = Some (st, r')"
    and steps: "steps = pre @ st" "set pre \<subseteq> {ClearState}"
    and unknown: "\<forall>st. loaded = Inr (Some st) \<and> av_address st = relay_address \<longrightarrow>
        poll_transaction lookups = Some (Inr TransactionUnknown)"
    using assms unfolding verify_relay_staker_address_def Let_def
    by (auto split: sum.splits option.splits if_splits poll_result.splits)
  have "SendRawTransaction h price \<in> set st" using assms(2) steps by auto
  from sent [OF st this] steps unknown show ?thesis by blast
qed

subsection \<open>Witnesses\<close>

definition demo_vote :: eth_ton_event_vote_data where
  "demo_vote = \<lparr>event_transaction = [2], event_index = 0, et_event_data = [7], event_block_number = 10, event_block = [3]\<rparr>"

definition demo_eth_abi :: eth_event_abi where
  "demo_eth_abi = \<lparr>get_eth_topic_hash = [9], decode_and_map = (\<lambda>_. Inr [7])\<rparr>"

definition demo_log :: eth_log where
  "demo_log = \<lparr>log_address = [5], log_topics = [[9]], log_data = [], log_block_hash = Some [3],
     log_block_number = Some 10, log_transaction_hash = Some [2], log_index = Some 0, log_removed = None\<rparr>"

definition demo_eth_world :: eth_world where
  "demo_eth_world = \<lparr>current_height = Inr 30, is_incomplete_message = (\<lambda>_. False), get_logs = (\<lambda>_. Some (Inr [])),
     transaction_receipt = (\<lambda>_. Inr (Some \<lparr>receipt_status = Some 1, receipt_logs = [demo_log]\<rparr>)),
     completed = (\<lambda>ks. ks), cell_hash = (\<lambda>c. c)\<rparr>"

definition demo_eth :: eth_subscriber where
  "demo_eth = fst (verify 1 demo_vote [5] demo_eth_abi 12 True
     (subscribe [5] [9] [4] (eth_subscriber_new \<lparr>max_block_range = Some 100\<rparr> 20)))"

lemma demo_eth_inv: "eth_inv demo_eth"
  unfolding demo_eth_def by (rule verify_inv) (simp add: eth_inv_def subscribe_def eth_subscriber_new_def)

lemmas demo_eth_simps = demo_eth_def demo_eth_world_def demo_vote_def demo_eth_abi_def verify_def subscribe_def
  eth_subscriber_new_def Let_def add_entry_def topics_map_new_def

lemma demo_processed: "eth_processed demo_eth_world demo_eth 30 []"
  by (simp add: demo_eth_simps eth_processed_def truncate_block_def process_blocks_def make_filter_def update_topics_map_def)

lemma demo_eth_sent: "eth_update demo_eth_world demo_eth =
    (fst (eth_update demo_eth_world demo_eth), [(1, Some Exists)], Inr ())"
  by (simp add: demo_eth_simps eth_update_def truncate_block_def process_blocks_def make_filter_def update_topics_map_def
      find_event_def demo_log_def parse_log_def as_u32_def panics_def resolve_def answer_def check_def)

theorem exists_only_with_receipt_witness:
  "\<exists>k conf. hm_get (pending_confirmations demo_eth) k = Some conf \<and> status_tx conf = Some 1"
proof -
  have "(1, Some Exists) \<in> set (fst (snd (eth_update demo_eth_world demo_eth)))"
    by (subst demo_eth_sent) simp
  from exists_only_with_receipt [OF demo_eth_inv this] show ?thesis
    by (auto simp: demo_eth_world_def)
qed

theorem block_progress_witness:
  "last_processed_block demo_eth \<le> last_processed_block (fst (eth_update demo_eth_world demo_eth))"
  by (rule block_progress [THEN conjunct1]) (simp_all add: demo_eth_simps)

theorem reached_confirmations_answered_witness:
  "hm_get (pending_confirmations (fst (eth_update demo_eth_world demo_eth))) ([2], 0) = None"
proof -
  have get: "hm_get (pending_confirmations demo_eth) ([2], 0) = Some \<lparr>vote_data = demo_vote, status_tx = Some 1,
      pc_event_emitter = [5], pc_event_abi = demo_eth_abi, target_block = 22, pc_status = None\<rparr>"
    by (simp add: demo_eth_simps)
  have "snd (snd (eth_update demo_eth_world demo_eth)) = Inr ()" by (subst demo_eth_sent) simp
  from reached_confirmations_answered [OF demo_eth_inv _ demo_processed this get] show ?thesis
    by (simp add: demo_eth_world_def find_event_def demo_log_def parse_log_def as_u32_def)
qed

theorem second_request_drops_first_witness:
  "fst (snd (verify 2 demo_vote [5] demo_eth_abi 12 True demo_eth)) = [(1, None)]"
proof -
  have "hm_get (pending_confirmations demo_eth) (event_transaction demo_vote, event_index demo_vote) =
      Some \<lparr>vote_data = demo_vote, status_tx = Some 1, pc_event_emitter = [5], pc_event_abi = demo_eth_abi,
        target_block = 22, pc_status = None\<rparr>"
    by (simp add: demo_eth_simps)
  from second_request_drops_first [OF this] show ?thesis by simp
qed

theorem filter_covers_subscriptions_witness:
  "make_filter 1 2 (topics demo_eth) =
     Some \<lparr>filter_addresses = [[5]], filter_topics = [[9]], from_block = 1, to_block = 2\<rparr>"
proof -
  have "topics_ok (topics demo_eth)"
    by (simp add: demo_eth_simps topics_ok_def update_topics_map_def hm_wf_def)
  from filter_covers_subscriptions [OF this, of _ _ _ _ 1 2] show ?thesis
    by (simp add: demo_eth_simps update_topics_map_def)
qed

theorem verification_sent_after_save_witness:
  "\<exists>pre. [SaveState \<lparr>av_transaction_hash = [1], av_address = [2]\<rparr>, SendRawTransaction [1] 1000000000] =
     pre @ [SaveState \<lparr>av_transaction_hash = [1], av_address = [2]\<rparr>, SendRawTransaction [1] 1000000000]"
proof -
  have "verify_relay_staker_address \<lparr>min_balance_gwei = 0, gas_price_gwei = 1\<rparr> (Inr None) [2] [] [Inr 5]
      (\<lambda>_. Inr [1]) (Inr ()) (Inr ()) =
      Some ([SaveState \<lparr>av_transaction_hash = [1], av_address = [2]\<rparr>, SendRawTransaction [1] 1000000000], Inr ())"
    by (simp add: verify_relay_staker_address_def send_verification_def GWEI_def Let_def)
  from verification_sent_after_save [OF this] show ?thesis by auto
qed

end
