(* ===== verification/Sol_Subscriber.thy ===== *)
theory Sol_Subscriber
  imports Oneshot Contracts Solana
begin

section \<open>The Solana subscriber\<close>

text \<open>
  \<open>src/engine/sol_subscriber/mod.rs\<close>. The subscriber keeps a map from proposal accounts to
  events that wait for them, each with the one-shot sender of the task that asked. A round of
  \<open>update\<close> drops expired events, decides which accounts are due, reads them one by one and answers.
  The RPC node and the Solana programs' data formats are parameters (\<open>sol_world\<close>); the order in
  which the hash set of due accounts is visited is a parameter too.
\<close>

type_synonym pubkey = uint256

record sol_config =
  endpoints :: "string list"
  poll_proposals_interval_sec :: u64
  poll_deposits_timeout_sec :: u64
  sol_retry_times :: nat \<comment> \<open>computed from \<open>maximum_failed_responses_time_sec\<close>\<close>

record sol_pending_event =
  spe_event_data :: bytes
  spe_status_tx :: "nat option"
  spe_created_at :: u64
  spe_delay :: u32
  spe_time :: u64

record sol_subscriber =
  sol_config :: sol_config
  rpc_clients :: "string list"
  programs_to_subscribe :: "pubkey list"
  sol_pending_events :: "(pubkey, sol_pending_event) hashmap"
  pending_events_count :: usize
  round_robin_counter :: usize \<comment> \<open>\<open>static ROUND_ROBIN_COUNTER\<close>\<close>

text \<open>Construction asks every client for the block height and fails with the first that does not answer.\<close>

fun check_clients :: "(string \<Rightarrow> u64 res) \<Rightarrow> string list \<Rightarrow> unit res" where
  "check_clients get_block_height [] = Inr ()"
| "check_clients get_block_height (client # clients) =
     rbind (get_block_height client) (\<lambda>_. check_clients get_block_height clients)"

definition sol_subscriber_new :: "(string \<Rightarrow> u64 res) \<Rightarrow> usize \<Rightarrow> sol_config \<Rightarrow> sol_subscriber res" where
  "sol_subscriber_new get_block_height counter conf =
     rbind (check_clients get_block_height (endpoints conf)) (\<lambda>_.
       Inr \<lparr>sol_config = conf, rpc_clients = endpoints conf, programs_to_subscribe = [],
         sol_pending_events = [], pending_events_count = 0, round_robin_counter = counter\<rparr>)"

definition sol_subscribe :: "pubkey \<Rightarrow> sol_subscriber \<Rightarrow> sol_subscriber" where
  "sol_subscribe program s =
     (if program \<in> set (programs_to_subscribe s) then s
      else s\<lparr>programs_to_subscribe := programs_to_subscribe s @ [program]\<rparr>)"

text \<open>The counter goes round the clients; with no client the remainder panics.\<close>

definition get_rpc_client :: "sol_subscriber \<Rightarrow> sol_subscriber \<times> string res" where
  "get_rpc_client s =
     (let s' = s\<lparr>round_robin_counter := round_robin_counter s + 1\<rparr>
      in if rpc_clients s = [] then (s', Inl (Panic ''remainder with a divisor of zero''))
         else (let index = unat (round_robin_counter s) mod length (rpc_clients s)
               in (s', if index < length (rpc_clients s) then Inr (rpc_clients s ! index)
                       else Inl (Foreign ''Failed to get solana RPC client''))))"

subsection \<open>Pending TON to SOL events\<close>

definition INIT_INTERVAL_DELAY_SEC :: u32 where
  "INIT_INTERVAL_DELAY_SEC = 300"

definition EXPIRED_PERIOD :: u64 where
  "EXPIRED_PERIOD = 14 * 24 * 60 * 60"

definition answer_event :: "sol_pending_event \<Rightarrow> verification_status option \<Rightarrow> (nat \<times> verification_status option) list" where
  "answer_event event answer = (case spe_status_tx event of None \<Rightarrow> [] | Some c \<Rightarrow> [(c, answer)])"

text \<open>A new request; a request for the same account that was still waiting loses its sender.\<close>

definition verify_ton_sol_event ::
  "nat \<Rightarrow> pubkey \<Rightarrow> bytes \<Rightarrow> u32 \<Rightarrow> sol_subscriber \<Rightarrow> sol_subscriber \<times> (nat \<times> verification_status option) list"
where
  "verify_ton_sol_event channel acc event_data created s =
     (let dropped = (case hm_get (sol_pending_events s) acc of None \<Rightarrow> [] | Some old \<Rightarrow> answer_event old None);
          events = hm_insert acc \<lparr>spe_event_data = event_data, spe_status_tx = Some channel,
             spe_created_at = ucast created, spe_delay = INIT_INTERVAL_DELAY_SEC, spe_time = 0\<rparr> (sol_pending_events s)
      in (s\<lparr>sol_pending_events := events, pending_events_count := of_nat (length events)\<rparr>, dropped))"

definition check_proposal :: "sol_pending_event \<Rightarrow> bytes \<Rightarrow> verification_status" where
  "check_proposal event data = (if spe_event_data event = data then Exists else NotExists ''Event data mismatch'')"

text \<open>Whether an event is due, and when it is due next.\<close>

definition poll_event :: "u64 \<Rightarrow> u64 \<Rightarrow> sol_pending_event \<Rightarrow> bool \<times> sol_pending_event" where
  "poll_event interval time event =
     (if time > spe_time event
      then (let time_diff = time - spe_created_at event
            in (True,
                if time_diff \<le> 300 then event\<lparr>spe_time := time\<rparr>
                else if time_diff \<le> 3600
                  then event\<lparr>spe_time := time + ucast (spe_delay event), spe_delay := spe_delay event * 2\<rparr>
                else event\<lparr>spe_time := time + interval\<rparr>))
      else (False, event))"

fun retain_events ::
  "u64 \<Rightarrow> u64 \<Rightarrow> (pubkey, sol_pending_event) hashmap \<Rightarrow>
     (pubkey, sol_pending_event) hashmap \<times> pubkey list \<times> (nat \<times> verification_status option) list"
where
  "retain_events interval time [] = ([], [], [])"
| "retain_events interval time ((acc, event) # events) =
     (case retain_events interval time events of
        (kept, accounts_to_check, sent) \<Rightarrow>
          if time > spe_created_at event + EXPIRED_PERIOD
          then (kept, accounts_to_check, answer_event event (Some (NotExists ''TON->SOL event is expired'')) @ sent)
          else (case poll_event interval time event of
                  (due, event) \<Rightarrow>
                    ((acc, event) # kept, if due then acc # accounts_to_check else accounts_to_check, sent)))"

record proposal =
  proposal_round_number :: u32
  proposal_is_initialized :: bool
  proposal_event :: bytes
  proposal_signers :: "sol_vote option list" \<comment> \<open>\<open>None\<close> is the program's \<open>Vote::None\<close>\<close>

record sol_world =
  utc_now_sec :: u64
  check_order :: "pubkey list \<Rightarrow> pubkey list"
  proposal_account :: "pubkey \<Rightarrow> bytes option res"
  round_account :: "pubkey \<Rightarrow> pubkey \<Rightarrow> bytes option res" \<comment> \<open>while handling the first, the account of the second\<close>
  unpack_proposal :: "bytes \<Rightarrow> proposal res"
  relay_round_address :: "u32 \<Rightarrow> pubkey"

text \<open>One account of the round; an error ends the round.\<close>

definition process_account ::
  "sol_world \<Rightarrow> pubkey \<Rightarrow> (pubkey, sol_pending_event) hashmap \<Rightarrow>
     (pubkey, sol_pending_event) hashmap \<times> (nat \<times> verification_status option) list \<times> unit res"
where
  "process_account w acc events =
     (case proposal_account w acc of
        Inl e \<Rightarrow> (events, [], Inr ())
      | Inr None \<Rightarrow> (events, [], Inr ())
      | Inr (Some raw) \<Rightarrow>
          (case hm_get events acc of
             None \<Rightarrow> (events, [], Inr ())
           | Some event \<Rightarrow>
               (case unpack_proposal w raw of
                  Inl e \<Rightarrow> (hm_remove acc events, answer_event event None, Inl (Foreign ''Failed to unpack proposal''))
                | Inr p \<Rightarrow>
                    (let outcome = check_proposal event (proposal_event p)
                     in case round_account w acc (relay_round_address w (proposal_round_number p)) of
                          Inr None \<Rightarrow>
                            (hm_remove acc events, answer_event event None, Inl (Foreign ''Round in solana does not exist''))
                        | Inl e \<Rightarrow> (events, [], Inr ())
                        | Inr (Some _) \<Rightarrow>
                            if proposal_is_initialized p
                            then (hm_remove acc events, answer_event event (Some outcome), Inr ())
                            else (events, [], Inr ())))))"

fun process_accounts ::
  "sol_world \<Rightarrow> pubkey list \<Rightarrow> (pubkey, sol_pending_event) hashmap \<Rightarrow>
     (pubkey, sol_pending_event) hashmap \<times> (nat \<times> verification_status option) list \<times> unit res"
where
  "process_accounts w [] events = (events, [], Inr ())"
| "process_accounts w (acc # accs) events =
     (case process_account w acc events of
        (events, sent, Inl e) \<Rightarrow> (events, sent, Inl e)
      | (events, sent, Inr _) \<Rightarrow>
          (case process_accounts w accs events of (events, sent', r) \<Rightarrow> (events, sent @ sent', r)))"

definition sol_update ::
  "sol_world \<Rightarrow> sol_subscriber \<Rightarrow> sol_subscriber \<times> (nat \<times> verification_status option) list \<times> unit res"
where
  "sol_update w s =
     (case get_rpc_client s of
        (s, Inl e) \<Rightarrow> (s, [], Inl e)
      | (s, Inr client) \<Rightarrow>
          (case retain_events (poll_proposals_interval_sec (sol_config s)) (utc_now_sec w) (sol_pending_events s) of
             (kept, accounts_to_check, expired) \<Rightarrow>
               (case process_accounts w (check_order w accounts_to_check) kept of
                  (events, sent, r) \<Rightarrow>
                    (case r of
                       Inl e \<Rightarrow> (s\<lparr>sol_pending_events := events\<rparr>, expired @ sent, Inl e)
                     | Inr _ \<Rightarrow> (s\<lparr>sol_pending_events := events, pending_events_count := of_nat (length events)\<rparr>,
                                  expired @ sent, Inr ())))))"

subsection \<open>The channels\<close>

definition sol_inv :: "sol_subscriber \<Rightarrow> bool" where
  "sol_inv s \<longleftrightarrow> has_senders spe_status_tx (sol_pending_events s)"

definition sol_waiting :: "sol_subscriber \<Rightarrow> nat multiset" where
  "sol_waiting s = senders spe_status_tx (sol_pending_events s)"

definition alive :: "u64 \<Rightarrow> sol_pending_event \<Rightarrow> bool" where
  "alive time event \<longleftrightarrow> time \<le> spe_created_at event + EXPIRED_PERIOD"

lemma retain_events_eq:
  "retain_events interval time events =
     (map (\<lambda>(acc, event). (acc, snd (poll_event interval time event))) (filter (alive time \<circ> snd) events),
      map fst (filter (fst \<circ> poll_event interval time \<circ> snd) (filter (alive time \<circ> snd) events)),
      concat (map (\<lambda>(acc, event). answer_event event (Some (NotExists ''TON->SOL event is expired'')))
        (filter (Not \<circ> alive time \<circ> snd) events)))"
  by (induction events) (auto simp: alive_def not_less split: prod.split)

lemma poll_event_keeps [simp]:
  "spe_event_data (snd (poll_event interval time event)) = spe_event_data event"
  "spe_status_tx (snd (poll_event interval time event)) = spe_status_tx event"
  "spe_created_at (snd (poll_event interval time event)) = spe_created_at event"
  by (simp_all add: poll_event_def Let_def)

lemma answer_event_sent: "spe_status_tx event = Some c \<Longrightarrow> answer_event event a = [(c, a)]"
  by (simp add: answer_event_def)

lemma retain_events_senders:
  assumes "has_senders spe_status_tx events" "retain_events interval time events = (kept, due, sent)"
  shows "has_senders spe_status_tx kept \<and> senders spe_status_tx kept + mset (map fst sent) = senders spe_status_tx events"
  using assms
proof (induction events arbitrary: kept due sent)
  case (Cons e events)
  obtain acc event where e: "e = (acc, event)" by (cases e)
  obtain kept' due' sent' where r: "retain_events interval time events = (kept', due', sent')"
    by (metis prod_cases3)
  have tl: "has_senders spe_status_tx events" and new: "acc \<notin> hm_keys events"
    and tx: "\<exists>c. spe_status_tx event = Some c"
    using Cons.prems(1) e by (auto simp: has_senders_def hm_wf_def)
  have sub: "hm_keys kept' \<subseteq> hm_keys events" using r by (force simp: retain_events_eq)
  from Cons.IH [OF tl r] tx new sub Cons.prems(2) r e show ?case
    by (auto simp: has_senders_def hm_wf_def answer_event_def split: if_splits prod.splits)
      (metis poll_event_keeps(2) option.distinct(1) option.sel snd_conv)+
qed simp

lemma process_account_senders:
  assumes "has_senders spe_status_tx events" "process_account w acc events = (events', sent, r)"
  shows "has_senders spe_status_tx events' \<and> senders spe_status_tx events' + mset (map fst sent) = senders spe_status_tx events"
proof (cases "hm_get events acc")
  case (Some event)
  then obtain c where c: "spe_status_tx event = Some c" using assms(1) has_senders_get by metis
  note senders_remove [OF assms(1) Some c] has_senders_remove [OF assms(1), of acc]
  with assms Some answer_event_sent [OF c] show ?thesis
    by (auto simp: process_account_def Let_def split: sum.splits option.splits if_splits)
qed (use assms in \<open>auto simp: process_account_def split: sum.splits option.splits\<close>)

lemma process_accounts_senders:
  assumes "has_senders spe_status_tx events" "process_accounts w accs events = (events', sent, r)"
  shows "has_senders spe_status_tx events' \<and> senders spe_status_tx events' + mset (map fst sent) = senders spe_status_tx events"
  using assms
proof (induction accs arbitrary: events events' sent r)
  case (Cons acc accs)
  obtain events1 sent1 r1 where one: "process_account w acc events = (events1, sent1, r1)" by (metis prod_cases3)
  obtain events2 sent2 r2 where two: "process_accounts w accs events1 = (events2, sent2, r2)" by (metis prod_cases3)
  note process_account_senders [OF Cons.prems(1) one]
  moreover from this have "has_senders spe_status_tx events1" by simp
  note Cons.IH [OF this two]
  ultimately show ?case using Cons.prems(2) one two by (auto split: sum.splits simp: mset_chain)
qed simp

datatype sol_op = VerifyTonSol nat pubkey bytes u32 | SolUpdate sol_world | SolSubscribe pubkey

fun sol_step :: "sol_op \<Rightarrow> sol_subscriber \<Rightarrow> sol_subscriber \<times> (nat \<times> verification_status option) list" where
  "sol_step (VerifyTonSol c acc data created) s = verify_ton_sol_event c acc data created s"
| "sol_step (SolUpdate w) s = (case sol_update w s of (s, sent, _) \<Rightarrow> (s, sent))"
| "sol_step (SolSubscribe program) s = (sol_subscribe program s, [])"

fun sol_opened :: "sol_op \<Rightarrow> sol_subscriber \<Rightarrow> nat multiset" where
  "sol_opened (VerifyTonSol c acc data created) s = {#c#}"
| "sol_opened (SolUpdate w) s = {#}"
| "sol_opened (SolSubscribe program) s = {#}"

lemma get_rpc_client_keeps [simp]:
  "sol_pending_events (fst (get_rpc_client s)) = sol_pending_events s"
  "sol_config (fst (get_rpc_client s)) = sol_config s"
  "rpc_clients (fst (get_rpc_client s)) = rpc_clients s"
  by (simp_all add: get_rpc_client_def Let_def)

text \<open>A round in its two phases, for the proofs.\<close>

lemma sol_update_cases:
  obtains (no_client) e where "rpc_clients s = []" "sol_update w s = (fst (get_rpc_client s), [], Inl e)"
  | (round) kept due expired events sent r s' where
      "retain_events (poll_proposals_interval_sec (sol_config s)) (utc_now_sec w) (sol_pending_events s) = (kept, due, expired)"
      "process_accounts w (check_order w due) kept = (events, sent, r)"
      "sol_update w s = (s', expired @ sent, r)" "sol_pending_events s' = events"
      "r = Inr () \<Longrightarrow> pending_events_count s' = of_nat (length events)"
proof (cases "get_rpc_client s")
  case (Pair s1 r1)
  have keeps: "sol_pending_events s1 = sol_pending_events s" "sol_config s1 = sol_config s"
    using get_rpc_client_keeps [of s] Pair by simp_all
  show thesis
  proof (cases r1)
    case (Inl e)
    then show thesis using Pair no_client [of e]
      by (auto simp: sol_update_def get_rpc_client_def Let_def split: if_splits)
  next
    case (Inr client)
    obtain kept due expired where k: "retain_events (poll_proposals_interval_sec (sol_config s)) (utc_now_sec w) (sol_pending_events s) = (kept, due, expired)"
      by (metis prod_cases3)
    obtain events sent r where p: "process_accounts w (check_order w due) kept = (events, sent, r)" by (metis prod_cases3)
    show thesis
    proof (cases r)
      case (Inl e)
      show thesis by (rule round [OF k p, of "s1\<lparr>sol_pending_events := events\<rparr>"])
          (use Pair Inr keeps k p Inl in \<open>simp_all add: sol_update_def\<close>)
    next
      case (Inr u)
      show thesis by (rule round [OF k p, of "s1\<lparr>sol_pending_events := events, pending_events_count := of_nat (length events)\<rparr>"])
          (use Pair \<open>r1 = Inr client\<close> keeps k p Inr in \<open>simp_all add: sol_update_def\<close>)
    qed
  qed
qed

lemma sol_update_senders:
  assumes "sol_inv s"
  shows "sol_inv (fst (sol_update w s))
    \<and> sol_waiting (fst (sol_update w s)) + mset (map fst (fst (snd (sol_update w s)))) = sol_waiting s"
proof (cases rule: sol_update_cases [of s w])
  case (no_client e)
  with assms show ?thesis by (simp add: sol_inv_def sol_waiting_def)
next
  case (round kept due expired events sent r s')
  from assms retain_events_senders [OF _ round(1)] have k: "has_senders spe_status_tx kept"
    "senders spe_status_tx kept + mset (map fst expired) = sol_waiting s"
    by (simp_all add: sol_inv_def sol_waiting_def)
  from process_accounts_senders [OF k(1) round(2)] mset_chain [OF k(2)] round(3,4) show ?thesis
    by (simp add: sol_inv_def sol_waiting_def)
qed

lemma verify_ton_sol_senders:
  assumes "sol_inv s"
  shows "sol_inv (fst (verify_ton_sol_event c acc data created s))
    \<and> sol_waiting (fst (verify_ton_sol_event c acc data created s))
        + mset (map fst (snd (verify_ton_sol_event c acc data created s))) = add_mset c (sol_waiting s)"
proof -
  have wf: "hm_wf (sol_pending_events s)" and hs: "has_senders spe_status_tx (sol_pending_events s)"
    using assms has_senders_wf by (auto simp: sol_inv_def)
  show ?thesis
  proof (cases "hm_get (sol_pending_events s) acc")
    case None
    with hs show ?thesis
      by (simp add: verify_ton_sol_event_def Let_def sol_inv_def sol_waiting_def has_senders_insert senders_insert [OF wf] hm_remove_absent)
  next
    case (Some old)
    then obtain c' where c': "spe_status_tx old = Some c'" using has_senders_get [OF hs] by metis
    with hs Some show ?thesis
      by (simp add: verify_ton_sol_event_def Let_def sol_inv_def sol_waiting_def has_senders_insert senders_insert [OF wf]
          senders_remove [OF hs Some c'] answer_event_sent)
  qed
qed

lemma sol_step_contract:
  assumes "sol_inv s"
  shows "sol_inv (fst (sol_step op s))"
    and "sol_waiting (fst (sol_step op s)) + mset (map fst (snd (sol_step op s))) = sol_waiting s + sol_opened op s"
  using sol_update_senders [OF assms] verify_ton_sol_senders [OF assms] assms
  by (cases op; simp add: case_prod_beta sol_subscribe_def sol_inv_def sol_waiting_def)+

interpretation sol_events: oneshot_registry sol_inv sol_step sol_opened sol_waiting
  by unfold_locales (simp_all only: sol_step_contract)

subsection \<open>The polling interval\<close>

text \<open>
  An event's delay is \<open>300 * 2 ^ k\<close> seconds with \<open>k \<le> 4\<close>: it doubles only in the first hour, and
  after \<open>k\<close> doublings the event is not due before \<open>300 * 2 ^ k\<close> seconds of its life.
\<close>

definition delay_ok :: "sol_pending_event \<Rightarrow> bool" where
  "delay_ok event \<longleftrightarrow> unat (spe_created_at event) < 2 ^ 32 \<and>
     (\<exists>k \<le> 4. unat (spe_delay event) = 300 * 2 ^ k \<and>
        (0 < k \<longrightarrow> unat (spe_created_at event) + 300 * 2 ^ k \<le> unat (spe_time event)))"

lemma unat_sub_ge: "b \<le> a \<Longrightarrow> unat (a - b) = unat a - unat (b :: u64)"
  by (rule unat_sub)

lemma unat_sub_wrap: "a < b \<Longrightarrow> unat b < 2 ^ 32 \<Longrightarrow> 2 ^ 63 < unat (a - b :: u64)"
proof -
  assume "a < b" "unat b < 2 ^ 32"
  then have "unat (a - b) = 2 ^ 64 + unat a - unat b" by (simp add: unat_sub_if' word_less_nat_alt not_le)
  with \<open>unat b < 2 ^ 32\<close> show ?thesis by simp
qed

lemma poll_event_delay_ok:
  assumes ok: "delay_ok event" and time: "unat time + 4800 < 2 ^ 64" "unat time + unat interval < 2 ^ 64"
  shows "delay_ok (snd (poll_event interval time event))"
proof (cases "spe_time event < time")
  case False
  with ok show ?thesis by (simp add: poll_event_def)
next
  case True
  obtain k where k: "k \<le> 4" "unat (spe_delay event) = 300 * 2 ^ k"
      "0 < k \<longrightarrow> unat (spe_created_at event) + 300 * 2 ^ k \<le> unat (spe_time event)"
    and created: "unat (spe_created_at event) < 2 ^ 32"
    using ok by (auto simp: delay_ok_def)
  have due: "unat (spe_time event) < unat time" using True by (simp add: word_less_nat_alt)
  have pos: "(1 :: nat) \<le> 2 ^ k" by simp
  let ?diff = "time - spe_created_at event"
  have diff: "unat ?diff = unat time - unat (spe_created_at event) \<and> spe_created_at event \<le> time" if "?diff \<le> 3600"
    using that unat_sub_wrap [OF _ created, of time] unat_sub_ge [of "spe_created_at event" time]
    by (cases "time < spe_created_at event") (auto simp: word_le_nat_alt word_less_nat_alt not_less)
  have le: "unat (spe_created_at event) \<le> unat time" if "?diff \<le> 3600"
    using diff [OF that] by (simp add: word_le_nat_alt)
  consider (early) "?diff \<le> 300" | (hour) "\<not> ?diff \<le> 300" "?diff \<le> 3600" | (late) "\<not> ?diff \<le> 300" "\<not> ?diff \<le> 3600"
    by blast
  then show ?thesis
  proof cases
    case early
    then have small: "?diff \<le> 3600" by (simp add: word_le_nat_alt)
    from early have "unat ?diff \<le> 300" by (simp add: word_le_nat_alt)
    then have "unat time \<le> unat (spe_created_at event) + 300" using diff [OF small] le [OF small] by auto
    with k(3) due pos have "k = 0" by (cases "k = 0") linarith+
    with early True k created show ?thesis by (simp add: poll_event_def delay_ok_def Let_def)
  next
    case hour
    from hour have bounds: "300 < unat ?diff" "unat ?diff \<le> 3600" by (simp_all add: word_le_nat_alt)
    with diff [OF hour(2)] le [OF hour(2)]
    have near: "unat (spe_created_at event) + 300 < unat time" "unat time \<le> unat (spe_created_at event) + 3600" by auto
    have life: "unat (spe_created_at event) + 300 * 2 ^ k \<le> unat time" using near k(3) due by (cases "k = 0") auto
    have "k \<noteq> 4" using near k(3) due by auto
    then have k3: "k \<le> 3" using k(1) by simp
    have two: "(2 :: nat) ^ k \<le> 8" using power_increasing [OF k3, of "2 :: nat"] by simp
    have "unat (spe_delay event * 2) = 300 * 2 ^ Suc k"
      using k(2) two by (simp add: unat_word_ariths)
    moreover have "unat (time + ucast (spe_delay event)) = unat time + 300 * 2 ^ k"
      using k(2) two time(1) by (simp add: unat_word_ariths unat_ucast_u64)
    ultimately show ?thesis
      using hour True k3 created life by (auto simp: poll_event_def delay_ok_def Let_def intro!: exI [of _ "Suc k"])
  next
    case late
    have "unat (time + interval) = unat time + unat interval"
      using time(2) by (simp add: unat_word_ariths)
    with late True k created due show ?thesis by (auto simp: poll_event_def delay_ok_def Let_def intro!: exI [of _ k])
  qed
qed

definition delays_ok :: "sol_subscriber \<Rightarrow> bool" where
  "delays_ok s \<longleftrightarrow> (\<forall>(acc, event) \<in> set (sol_pending_events s). delay_ok event)"

text \<open>The clock leaves room for the longest interval below the width of \<open>u64\<close>.\<close>

definition clock_ok :: "u64 \<Rightarrow> u64 \<Rightarrow> bool" where
  "clock_ok interval time \<longleftrightarrow> unat time + 4800 < 2 ^ 64 \<and> unat time + unat interval < 2 ^ 64"

fun op_clock_ok :: "u64 \<Rightarrow> sol_op \<Rightarrow> bool" where
  "op_clock_ok interval (SolUpdate w) \<longleftrightarrow> clock_ok interval (utc_now_sec w)"
| "op_clock_ok interval (VerifyTonSol c acc data created) \<longleftrightarrow> True"
| "op_clock_ok interval (SolSubscribe program) \<longleftrightarrow> True"

lemma process_account_subset: "process_account w acc events = (events', sent, r) \<Longrightarrow> set events' \<subseteq> set events"
  by (auto simp: process_account_def Let_def AList.delete_eq split: sum.splits option.splits if_splits)

lemma process_accounts_subset: "process_accounts w accs events = (events', sent, r) \<Longrightarrow> set events' \<subseteq> set events"
proof (induction accs arbitrary: events events' sent r)
  case (Cons acc accs)
  obtain events1 sent1 r1 where one: "process_account w acc events = (events1, sent1, r1)" by (metis prod_cases3)
  obtain events2 sent2 r2 where two: "process_accounts w accs events1 = (events2, sent2, r2)" by (metis prod_cases3)
  from process_account_subset [OF one] Cons.IH [OF two] Cons.prems one two show ?case
    by (auto split: sum.splits)
qed simp

lemma new_delay_ok: "delay_ok \<lparr>spe_event_data = data, spe_status_tx = t, spe_created_at = ucast (created :: u32),
    spe_delay = INIT_INTERVAL_DELAY_SEC, spe_time = 0\<rparr>"
proof -
  have "unat created < 2 ^ 32" by (rule order_less_le_trans [OF unsigned_less]) simp
  then show ?thesis by (auto simp: delay_ok_def INIT_INTERVAL_DELAY_SEC_def unat_ucast_u64 intro!: exI [of _ 0])
qed

lemma sol_step_delays:
  assumes "delays_ok s" "op_clock_ok (poll_proposals_interval_sec (sol_config s)) op"
  shows "delays_ok (fst (sol_step op s)) \<and> sol_config (fst (sol_step op s)) = sol_config s"
proof (cases op)
  case (VerifyTonSol c acc data created)
  with assms(1) hm_insert_subset new_delay_ok show ?thesis
    by (fastforce simp: delays_ok_def verify_ton_sol_event_def Let_def)
next
  case (SolSubscribe program)
  with assms show ?thesis by (simp add: delays_ok_def sol_subscribe_def)
next
  case (SolUpdate w)
  have conf: "sol_config (fst (sol_update w s)) = sol_config s"
    using get_rpc_client_keeps(2) [of s]
    by (cases "get_rpc_client s") (auto simp: sol_update_def split: prod.splits sum.splits)
  have "delays_ok (fst (sol_update w s))"
  proof (cases rule: sol_update_cases [of s w])
    case (no_client e)
    with assms(1) show ?thesis by (simp add: delays_ok_def)
  next
    case (round kept due expired events sent r s')
    have "\<forall>(acc, event) \<in> set kept. delay_ok event"
      using round(1) assms SolUpdate poll_event_delay_ok [of _ "utc_now_sec w" "poll_proposals_interval_sec (sol_config s)"]
      by (fastforce simp: retain_events_eq delays_ok_def clock_ok_def)
    with process_accounts_subset [OF round(2)] round(3,4) show ?thesis by (auto simp: delays_ok_def)
  qed
  with conf SolUpdate show ?thesis by (simp add: case_prod_beta)
qed

lemma run_delays:
  assumes "delays_ok s" "\<forall>op \<in> set ops. op_clock_ok (poll_proposals_interval_sec (sol_config s)) op"
  shows "delays_ok (fst (run_ops sol_step ops s))"
  using assms
proof (induction ops arbitrary: s)
  case (Cons op ops)
  with sol_step_delays [of s op] show ?case by (simp add: case_prod_beta)
qed simp

subsection \<open>What the answers say\<close>

lemma process_account_sent:
  assumes "process_account w acc events = (events', sent, r)" "(c, Some outcome) \<in> set sent"
  shows "\<exists>event raw p round. hm_get events acc = Some event \<and> spe_status_tx event = Some c
    \<and> proposal_account w acc = Inr (Some raw) \<and> unpack_proposal w raw = Inr p \<and> proposal_is_initialized p
    \<and> round_account w acc (relay_round_address w (proposal_round_number p)) = Inr (Some round)
    \<and> outcome = check_proposal event (proposal_event p)"
  using assms by (auto simp: process_account_def answer_event_def Let_def split: sum.splits option.splits if_splits)

lemma process_accounts_sent:
  "process_accounts w accs events = (events', sent, r) \<Longrightarrow> hm_wf events \<Longrightarrow> (c, Some outcome) \<in> set sent \<Longrightarrow>
     \<exists>acc \<in> set accs. \<exists>event raw p round. hm_get events acc = Some event \<and> spe_status_tx event = Some c
       \<and> proposal_account w acc = Inr (Some raw) \<and> unpack_proposal w raw = Inr p \<and> proposal_is_initialized p
       \<and> round_account w acc (relay_round_address w (proposal_round_number p)) = Inr (Some round)
       \<and> outcome = check_proposal event (proposal_event p)"
proof (induction accs arbitrary: events events' sent r)
  case (Cons acc accs)
  obtain events1 sent1 r1 where one: "process_account w acc events = (events1, sent1, r1)" by (metis prod_cases3)
  obtain events2 sent2 r2 where two: "process_accounts w accs events1 = (events2, sent2, r2)" by (metis prod_cases3)
  have wf1: "hm_wf events1"
    using one Cons.prems(2) by (auto simp: process_account_def Let_def split: sum.splits option.splits if_splits)
  have older: "hm_get events k = Some event" if "hm_get events1 k = Some event" for k event
    using process_account_subset [OF one] that wf1 Cons.prems(2) by (auto simp: hm_wf_get_iff)
  have "(c, Some outcome) \<in> set sent1 \<or> (c, Some outcome) \<in> set sent2"
    using Cons.prems one two by (auto split: sum.splits)
  then show ?case
  proof
    assume "(c, Some outcome) \<in> set sent1"
    from process_account_sent [OF one this] show ?thesis by auto
  next
    assume "(c, Some outcome) \<in> set sent2"
    from Cons.IH [OF two wf1 this] older show ?thesis by (meson list.set_intros(2))
  qed
qed simp

lemma retained_event:
  assumes "hm_wf events" "retain_events interval time events = (kept, due, sent)"
  shows "hm_wf kept"
    and "hm_get kept acc = map_option (snd \<circ> poll_event interval time) (option_filter (alive time) (hm_get events acc))"
    and "acc \<in> set due \<longleftrightarrow> (\<exists>event. hm_get events acc = Some event \<and> alive time event \<and> spe_time event < time)"
proof -
  have keys: "map fst kept = map fst (filter (alive time \<circ> snd) events)" using assms(2) by (auto simp: retain_events_eq)
  then show "hm_wf kept" using assms(1) by (simp add: hm_wf_def distinct_map_filter_fst)
  show "hm_get kept acc = map_option (snd \<circ> poll_event interval time) (option_filter (alive time) (hm_get events acc))"
    using assms
  proof (induction events arbitrary: kept due sent)
    case (Cons e events)
    obtain acc' event where e: "e = (acc', event)" by (cases e)
    obtain kept' due' sent' where r: "retain_events interval time events = (kept', due', sent')" by (metis prod_cases3)
    have "hm_wf events" "hm_get events acc' = None"
      using Cons.prems(1) e by (auto simp: hm_wf_def map_of_eq_None_iff)
    with Cons.IH [OF _ r] Cons.prems(2) e r show ?case
      by (auto simp: alive_def not_less split: if_splits prod.splits)
  qed simp
  have "fst (poll_event interval time event) \<longleftrightarrow> spe_time event < time" for event
    by (simp add: poll_event_def Let_def)
  then show "acc \<in> set due \<longleftrightarrow> (\<exists>event. hm_get events acc = Some event \<and> alive time event \<and> spe_time event < time)"
    using assms by (force simp: retain_events_eq hm_wf_get_iff)
qed

subsection \<open>SOL to TON: the deposit\<close>

record compiled_instruction =
  program_id_index :: u8
  ix_accounts :: bytes
  ix_data :: bytes

datatype ui_instruction =
    CompiledUi u8 bytes string \<comment> \<open>program index, accounts, base58 data\<close>
  | ParsedUi

record decoded_transaction =
  account_keys :: "pubkey list"
  instructions :: "compiled_instruction list"

record confirmed_transaction =
  ct_slot :: u64
  ct_block_time :: "64 word option"
  ct_decoded :: "decoded_transaction option" \<comment> \<open>the message's keys and instructions, of either version\<close>
  ct_inner :: "ui_instruction list list option"

fun push_inner :: "(string \<Rightarrow> bytes res) \<Rightarrow> ui_instruction list \<Rightarrow> compiled_instruction list \<Rightarrow> compiled_instruction list res" where
  "push_inner bs58_decode [] ixs = Inr ixs"
| "push_inner bs58_decode (CompiledUi i accs text # inner) ixs =
     rbind (bs58_decode text) (\<lambda>data.
       push_inner bs58_decode inner (ixs @ [\<lparr>program_id_index = i, ix_accounts = accs, ix_data = data\<rparr>]))"
| "push_inner bs58_decode (ParsedUi # inner) ixs = push_inner bs58_decode inner ixs"

definition u128_from_le_bytes :: "bytes \<Rightarrow> u128" where
  "u128_from_le_bytes bs = foldr (\<lambda>b acc. ucast b OR push_bit 8 acc) bs 0"

text \<open>
  The search for the deposit. Indexing the keys and slicing the data panic when they are too
  short.
\<close>

fun find_deposit :: "pubkey list \<Rightarrow> pubkey \<Rightarrow> u128 \<Rightarrow> compiled_instruction list \<Rightarrow> verification_status res" where
  "find_deposit keys program seed [] = Inr (NotExists ''Deposit seed not found'')"
| "find_deposit keys program seed (ix # ixs) =
     (let index = unat (program_id_index ix)
      in if length keys \<le> index then Inl (Panic ''index out of bounds'')
         else if keys ! index = program
         then (if length (ix_data ix) < 17 then Inl (Panic ''range end index out of range'')
               else if u128_from_le_bytes (take 16 (drop 1 (ix_data ix))) = seed then Inr Exists
               else find_deposit keys program seed ixs)
         else find_deposit keys program seed ixs)"

definition verify_sol_ton_transaction ::
  "(bytes \<Rightarrow> confirmed_transaction res) \<Rightarrow> (string \<Rightarrow> bytes res) \<Rightarrow> sol_ton_transaction_data \<Rightarrow> verification_status res"
where
  "verify_sol_ton_transaction get_transaction bs58_decode data =
     rbind (get_transaction (std_signature data)) (\<lambda>result.
       if ct_slot result \<noteq> std_slot data \<or> ct_block_time result \<noteq> Some (std_block_time data)
       then Inr (NotExists ''Block slot or time mismatch'')
       else rbind (ok_or DecodeTransactionError (ct_decoded result)) (\<lambda>transaction.
         let inner = (case ct_inner result of Some ixs \<Rightarrow> concat ixs | None \<Rightarrow> [])
         in rbind (push_inner bs58_decode inner (instructions transaction)) (\<lambda>ixs.
              find_deposit (account_keys transaction) (std_program_id data) (std_seed data) ixs)))"

text \<open>
  The poll of the deposit account: in each round the health check, the account, and the seconds
  since the start; \<open>None\<close> means the rounds did not suffice.
\<close>

fun poll_deposit :: "u64 \<Rightarrow> (unit res \<times> bytes option res \<times> u64) list \<Rightarrow> bytes option res option" where
  "poll_deposit timeout [] = None"
| "poll_deposit timeout ((health, account_read, elapsed) # rounds) =
     (case rbind health (\<lambda>_. account_read) of
        Inl e \<Rightarrow> Some (Inl e)
      | Inr (Some raw) \<Rightarrow> Some (Inr (Some raw))
      | Inr None \<Rightarrow> if elapsed > timeout then Some (Inr None) else poll_deposit timeout rounds)"

definition verify_sol_ton_account ::
  "(bytes \<Rightarrow> bytes res) \<Rightarrow> sol_config \<Rightarrow> (pubkey \<Rightarrow> (unit res \<times> bytes option res \<times> u64) list) \<Rightarrow>
     (pubkey \<Rightarrow> u128 \<Rightarrow> pubkey) \<Rightarrow> sol_ton_account_data \<Rightarrow> verification_status res option"
where
  "verify_sol_ton_account unpack_deposit conf rounds_of deposit_address data =
     (let account_pubkey = deposit_address (sad_program_id data) (sad_seed data)
      in case poll_deposit (poll_deposits_timeout_sec conf) (rounds_of account_pubkey) of
           None \<Rightarrow> None
         | Some (Inl e) \<Rightarrow> Some (Inl e)
         | Some (Inr None) \<Rightarrow> Some (Inr (NotExists ''Solana account does not exist''))
         | Some (Inr (Some raw)) \<Rightarrow>
             Some (rbind (unpack_deposit raw) (\<lambda>deposit_event.
               Inr (if sad_event_data data \<noteq> deposit_event then NotExists ''Event data mismatch'' else Exists))))"

definition verify_sol_ton_event ::
  "(bytes \<Rightarrow> confirmed_transaction res) \<Rightarrow> (string \<Rightarrow> bytes res) \<Rightarrow> (bytes \<Rightarrow> bytes res) \<Rightarrow>
     (pubkey \<Rightarrow> (unit res \<times> bytes option res \<times> u64) list) \<Rightarrow> (pubkey \<Rightarrow> u128 \<Rightarrow> pubkey) \<Rightarrow>
     sol_ton_transaction_data \<Rightarrow> sol_ton_account_data \<Rightarrow> sol_subscriber \<Rightarrow>
     sol_subscriber \<times> verification_status res option"
where
  "verify_sol_ton_event get_transaction bs58_decode unpack_deposit rounds_of deposit_address transaction_data account_data s =
     (case get_rpc_client s of
        (s, Inl e) \<Rightarrow> (s, Some (Inl e))
      | (s, Inr client) \<Rightarrow>
          (s, case verify_sol_ton_transaction get_transaction bs58_decode transaction_data of
                Inl e \<Rightarrow> Some (Inl e)
              | Inr Exists \<Rightarrow> verify_sol_ton_account unpack_deposit (sol_config s) rounds_of deposit_address account_data
              | Inr (NotExists reason) \<Rightarrow> Some (Inr (NotExists reason))))"

subsection \<open>Sending and votes\<close>

text \<open>One attempt: a fresh blockhash, the signature, the transaction.\<close>

definition send_and_confirm_message ::
  "(client_error + uint256) \<Rightarrow> (sol_message \<Rightarrow> uint256 \<Rightarrow> bytes res) \<Rightarrow> (bytes \<Rightarrow> client_error + bytes) \<Rightarrow>
     sol_message \<Rightarrow> client_error + bytes"
where
  "send_and_confirm_message blockhash sign send m =
     (case blockhash of
        Inl e \<Rightarrow> Inl e
      | Inr h \<Rightarrow> (case sign m h of Inl e \<Rightarrow> Inl OtherClientError | Inr transaction \<Rightarrow> send transaction))"

record send_attempt =
  attempt_blockhash :: "client_error + uint256"
  attempt_send :: "bytes \<Rightarrow> client_error + bytes"

definition send_message ::
  "(sol_message \<Rightarrow> uint256 \<Rightarrow> bytes res) \<Rightarrow> nat \<Rightarrow> send_attempt list \<Rightarrow> sol_message \<Rightarrow> (client_error + bytes) option"
where
  "send_message sign n attempts m =
     retry sol_rpc_delay n (map (\<lambda>a. send_and_confirm_message (attempt_blockhash a) sign (attempt_send a) m) attempts)"

text \<open>The poll of a signature: not known yet, or the transaction's result.\<close>

fun get_signature_status :: "(client_error + (client_error + unit) option) list \<Rightarrow> (client_error + unit) option" where
  "get_signature_status [] = None"
| "get_signature_status (Inl e # polls) = Some (Inl e)"
| "get_signature_status (Inr (Some res) # polls) = Some res"
| "get_signature_status (Inr None # polls) = get_signature_status polls"

fun position :: "pubkey \<Rightarrow> pubkey list \<Rightarrow> nat option" where
  "position k [] = None"
| "position k (k' # ks) = (if k' = k then Some 0 else map_option Suc (position k ks))"

definition is_already_voted ::
  "(u32 \<Rightarrow> pubkey) \<Rightarrow> (bytes \<Rightarrow> pubkey list res) \<Rightarrow> (bytes \<Rightarrow> proposal res) \<Rightarrow>
     (pubkey \<Rightarrow> bytes option res) \<Rightarrow> u32 \<Rightarrow> pubkey \<Rightarrow> pubkey \<Rightarrow> bool res"
where
  "is_already_voted round_address unpack_round unpack get_account round_num proposal_pubkey voter_pubkey =
     rbind (get_account (round_address round_num)) (\<lambda>relay_round_account.
     rbind (case relay_round_account of
              Some raw \<Rightarrow> unpack_round raw
            | None \<Rightarrow> Inl InvalidRoundAccount) (\<lambda>relays.
     rbind (get_account proposal_pubkey) (\<lambda>proposal_account.
       case proposal_account of
         None \<Rightarrow> Inr True
       | Some raw \<Rightarrow>
           rbind (unpack raw) (\<lambda>proposal_data.
           rbind (ok_or (InvalidRound round_num) (position voter_pubkey relays)) (\<lambda>index.
             if index < length (proposal_signers proposal_data)
             then Inr (proposal_signers proposal_data ! index \<noteq> None)
             else Inl (InvalidVotePosition index))))))"

subsection \<open>Finalised proposals are answered\<close>

definition finalised :: "sol_world \<Rightarrow> pubkey \<Rightarrow> proposal \<Rightarrow> bool" where
  "finalised w acc p \<longleftrightarrow> (\<exists>raw round. proposal_account w acc = Inr (Some raw) \<and> unpack_proposal w raw = Inr p
     \<and> proposal_is_initialized p \<and> round_account w acc (relay_round_address w (proposal_round_number p)) = Inr (Some round))"

lemma process_account_get:
  assumes "process_account w acc events = (events', sent, r)"
  shows "k \<noteq> acc \<Longrightarrow> hm_get events' k = hm_get events k" and "hm_get events k = None \<Longrightarrow> hm_get events' k = None"
  using assms by (auto simp: process_account_def Let_def hm_simps split: sum.splits option.splits if_splits)

lemma process_accounts_absent:
  "process_accounts w accs events = (events', sent, r) \<Longrightarrow> hm_get events k = None \<Longrightarrow> hm_get events' k = None"
proof (induction accs arbitrary: events events' sent r)
  case (Cons acc accs)
  obtain events1 sent1 r1 where one: "process_account w acc events = (events1, sent1, r1)" by (metis prod_cases3)
  obtain events2 sent2 r2 where two: "process_accounts w accs events1 = (events2, sent2, r2)" by (metis prod_cases3)
  from Cons.IH [OF two process_account_get(2) [OF one Cons.prems(2)]] process_account_get(2) [OF one Cons.prems(2)]
    Cons.prems(1) one two
  show ?case by (auto split: sum.splits)
qed simp

lemma process_accounts_finalised:
  assumes "finalised w acc p" "spe_status_tx event = Some c"
  shows "process_accounts w accs events = (events', sent, Inr u) \<Longrightarrow> acc \<in> set accs \<Longrightarrow> hm_get events acc = Some event \<Longrightarrow>
     hm_get events' acc = None \<and> (c, Some (check_proposal event (proposal_event p))) \<in> set sent"
proof (induction accs arbitrary: events events' sent)
  case (Cons acc' accs)
  obtain events1 sent1 r1 where one: "process_account w acc' events = (events1, sent1, r1)" by (metis prod_cases3)
  obtain events2 sent2 r2 where two: "process_accounts w accs events1 = (events2, sent2, r2)" by (metis prod_cases3)
  have r: "r2 = Inr u" "events' = events2" "sent = sent1 @ sent2"
    using Cons.prems(1) one two by (auto split: sum.splits)
  show ?case
  proof (cases "acc' = acc")
    case True
    with one Cons.prems(3) assms have "events1 = hm_remove acc events" "sent1 = [(c, Some (check_proposal event (proposal_event p)))]"
      by (auto simp: process_account_def finalised_def Let_def answer_event_def)
    with process_accounts_absent [OF two, of acc] r show ?thesis by (simp add: hm_simps)
  next
    case False
    with Cons.prems(3) process_account_get(1) [OF one, of acc] have "hm_get events1 acc = Some event" by simp
    with Cons.IH [OF two [unfolded r]] Cons.prems(2) False r show ?thesis by auto
  qed
qed simp

lemma poll_deposit_found:
  "poll_deposit limit rounds = Some (Inr (Some raw)) \<Longrightarrow> \<exists>elapsed. (Inr (), Inr (Some raw), elapsed) \<in> set rounds"
  by (induction limit rounds rule: poll_deposit.induct)
    (auto simp: rbind_def split: sum.splits option.splits if_splits)

lemma poll_deposit_returns: "\<exists>(h, a, elapsed) \<in> set rounds. limit < elapsed \<Longrightarrow> poll_deposit limit rounds \<noteq> None"
proof (induction rounds)
  case (Cons r rounds)
  obtain h a elapsed where r: "r = (h, a, elapsed)" by (metis prod_cases3)
  with Cons show ?case by (cases "limit < elapsed") (auto split: sum.split option.split)
qed simp

lemma find_deposit_found:
  "find_deposit keys program seed ixs = Inr Exists \<Longrightarrow>
     \<exists>ix \<in> set ixs. unat (program_id_index ix) < length keys \<and> keys ! unat (program_id_index ix) = program
       \<and> 17 \<le> length (ix_data ix) \<and> u128_from_le_bytes (take 16 (drop 1 (ix_data ix))) = seed"
  by (induction keys program seed ixs rule: find_deposit.induct)
    (auto simp: Let_def not_le not_less split: if_splits)

lemma position_Some: "position k ks = Some i \<longleftrightarrow> i < length ks \<and> ks ! i = k \<and> (\<forall>j < i. ks ! j \<noteq> k)"
proof (induction ks arbitrary: i)
  case (Cons k' ks)
  then show ?case by (cases i) (auto simp: less_Suc_eq_0_disj)
qed simp

lemma sol_ton_proofs:
  assumes "snd (verify_sol_ton_event get_transaction bs58 unpack_deposit rounds_of deposit_address td ad s) = Some (Inr Exists)"
  shows "\<exists>ct dt ixs. get_transaction (std_signature td) = Inr ct \<and> ct_slot ct = std_slot td
      \<and> ct_block_time ct = Some (std_block_time td) \<and> ct_decoded ct = Some dt
      \<and> push_inner bs58 (case ct_inner ct of Some inner \<Rightarrow> concat inner | None \<Rightarrow> []) (instructions dt) = Inr ixs
      \<and> (\<exists>ix \<in> set ixs. unat (program_id_index ix) < length (account_keys dt)
          \<and> account_keys dt ! unat (program_id_index ix) = std_program_id td
          \<and> u128_from_le_bytes (take 16 (drop 1 (ix_data ix))) = std_seed td)
      \<and> (\<exists>raw elapsed. (Inr (), Inr (Some raw), elapsed) \<in> set (rounds_of (deposit_address (sad_program_id ad) (sad_seed ad)))
      \<and> unpack_deposit raw = Inr (sad_event_data ad))"
proof -
  have tx: "verify_sol_ton_transaction get_transaction bs58 td = Inr Exists"
    and acc: "verify_sol_ton_account unpack_deposit (sol_config (fst (get_rpc_client s))) rounds_of deposit_address ad = Some (Inr Exists)"
    using assms get_rpc_client_keeps(2) [of s]
    by (cases "get_rpc_client s"; auto simp: verify_sol_ton_event_def split: sum.splits verification_status.splits)+
  from acc have "\<exists>raw elapsed. (Inr (), Inr (Some raw), elapsed) \<in> set (rounds_of (deposit_address (sad_program_id ad) (sad_seed ad)))
      \<and> unpack_deposit raw = Inr (sad_event_data ad)"
    by (auto simp: verify_sol_ton_account_def rbind_eq_Inr_iff Let_def
        split: option.splits sum.splits if_splits dest!: poll_deposit_found)
  with tx show ?thesis
    by (auto simp: verify_sol_ton_transaction_def rbind_eq_Inr_iff ok_or_eq_Inr_iff Let_def
        split: if_splits dest!: find_deposit_found)
qed

subsection \<open>Properties\<close>

text \<open>
  C9: The subscriber's answers are grounded: a waiting task is told that its event exists only when
  the finalised proposal at its account holds exactly the event's data and the proposal's round
  exists; it is told otherwise when the data differ, or when the event is older than 14 days.
\<close>

theorem ton_sol_answer_grounded:
  assumes "sol_inv s" and "(c, Some outcome) \<in> set (fst (snd (sol_update w s)))"
    and "\<forall>ks. set (check_order w ks) = set ks"
  shows "\<exists>acc event. hm_get (sol_pending_events s) acc = Some event \<and> spe_status_tx event = Some c
    \<and> (if spe_created_at event + EXPIRED_PERIOD < utc_now_sec w
       then outcome = NotExists ''TON->SOL event is expired''
       else spe_time event < utc_now_sec w \<and> (\<exists>p. finalised w acc p
         \<and> outcome = (if proposal_event p = spe_event_data event then Exists else NotExists ''Event data mismatch'')))"
proof (cases rule: sol_update_cases [of s w])
  case (no_client e)
  with assms(2) show ?thesis by simp
next
  case (round kept due expired events sent r s')
  have wf: "hm_wf (sol_pending_events s)" using assms(1) has_senders_wf by (auto simp: sol_inv_def)
  from assms(2) round(3) consider "(c, Some outcome) \<in> set expired" | "(c, Some outcome) \<in> set sent" by auto
  then show ?thesis
  proof cases
    case 1
    with round(1) obtain acc event where "(acc, event) \<in> set (sol_pending_events s)" "\<not> alive (utc_now_sec w) event"
      "spe_status_tx event = Some c" "outcome = NotExists ''TON->SOL event is expired''"
      by (auto simp: retain_events_eq answer_event_def split: option.splits)
    with wf show ?thesis by (auto simp: hm_wf_get_iff alive_def intro!: exI [of _ acc] exI [of _ event])
  next
    case 2
    from process_accounts_sent [OF round(2) retained_event(1) [OF wf round(1)] this]
    obtain acc event p where p: "acc \<in> set due" "hm_get kept acc = Some event" "spe_status_tx event = Some c"
      "finalised w acc p" "outcome = check_proposal event (proposal_event p)"
      unfolding finalised_def assms(3) [rule_format] by blast
    from retained_event(3) [OF wf round(1), of acc] p(1) obtain event0 where
      e0: "hm_get (sol_pending_events s) acc = Some event0" "alive (utc_now_sec w) event0" "spe_time event0 < utc_now_sec w"
      by blast
    with retained_event(2) [OF wf round(1), of acc] p(2)
    have "event = snd (poll_event (poll_proposals_interval_sec (sol_config s)) (utc_now_sec w) event0)" by simp
    with p have "finalised w acc p" "spe_status_tx event0 = Some c"
      "outcome = (if proposal_event p = spe_event_data event0 then Exists else NotExists ''Event data mismatch'')"
      by (auto simp: check_proposal_def)
    moreover have "\<not> spe_created_at event0 + EXPIRED_PERIOD < utc_now_sec w" using e0(2) by (simp add: alive_def not_less)
    ultimately show ?thesis using e0 by (intro exI [of _ acc] exI [of _ event0]) metis
  qed
qed

text \<open>
  Nothing that is due is forgotten: in a round that ends without an error, every event that is
  due, not expired, and whose proposal is finalised is answered and leaves the queue.
\<close>

theorem due_proposal_answered:
  assumes "sol_inv s" and "snd (snd (sol_update w s)) = Inr ()"
    and "\<forall>ks. set (check_order w ks) = set ks"
    and "hm_get (sol_pending_events s) acc = Some event" and "finalised w acc p"
    and "utc_now_sec w \<le> spe_created_at event + EXPIRED_PERIOD" and "spe_time event < utc_now_sec w"
  shows "hm_get (sol_pending_events (fst (sol_update w s))) acc = None
    \<and> (the (spe_status_tx event), Some (check_proposal event (proposal_event p))) \<in> set (fst (snd (sol_update w s)))"
proof (cases rule: sol_update_cases [of s w])
  case (no_client e)
  with assms(2) show ?thesis by simp
next
  case (round kept due expired events sent r s')
  have wf: "hm_wf (sol_pending_events s)" using assms(1) has_senders_wf by (auto simp: sol_inv_def)
  from assms(1,4) obtain c where c: "spe_status_tx event = Some c"
    using has_senders_get unfolding sol_inv_def by metis
  have r: "r = Inr ()" using assms(2) round(3) by simp
  have alive: "alive (utc_now_sec w) event" using assms(6) by (simp add: alive_def)
  with retained_event(3) [OF wf round(1), of acc] assms(3,4,7) have due: "acc \<in> set (check_order w due)" by simp
  have kept: "hm_get kept acc = Some (snd (poll_event (poll_proposals_interval_sec (sol_config s)) (utc_now_sec w) event))"
    using retained_event(2) [OF wf round(1), of acc] assms(4) alive by simp
  from process_accounts_finalised [OF assms(5) _ round(2) [unfolded r] due kept, of c] c round(3,4) show ?thesis
    by (simp add: check_proposal_def)
qed

text \<open>
  Along every sequence of requests, rounds and subscriptions, each task that asked for a TON to
  SOL event waits or was answered (or dropped) exactly once: no answer is lost or sent twice.
\<close>

theorem sol_waiters_answered_once:
  "count (opened_ops sol_step sol_opened ops (s\<lparr>sol_pending_events := []\<rparr>)) c =
     count (sol_waiting (fst (run_ops sol_step ops (s\<lparr>sol_pending_events := []\<rparr>)))) c
     + count (mset (map fst (snd (run_ops sol_step ops (s\<lparr>sol_pending_events := []\<rparr>))))) c"
  by (rule sol_events.each_opened_waits_or_is_answered) (simp_all add: sol_inv_def sol_waiting_def)

text \<open>
  However long an event waits, its polling interval stays bounded: with a clock below the width
  of \<open>u64\<close>, the delay that doubles is \<open>300 * 2 ^ k\<close> seconds with \<open>k \<le> 4\<close>, at most 80 minutes, so
  the doubling never overflows its \<open>u32\<close>.
\<close>

theorem polling_delay_bounded:
  assumes "\<forall>op \<in> set ops. op_clock_ok (poll_proposals_interval_sec (sol_config s)) op"
    and "(acc, event) \<in> set (sol_pending_events (fst (run_ops sol_step ops (s\<lparr>sol_pending_events := []\<rparr>))))"
  shows "\<exists>k \<le> 4. unat (spe_delay event) = 300 * 2 ^ k \<and> spe_delay event \<le> 4800"
proof -
  have "delays_ok (fst (run_ops sol_step ops (s\<lparr>sol_pending_events := []\<rparr>)))"
    using assms(1) by (intro run_delays) (simp_all add: delays_ok_def)
  with assms(2) obtain k where k: "k \<le> 4" "unat (spe_delay event) = 300 * 2 ^ k"
    by (auto simp: delays_ok_def delay_ok_def)
  have "(2 :: nat) ^ k \<le> 2 ^ 4" using k(1) by (rule power_increasing) simp
  with k show ?thesis by (auto simp: word_le_nat_alt)
qed

text \<open>
  C10: A SOL to TON event is confirmed only on both pieces of evidence: the transaction with the
  event's signature is in the event's slot and time and holds an instruction of the token
  program, top-level or inner, whose data name the deposit's seed; and the deposit account of that
  program and seed holds exactly the event's data.
\<close>

theorem sol_ton_needs_both_proofs:
  assumes "snd (verify_sol_ton_event get_transaction bs58 unpack_deposit rounds_of deposit_address td ad s) = Some (Inr Exists)"
  shows "\<exists>ct dt ixs. get_transaction (std_signature td) = Inr ct \<and> ct_slot ct = std_slot td
      \<and> ct_block_time ct = Some (std_block_time td) \<and> ct_decoded ct = Some dt
      \<and> push_inner bs58 (case ct_inner ct of Some inner \<Rightarrow> concat inner | None \<Rightarrow> []) (instructions dt) = Inr ixs
      \<and> (\<exists>ix \<in> set ixs. unat (program_id_index ix) < length (account_keys dt)
          \<and> account_keys dt ! unat (program_id_index ix) = std_program_id td
          \<and> u128_from_le_bytes (take 16 (drop 1 (ix_data ix))) = std_seed td)
      \<and> (\<exists>raw elapsed. (Inr (), Inr (Some raw), elapsed) \<in> set (rounds_of (deposit_address (sad_program_id ad) (sad_seed ad)))
      \<and> unpack_deposit raw = Inr (sad_event_data ad))"
  by (rule sol_ton_proofs [OF assms])

text \<open>
  The relay votes on Solana only when its vote is missing: the answer \<open>False\<close> means that the
  round exists with the relay at some position, the proposal exists, and its vote at that position is
  none.
\<close>

theorem not_voted_means_missing_vote:
  "is_already_voted round_address unpack_round unpack get_account round_num proposal_pubkey voter = Inr False \<longleftrightarrow>
     (\<exists>raw relays praw p i. get_account (round_address round_num) = Inr (Some raw) \<and> unpack_round raw = Inr relays
        \<and> get_account proposal_pubkey = Inr (Some praw) \<and> unpack praw = Inr p
        \<and> i < length relays \<and> relays ! i = voter \<and> (\<forall>j < i. relays ! j \<noteq> voter)
        \<and> i < length (proposal_signers p) \<and> proposal_signers p ! i = None)"
proof -
  have "is_already_voted round_address unpack_round unpack get_account round_num proposal_pubkey voter = Inr False \<longleftrightarrow>
     (\<exists>raw relays praw p i. get_account (round_address round_num) = Inr (Some raw) \<and> unpack_round raw = Inr relays
        \<and> get_account proposal_pubkey = Inr (Some praw) \<and> unpack praw = Inr p
        \<and> position voter relays = Some i \<and> i < length (proposal_signers p) \<and> proposal_signers p ! i = None)"
    by (auto simp: is_already_voted_def rbind_def ok_or_def split: sum.splits option.splits if_splits)
  then show ?thesis unfolding position_Some by blast
qed

subsection \<open>Witnesses\<close>

definition demo_proposal :: proposal where
  "demo_proposal = \<lparr>proposal_round_number = 1, proposal_is_initialized = True, proposal_event = [7], proposal_signers = [None]\<rparr>"

definition demo_sol_world :: sol_world where
  "demo_sol_world = \<lparr>utc_now_sec = 1000, check_order = (\<lambda>ks. ks), proposal_account = (\<lambda>_. Inr (Some [1])),
     round_account = (\<lambda>_ _. Inr (Some [2])), unpack_proposal = (\<lambda>_. Inr demo_proposal), relay_round_address = (\<lambda>_. [3])\<rparr>"

definition demo_sol :: sol_subscriber where
  "demo_sol = \<lparr>sol_config = \<lparr>endpoints = [''a''], poll_proposals_interval_sec = 3600, poll_deposits_timeout_sec = 10, sol_retry_times = 3\<rparr>,
     rpc_clients = [''a''], programs_to_subscribe = [], sol_pending_events = [], pending_events_count = 0, round_robin_counter = 0\<rparr>"

definition demo_sol_asked :: sol_subscriber where
  "demo_sol_asked = fst (verify_ton_sol_event 4 [9] [7] 900 demo_sol)"

lemmas demo_sol_simps = demo_sol_asked_def demo_sol_def demo_sol_world_def demo_proposal_def verify_ton_sol_event_def
  Let_def INIT_INTERVAL_DELAY_SEC_def EXPIRED_PERIOD_def

lemma demo_sol_inv: "sol_inv demo_sol_asked"
  by (simp add: sol_inv_def demo_sol_simps has_senders_def hm_wf_def)

lemma demo_sol_sent: "sol_update demo_sol_world demo_sol_asked =
    (fst (sol_update demo_sol_world demo_sol_asked), [(4, Some Exists)], Inr ())"
  by (simp add: demo_sol_simps sol_update_def get_rpc_client_def poll_event_def process_account_def
      answer_event_def check_proposal_def)

theorem ton_sol_answer_grounded_witness:
  "\<exists>acc event. hm_get (sol_pending_events demo_sol_asked) acc = Some event \<and> spe_status_tx event = Some 4"
proof -
  have "(4, Some Exists) \<in> set (fst (snd (sol_update demo_sol_world demo_sol_asked)))" by (subst demo_sol_sent) simp
  from ton_sol_answer_grounded [OF demo_sol_inv this] show ?thesis by (auto simp: demo_sol_world_def)
qed

theorem due_proposal_answered_witness:
  "hm_get (sol_pending_events (fst (sol_update demo_sol_world demo_sol_asked))) [9] = None"
proof -
  have ok: "snd (snd (sol_update demo_sol_world demo_sol_asked)) = Inr ()" by (subst demo_sol_sent) simp
  have get: "hm_get (sol_pending_events demo_sol_asked) [9] = Some \<lparr>spe_event_data = [7], spe_status_tx = Some 4,
      spe_created_at = 900, spe_delay = 300, spe_time = 0\<rparr>"
    by (simp add: demo_sol_simps)
  have "finalised demo_sol_world [9] demo_proposal" by (simp add: finalised_def demo_sol_world_def demo_proposal_def)
  from due_proposal_answered [OF demo_sol_inv ok _ get this] show ?thesis
    by (simp add: demo_sol_world_def EXPIRED_PERIOD_def)
qed

theorem polling_delay_bounded_witness:
  "\<exists>k \<le> 4. unat (300 :: u32) = 300 * 2 ^ k \<and> (300 :: u32) \<le> 4800"
proof -
  have "([9], \<lparr>spe_event_data = [7], spe_status_tx = Some 4, spe_created_at = 900, spe_delay = 300, spe_time = 0\<rparr>)
      \<in> set (sol_pending_events (fst (run_ops sol_step [VerifyTonSol 4 [9] [7] 900] (demo_sol\<lparr>sol_pending_events := []\<rparr>))))"
    by (simp add: demo_sol_simps)
  from polling_delay_bounded [OF _ this] show ?thesis by simp
qed

definition demo_transaction :: decoded_transaction where
  "demo_transaction = \<lparr>account_keys = [[6]],
     instructions = [\<lparr>program_id_index = 0, ix_accounts = [], ix_data = 3 # 2 # replicate 15 0\<rparr>]\<rparr>"

definition demo_deposit :: sol_ton_transaction_data where
  "demo_deposit = \<lparr>std_program_id = [6], std_signature = [1], std_slot = 8, std_block_time = 9, std_seed = 2\<rparr>"

theorem sol_ton_needs_both_proofs_witness:
  "\<exists>ix \<in> set (instructions demo_transaction).
     u128_from_le_bytes (take 16 (drop 1 (ix_data ix))) = std_seed demo_deposit"
proof -
  let ?ct = "\<lparr>ct_slot = 8, ct_block_time = Some 9, ct_decoded = Some demo_transaction, ct_inner = None\<rparr>"
  let ?ad = "\<lparr>sad_program_id = [6], sad_seed = 2, sad_event_data = [7]\<rparr>"
  have "snd (verify_sol_ton_event (\<lambda>_. Inr ?ct) (\<lambda>_. Inr []) (\<lambda>_. Inr [7]) (\<lambda>_. [(Inr (), Inr (Some [5]), 0)])
      (\<lambda>p s. p) demo_deposit ?ad demo_sol) = Some (Inr Exists)"
    by (simp add: demo_sol_simps verify_sol_ton_event_def get_rpc_client_def verify_sol_ton_transaction_def
        verify_sol_ton_account_def u128_from_le_bytes_def numeral_eq_Suc demo_transaction_def demo_deposit_def)
  from sol_ton_needs_both_proofs [OF this] show ?thesis by auto
qed

end
