(* ===== verification/Tx_Context.thy ===== *)
theory Tx_Context
  imports Contracts
begin

section \<open>Transactions and what is read from them\<close>

text \<open>
  \<open>src/utils/tx_context.rs\<close>: the context in which a transaction of a subscribed account is read.
  The subscriber has parsed the transaction already; its outgoing messages are deserialised while
  they are iterated, so each is a result. Function ids, bodies and tokens are decoded by
  \<open>nekoton_abi\<close>: the record \<open>tx_env\<close>.
\<close>

datatype common_msg_info = IntMsgInfo | ExtInMsgInfo | ExtOutMsgInfo

record block_message =
  bm_info :: common_msg_info
  bm_body :: "cell option"

record tx_env =
  tx_abi :: abi_env
  read_function_id :: "cell \<Rightarrow> u32 res"
  function_input_id :: "abi_function \<Rightarrow> u32"
  function_output_id :: "abi_function \<Rightarrow> u32"
  event_input_id :: "abi_event \<Rightarrow> u32"
  decode_function_input :: "abi_function \<Rightarrow> cell \<Rightarrow> tokens res"
  decode_function_output :: "abi_function \<Rightarrow> cell \<Rightarrow> tokens res"
  decode_event_input :: "abi_event \<Rightarrow> cell \<Rightarrow> tokens res"
  unpack_headers :: "cell \<Rightarrow> (uint256 option \<times> cell) res" \<comment> \<open>the \<open>pubkey\<close> header and the rest\<close>
  unpack_connector_deployed :: "tokens \<Rightarrow> connector_deployed_event res"

record tx_context =
  ctx_shard_accounts :: shard_accounts
  ctx_account :: uint256
  ctx_transaction_hash :: uint256
  ctx_out_msgs :: "block_message res list"
  ctx_in_msg :: block_message

definition in_msg_internal :: "tx_context \<Rightarrow> block_message option" where
  "in_msg_internal ctx = (if bm_info (ctx_in_msg ctx) = IntMsgInfo then Some (ctx_in_msg ctx) else None)"

definition in_msg_external :: "tx_context \<Rightarrow> block_message option" where
  "in_msg_external ctx = (if bm_info (ctx_in_msg ctx) = ExtInMsgInfo then Some (ctx_in_msg ctx) else None)"

text \<open>
  \<open>iterate_events\<close> as the list of the calls of its callback: the id and body of every external
  outgoing message, up to the first message that cannot be deserialised.
\<close>

fun external_bodies :: "(cell \<Rightarrow> u32 res) \<Rightarrow> block_message res list \<Rightarrow> (u32 \<times> cell) list" where
  "external_bodies read_id [] = []"
| "external_bodies read_id (Inl e # msgs) = []"
| "external_bodies read_id (Inr m # msgs) =
     (if bm_info m \<noteq> ExtOutMsgInfo then external_bodies read_id msgs
      else (case bm_body m of
              None \<Rightarrow> external_bodies read_id msgs
            | Some body \<Rightarrow>
                (case read_id body of
                   Inr i \<Rightarrow> (i, body) # external_bodies read_id msgs
                 | Inl e \<Rightarrow> external_bodies read_id msgs)))"

definition iterate_events :: "tx_env \<Rightarrow> tx_context \<Rightarrow> (u32 \<times> cell) list" where
  "iterate_events env ctx = external_bodies (read_function_id env) (ctx_out_msgs ctx)"

text \<open>
  \<open>find_function_output\<close>: the first external outgoing message with the function's output id whose
  tokens decode. Unlike above, an unreadable function id ends the search.
\<close>

fun search_output :: "(cell \<Rightarrow> u32 res) \<Rightarrow> u32 \<Rightarrow> (cell \<Rightarrow> tokens res) \<Rightarrow> block_message res list \<Rightarrow> tokens option" where
  "search_output read_id output_id decode [] = None"
| "search_output read_id output_id decode (Inl e # msgs) = None"
| "search_output read_id output_id decode (Inr m # msgs) =
     (if bm_info m \<noteq> ExtOutMsgInfo then search_output read_id output_id decode msgs
      else (case bm_body m of
              None \<Rightarrow> search_output read_id output_id decode msgs
            | Some body \<Rightarrow>
                (case read_id body of
                   Inl e \<Rightarrow> None
                 | Inr i \<Rightarrow>
                     if i \<noteq> output_id then search_output read_id output_id decode msgs
                     else (case decode body of
                             Inr ts \<Rightarrow> Some ts
                           | Inl e \<Rightarrow> search_output read_id output_id decode msgs))))"

definition find_function_output :: "tx_env \<Rightarrow> tx_context \<Rightarrow> abi_function \<Rightarrow> tokens option" where
  "find_function_output env ctx f =
     search_output (read_function_id env) (function_output_id env f) (decode_function_output env f) (ctx_out_msgs ctx)"

definition get_account_state :: "tx_context \<Rightarrow> existing_contract res" where
  "get_account_state ctx =
     rbind (find_account (ctx_shard_accounts ctx) (ctx_account ctx))
       (ok_or (Context ''Account not found after transaction''))"

text \<open>Reading a pair reads both; the parts are read from the same context.\<close>

definition read_pair ::
  "(tx_context \<Rightarrow> 'a option) \<Rightarrow> (tx_context \<Rightarrow> 'b option) \<Rightarrow> tx_context \<Rightarrow> ('a \<times> 'b) option"
where
  "read_pair read_a read_b ctx =
     (case read_a ctx of None \<Rightarrow> None | Some a \<Rightarrow> (case read_b ctx of None \<Rightarrow> None | Some b \<Rightarrow> Some (a, b)))"

text \<open>The callbacks that keep the last event they parsed.\<close>

definition last_parsed :: "(u32 \<times> cell \<Rightarrow> 'e option) \<Rightarrow> (u32 \<times> cell) list \<Rightarrow> 'e option" where
  "last_parsed parse calls =
     foldl (\<lambda>found call. case parse call of Some event \<Rightarrow> Some event | None \<Rightarrow> found) None calls"

definition option_of :: "'a res \<Rightarrow> 'a option" where
  "option_of r = (case r of Inl e \<Rightarrow> None | Inr x \<Rightarrow> Some x)"

lemma option_of_simps [simp]: "option_of (Inl e) = None" "option_of (Inr x) = Some x"
  by (simp_all add: option_of_def)

lemma option_of_eq_Some [simp]: "option_of r = Some x \<longleftrightarrow> r = Inr x"
  by (cases r) simp_all

lemma read_pair_Some [simp]: "read_pair f g ctx = Some (a, b) \<longleftrightarrow> f ctx = Some a \<and> g ctx = Some b"
  by (auto simp: read_pair_def split: option.splits)

lemma last_parsed_snoc [simp]:
  "last_parsed parse (calls @ [call]) = (case parse call of Some e \<Rightarrow> Some e | None \<Rightarrow> last_parsed parse calls)"
  by (simp add: last_parsed_def split: option.split)

lemma last_parsed_Nil [simp]: "last_parsed parse [] = None"
  by (simp add: last_parsed_def)

lemma last_parsed_in: "last_parsed parse calls = Some e \<Longrightarrow> \<exists>call \<in> set calls. parse call = Some e"
  by (induction calls rule: rev_induct) (auto split: option.splits)

lemma external_bodies_in:
  "(i, body) \<in> set (external_bodies read_id msgs) \<Longrightarrow>
     \<exists>m. Inr m \<in> set msgs \<and> bm_info m = ExtOutMsgInfo \<and> bm_body m = Some body \<and> read_id body = Inr i"
proof (induction msgs)
  case (Cons r msgs)
  show ?case
  proof (cases r)
    case (Inr m)
    have "bm_info m = ExtOutMsgInfo \<and> bm_body m = Some body \<and> read_id body = Inr i
        \<or> (i, body) \<in> set (external_bodies read_id msgs)"
      using Cons.prems Inr by (auto split: if_splits option.splits sum.splits)
    with Cons.IH Inr show ?thesis by auto
  qed (use Cons.prems in simp)
qed simp

lemma search_output_found:
  "search_output read_id output_id decode msgs = Some ts \<Longrightarrow>
     \<exists>m body. Inr m \<in> set msgs \<and> bm_info m = ExtOutMsgInfo \<and> bm_body m = Some body
       \<and> read_id body = Inr output_id \<and> decode body = Inr ts"
proof (induction msgs)
  case (Cons r msgs)
  show ?case
  proof (cases r)
    case (Inr m)
    have "(\<exists>body. bm_info m = ExtOutMsgInfo \<and> bm_body m = Some body \<and> read_id body = Inr output_id \<and> decode body = Inr ts)
        \<or> search_output read_id output_id decode msgs = Some ts"
      using Cons.prems Inr by (auto split: if_splits option.splits sum.splits)
    with Cons.IH Inr show ?thesis by auto
  qed (use Cons.prems in simp)
qed simp

end
