(* ===== verification/Bridge_Read.thy ===== *)
theory Bridge_Read
  imports Tx_Context Bridge_Config
begin

section \<open>What the bridge reads from transactions\<close>

text \<open>
  The implementations of \<open>ReadFromTransaction\<close> in \<open>src/engine/bridge/mod.rs\<close>: a transaction of the
  bridge, of a connector, of a configuration, or of an event contract becomes one event for the
  handlers of \<open>Bridge_Config\<close> and \<open>Bridge_Events\<close>, or nothing.
\<close>

definition read_bridge_event :: "tx_env \<Rightarrow> tx_context \<Rightarrow> bridge_event option" where
  "read_bridge_event env ctx =
     last_parsed (\<lambda>(i, body).
       if i = event_input_id env bridge_contract_connector_deployed
       then (case rbind (decode_event_input env bridge_contract_connector_deployed body) (unpack_connector_deployed env) of
               Inr parsed \<Rightarrow> Some (ConnectorDeployed parsed)
             | Inl e \<Rightarrow> None)
       else None) (iterate_events env ctx)"

definition read_connector_event :: "tx_env \<Rightarrow> tx_context \<Rightarrow> connector_event option" where
  "read_connector_event env ctx =
     last_parsed (\<lambda>(i, body). if i = event_input_id env connector_contract_enabled then Some Enable else None)
       (iterate_events env ctx)"

fun event_addresses :: "tx_env \<Rightarrow> (u32 \<times> cell) list \<Rightarrow> uint256 list" where
  "event_addresses env [] = []"
| "event_addresses env ((i, body) # calls) =
     (if i = event_input_id env base_event_configuration_contract_new_event_contract
      then (case rbind (decode_event_input env base_event_configuration_contract_new_event_contract body)
                   (unpack_address (tx_abi env)) of
              Inr parsed \<Rightarrow> addr_hash parsed # event_addresses env calls
            | Inl e \<Rightarrow> event_addresses env calls)
      else event_addresses env calls)"

definition find_new_event_contract_addresses :: "tx_env \<Rightarrow> tx_context \<Rightarrow> uint256 list" where
  "find_new_event_contract_addresses env ctx = event_addresses env (iterate_events env ctx)"

subsection \<open>Configurations\<close>

definition read_ton_eth_configuration_event :: "tx_env \<Rightarrow> tx_context \<Rightarrow> ton_eth_configuration_event option" where
  "read_ton_eth_configuration_event env ctx =
     (case Option.bind (in_msg_internal ctx) bm_body of
        None \<Rightarrow> None
      | Some body \<Rightarrow>
          (case read_function_id env body of
             Inl e \<Rightarrow> None
           | Inr i \<Rightarrow>
               if i = function_input_id env ton_eth_event_configuration_contract_set_end_timestamp
               then map_option TonEthSetEndTimestamp (option_of
                      (rbind (decode_function_input env ton_eth_event_configuration_contract_set_end_timestamp body)
                        (unpack_u32 (tx_abi env))))
               else (case find_new_event_contract_addresses env ctx of
                       [] \<Rightarrow> None
                     | address # _ \<Rightarrow> Some (TonEthEventDeployed address))))"

definition read_eth_ton_configuration_event :: "tx_env \<Rightarrow> tx_context \<Rightarrow> eth_ton_configuration_event option" where
  "read_eth_ton_configuration_event env ctx =
     (case Option.bind (in_msg_internal ctx) bm_body of
        None \<Rightarrow> None
      | Some body \<Rightarrow>
          (case read_function_id env body of
             Inl e \<Rightarrow> None
           | Inr i \<Rightarrow>
               if i = function_input_id env eth_ton_event_configuration_contract_set_end_block_number
               then map_option EthTonSetEndBlockNumber (option_of
                      (rbind (decode_function_input env eth_ton_event_configuration_contract_set_end_block_number body)
                        (unpack_u32 (tx_abi env))))
               else (let events = find_new_event_contract_addresses env ctx
                     in if events = [] then None else Some (EthTonEventsDeployed events))))"

definition read_ton_sol_configuration_event :: "tx_env \<Rightarrow> tx_context \<Rightarrow> ton_sol_configuration_event option" where
  "read_ton_sol_configuration_event env ctx =
     (case Option.bind (in_msg_internal ctx) bm_body of
        None \<Rightarrow> None
      | Some body \<Rightarrow>
          (case read_function_id env body of
             Inl e \<Rightarrow> None
           | Inr i \<Rightarrow>
               if i = function_input_id env ton_sol_event_configuration_contract_set_end_timestamp
               then map_option TonSolSetEndTimestamp (option_of
                      (rbind (decode_function_input env ton_sol_event_configuration_contract_set_end_timestamp body)
                        (unpack_u32 (tx_abi env))))
               else (case find_new_event_contract_addresses env ctx of
                       [] \<Rightarrow> None
                     | address # _ \<Rightarrow> Some (TonSolEventDeployed address))))"

definition read_sol_ton_configuration_event :: "tx_env \<Rightarrow> tx_context \<Rightarrow> sol_ton_configuration_event option" where
  "read_sol_ton_configuration_event env ctx =
     (case Option.bind (in_msg_internal ctx) bm_body of
        None \<Rightarrow> None
      | Some body \<Rightarrow>
          (case read_function_id env body of
             Inl e \<Rightarrow> None
           | Inr i \<Rightarrow>
               if i = function_input_id env sol_ton_event_configuration_contract_set_end_timestamp
               then map_option SolTonSetEndTimestamp (option_of
                      (rbind (decode_function_input env sol_ton_event_configuration_contract_set_end_timestamp body)
                        (unpack_u64 (tx_abi env))))
               else (let events = find_new_event_contract_addresses env ctx
                     in if events = [] then None else Some (SolTonEventsDeployed events))))"

subsection \<open>Event contracts\<close>

definition read_event_status :: "tx_env \<Rightarrow> tx_context \<Rightarrow> event_status option" where
  "read_event_status env ctx = option_of (rbind (get_account_state ctx) (status (tx_abi env)))"

definition read_external_in_msg :: "tx_env \<Rightarrow> cell \<Rightarrow> (uint256 \<times> cell) option" where
  "read_external_in_msg env body =
     (case unpack_headers env body of Inr (Some public_key, rest) \<Rightarrow> Some (public_key, rest) | _ \<Rightarrow> None)"

definition has_rejected_event :: "tx_env \<Rightarrow> tx_context \<Rightarrow> bool" where
  "has_rejected_event env ctx =
     foldl (\<lambda>result (i, body). if i = event_input_id env base_event_contract_rejected then True else result) False
       (iterate_events env ctx)"

text \<open>
  The four directions read the incoming message alike: an external message signed by some relay
  confirms or rejects, an internal one brings the relays' keys. The constructors differ. The outer
  option is the code's early return (a message without body, without a signer's key, or with
  tokens that do not decode), the inner one the value of the match.
\<close>

definition read_in_msg ::
  "tx_env \<Rightarrow> abi_function \<Rightarrow> abi_function \<Rightarrow> (uint256 \<Rightarrow> 'e) \<Rightarrow> (uint256 \<Rightarrow> 'e) \<Rightarrow> (uint256 list \<Rightarrow> 'e) \<Rightarrow>
     block_message \<Rightarrow> 'e option option"
where
  "read_in_msg env confirm reject confirmed rejected relays msg =
     (case bm_info msg of
        ExtInMsgInfo \<Rightarrow>
          (case Option.bind (bm_body msg) (read_external_in_msg env) of
             None \<Rightarrow> None
           | Some (public_key, body) \<Rightarrow> Some
               (case read_function_id env body of
                  Inl e \<Rightarrow> None
                | Inr i \<Rightarrow> if i = function_input_id env confirm then Some (confirmed public_key)
                           else if i = function_input_id env reject then Some (rejected public_key)
                           else None))
      | IntMsgInfo \<Rightarrow>
          (case bm_body msg of
             None \<Rightarrow> None
           | Some body \<Rightarrow>
               (case read_function_id env body of
                  Inl e \<Rightarrow> Some None
                | Inr i \<Rightarrow>
                    if i = function_input_id env base_event_contract_receive_round_relays
                    then (case rbind (decode_function_input env base_event_contract_receive_round_relays body)
                                 (unpack_relay_keys (tx_abi env)) of
                            Inl e \<Rightarrow> None
                          | Inr keys \<Rightarrow> Some (Some (relays keys)))
                    else Some None))
      | ExtOutMsgInfo \<Rightarrow> Some None)"

text \<open>The two directions with a close: a contract that is (almost) out of balance is closed.\<close>

definition or_closed :: "tx_context \<Rightarrow> 'e \<Rightarrow> 'e option option \<Rightarrow> 'e option" where
  "or_closed ctx closed event =
     (case event of
        None \<Rightarrow> None
      | Some (Some e) \<Rightarrow> Some e
      | Some None \<Rightarrow>
          (case get_account_state ctx of
             Inl e \<Rightarrow> None
           | Inr contract \<Rightarrow> if balance (account contract) < MIN_EVENT_BALANCE then Some closed else None))"

definition read_eth_ton_event :: "tx_env \<Rightarrow> tx_context \<Rightarrow> eth_ton_event option" where
  "read_eth_ton_event env ctx =
     (if has_rejected_event env ctx then Some EthTonRejected
      else Option.bind (read_in_msg env eth_ton_event_contract_confirm eth_ton_event_contract_reject
             EthTonConfirm EthTonReject EthTonReceiveRoundRelays (ctx_in_msg ctx)) id)"

definition read_ton_eth_event :: "tx_env \<Rightarrow> tx_context \<Rightarrow> ton_eth_event option" where
  "read_ton_eth_event env ctx =
     (if has_rejected_event env ctx then Some TonEthRejected
      else or_closed ctx TonEthClosed
             (read_in_msg env ton_eth_event_contract_confirm ton_eth_event_contract_reject
                TonEthConfirm TonEthReject TonEthReceiveRoundRelays (ctx_in_msg ctx)))"

definition read_sol_ton_event :: "tx_env \<Rightarrow> tx_context \<Rightarrow> sol_ton_event option" where
  "read_sol_ton_event env ctx =
     (if has_rejected_event env ctx then Some SolTonRejected
      else Option.bind (read_in_msg env sol_ton_event_contract_confirm sol_ton_event_contract_reject
             SolTonConfirm SolTonReject SolTonReceiveRoundRelays (ctx_in_msg ctx)) id)"

definition read_ton_sol_event :: "tx_env \<Rightarrow> tx_context \<Rightarrow> ton_sol_event option" where
  "read_ton_sol_event env ctx =
     (if has_rejected_event env ctx then Some TonSolRejected
      else or_closed ctx TonSolClosed
             (read_in_msg env ton_sol_event_contract_confirm ton_sol_event_contract_reject
                TonSolConfirm TonSolReject TonSolReceiveRoundRelays (ctx_in_msg ctx)))"

subsection \<open>The messages of the relays\<close>

lemma has_rejected_event_iff:
  "has_rejected_event env ctx \<longleftrightarrow>
     (\<exists>body. (event_input_id env base_event_contract_rejected, body) \<in> set (iterate_events env ctx))"
proof -
  have "foldl (\<lambda>result (i, body). if i = k then True else result) b calls \<longleftrightarrow> b \<or> (\<exists>body. (k, body) \<in> set calls)"
    for k :: u32 and calls :: "(u32 \<times> cell) list" and b
    by (induction calls arbitrary: b) (auto split: if_splits)
  then show ?thesis by (simp add: has_rejected_event_def)
qed

text \<open>A message that carries the vote of the relay with the given key.\<close>

definition vote_message_of :: "tx_env \<Rightarrow> abi_function \<Rightarrow> uint256 \<Rightarrow> block_message \<Rightarrow> bool" where
  "vote_message_of env f public_key msg \<longleftrightarrow> bm_info msg = ExtInMsgInfo \<and>
     (\<exists>body rest. bm_body msg = Some body \<and> unpack_headers env body = Inr (Some public_key, rest)
        \<and> read_function_id env rest = Inr (function_input_id env f))"

text \<open>An internal message that brings the keys of the round's relays.\<close>

definition relays_message :: "tx_env \<Rightarrow> uint256 list \<Rightarrow> block_message \<Rightarrow> bool" where
  "relays_message env keys msg \<longleftrightarrow> bm_info msg = IntMsgInfo \<and>
     (\<exists>body. bm_body msg = Some body
        \<and> read_function_id env body = Inr (function_input_id env base_event_contract_receive_round_relays)
        \<and> rbind (decode_function_input env base_event_contract_receive_round_relays body)
            (unpack_relay_keys (tx_abi env)) = Inr keys)"

lemma read_external_in_msg_Some [simp]:
  "read_external_in_msg env body = Some (k, rest) \<longleftrightarrow> unpack_headers env body = Inr (Some k, rest)"
  by (auto simp: read_external_in_msg_def split: sum.splits option.splits)

lemma read_in_msg_Some:
  assumes "function_input_id env confirm \<noteq> function_input_id env reject"
  shows "read_in_msg env confirm reject confirmed rejected relays msg = Some (Some e) \<longleftrightarrow>
     (\<exists>k. vote_message_of env confirm k msg \<and> e = confirmed k)
     \<or> (\<exists>k. vote_message_of env reject k msg \<and> e = rejected k)
     \<or> (\<exists>keys. relays_message env keys msg \<and> e = relays keys)"
  using assms
  by (cases "bm_info msg")
    (auto simp: read_in_msg_def vote_message_of_def relays_message_def read_external_in_msg_def
      split: option.splits sum.splits if_splits bind_splits)

subsection \<open>From a transaction to the pending events\<close>

text \<open>
  An \<open>AccountObserver\<close> reads the event and the status of the contract and sends both to the bridge,
  which handles them; a transaction that reads as nothing is ignored.
\<close>

definition handle_eth_ton_transaction ::
  "tx_env \<Rightarrow> uint256 \<Rightarrow> tx_context \<Rightarrow> events_state \<Rightarrow> events_state \<times> bridge_effect list"
where
  "handle_eth_ton_transaction env our_public_key ctx st =
     (case read_pair (read_eth_ton_event env) (read_event_status env) ctx of
        None \<Rightarrow> (st, [])
      | Some event \<Rightarrow> process_eth_ton_event our_public_key (ctx_account ctx) event st)"

definition handle_ton_sol_transaction ::
  "tx_env \<Rightarrow> uint256 \<Rightarrow> tx_context \<Rightarrow> events_state \<Rightarrow> events_state \<times> bridge_effect list"
where
  "handle_ton_sol_transaction env our_public_key ctx st =
     (case read_pair (read_ton_sol_event env) (read_event_status env) ctx of
        None \<Rightarrow> (st, [])
      | Some event \<Rightarrow> process_ton_sol_event our_public_key (ctx_account ctx) event st)"

lemma read_eth_ton_event_Some:
  assumes "function_input_id env eth_ton_event_contract_confirm \<noteq> function_input_id env eth_ton_event_contract_reject"
  shows "read_eth_ton_event env ctx = Some e \<longleftrightarrow>
     (if has_rejected_event env ctx then e = EthTonRejected
      else (\<exists>k. vote_message_of env eth_ton_event_contract_confirm k (ctx_in_msg ctx) \<and> e = EthTonConfirm k)
         \<or> (\<exists>k. vote_message_of env eth_ton_event_contract_reject k (ctx_in_msg ctx) \<and> e = EthTonReject k)
         \<or> (\<exists>keys. relays_message env keys (ctx_in_msg ctx) \<and> e = EthTonReceiveRoundRelays keys))"
  using read_in_msg_Some [OF assms, of EthTonConfirm EthTonReject EthTonReceiveRoundRelays "ctx_in_msg ctx" e]
  by (auto simp: read_eth_ton_event_def bind_eq_Some_conv)

text \<open>A message is at most one of the three.\<close>

lemma in_msg_unique:
  "vote_message_of env f k msg \<Longrightarrow> vote_message_of env f k' msg \<Longrightarrow> k = k'"
  "vote_message_of env f k msg \<Longrightarrow> \<not> relays_message env keys msg"
  "relays_message env keys msg \<Longrightarrow> relays_message env keys' msg \<Longrightarrow> keys = keys'"
  "function_input_id env f \<noteq> function_input_id env f' \<Longrightarrow> vote_message_of env f k msg \<Longrightarrow> \<not> vote_message_of env f' k' msg"
  by (auto simp: vote_message_of_def relays_message_def)

subsection \<open>Properties\<close>

text \<open>
  C28: A transaction of a pending ETH to TON event contract removes the event exactly when the
  contract emitted \<open>Rejected\<close>, or the transaction is the relay's own vote, or brings round keys
  without the relay's, or carries any vote or keys while the contract is already confirmed or
  rejected; and it starts the relay's vote exactly when it brings keys with the relay's while the
  contract is still open.
\<close>

theorem eth_ton_transaction_decides:
  assumes ids: "function_input_id env eth_ton_event_contract_confirm \<noteq> function_input_id env eth_ton_event_contract_reject"
    and status: "read_event_status env ctx = Some s"
    and pend: "hm_get (pending st) (ctx_account ctx) = Some entry"
  shows "(hm_get (pending (fst (handle_eth_ton_transaction env key ctx st))) (ctx_account ctx) = None \<longleftrightarrow>
      has_rejected_event env ctx
      \<or> (\<exists>k. (vote_message_of env eth_ton_event_contract_confirm k (ctx_in_msg ctx)
             \<or> vote_message_of env eth_ton_event_contract_reject k (ctx_in_msg ctx))
           \<and> (k = key \<or> s = Confirmed \<or> s = Rejected))
      \<or> (\<exists>keys. relays_message env keys (ctx_in_msg ctx) \<and> (key \<notin> set keys \<or> s = Confirmed \<or> s = Rejected)))
    \<and> (snd (handle_eth_ton_transaction env key ctx st) = [SpawnUpdate EthTon (ctx_account ctx)] \<longleftrightarrow>
      \<not> has_rejected_event env ctx \<and> s \<noteq> Confirmed \<and> s \<noteq> Rejected
      \<and> (\<exists>keys. relays_message env keys (ctx_in_msg ctx) \<and> key \<in> set keys))"
proof -
  note read = read_eth_ton_event_Some [OF ids, of ctx]
  note unique = in_msg_unique [of env]
  have handled: "handle_eth_ton_transaction env key ctx st = process_eth_ton_event key (ctx_account ctx) (e, s) st"
    if "read_eth_ton_event env ctx = Some e" for e
    using that status by (simp add: handle_eth_ton_transaction_def read_pair_def)
  note result = handled eth_ton.handle_entry eth_ton.handle_effects decide_eth_ton_def pend
  consider (rejected) "has_rejected_event env ctx"
    | (confirm) k where "\<not> has_rejected_event env ctx" "vote_message_of env eth_ton_event_contract_confirm k (ctx_in_msg ctx)"
    | (reject) k where "\<not> has_rejected_event env ctx" "vote_message_of env eth_ton_event_contract_reject k (ctx_in_msg ctx)"
    | (relays) keys where "\<not> has_rejected_event env ctx" "relays_message env keys (ctx_in_msg ctx)"
    | (other) "\<not> has_rejected_event env ctx" "read_eth_ton_event env ctx = None"
  proof (cases "read_eth_ton_event env ctx")
    case (Some e)
    with read [of e] that(1-4) show thesis by (auto split: if_splits)
  qed (use that(1,5) in blast)
  then show ?thesis
  proof cases
    case rejected
    with read [of EthTonRejected] show ?thesis by (simp add: result)
  next
    case (confirm k)
    with read [of "EthTonConfirm k"] unique(1,2) unique(4) [OF ids] show ?thesis
      by (simp add: result) metis
  next
    case (reject k)
    with read [of "EthTonReject k"] unique(1,2) unique(4) [OF ids] show ?thesis
      by (simp add: result) metis
  next
    case (relays keys)
    with read [of "EthTonReceiveRoundRelays keys"] in_msg_unique(2,3) [of env] show ?thesis
      by (simp add: result) metis
  next
    case other
    then have "handle_eth_ton_transaction env key ctx st = (st, [])"
      by (simp add: handle_eth_ton_transaction_def read_pair_def)
    moreover have none: "read_eth_ton_event env ctx \<noteq> Some e" for e unfolding other(2) by simp
    have "\<not> vote_message_of env eth_ton_event_contract_confirm k (ctx_in_msg ctx)"
      "\<not> vote_message_of env eth_ton_event_contract_reject k (ctx_in_msg ctx)"
      "\<not> relays_message env keys (ctx_in_msg ctx)" for k keys
      using none [unfolded read] other(1) by auto
    ultimately show ?thesis using other pend by simp
  qed
qed

text \<open>
  A contract counts as closed only when it has run out of balance, and a TON to SOL event that is
  confirmed stays pending until then, unless the relay itself votes on it, it is rejected, or
  relay keys without ours arrive: the relay may still have to vote on Solana.
\<close>

theorem confirmed_ton_sol_waits_for_close:
  assumes ids: "function_input_id env ton_sol_event_contract_confirm \<noteq> function_input_id env ton_sol_event_contract_reject"
    and status: "read_event_status env ctx = Some Confirmed"
    and pend: "hm_get (pending st) (ctx_account ctx) = Some entry"
    and gone: "hm_get (pending (fst (handle_ton_sol_transaction env key ctx st))) (ctx_account ctx) = None"
  shows "has_rejected_event env ctx
    \<or> vote_message_of env ton_sol_event_contract_confirm key (ctx_in_msg ctx)
    \<or> vote_message_of env ton_sol_event_contract_reject key (ctx_in_msg ctx)
    \<or> (\<exists>keys. relays_message env keys (ctx_in_msg ctx) \<and> key \<notin> set keys)
    \<or> (\<exists>contract. get_account_state ctx = Inr contract \<and> balance (account contract) < MIN_EVENT_BALANCE)"
proof (cases "read_ton_sol_event env ctx")
  case None
  with gone pend show ?thesis by (simp add: handle_ton_sol_transaction_def read_pair_def)
next
  case (Some e)
  then have handled: "handle_ton_sol_transaction env key ctx st = process_ton_sol_event key (ctx_account ctx) (e, Confirmed) st"
    using status by (simp add: handle_ton_sol_transaction_def read_pair_def)
  have drop: "decide_ton_sol key (e, Confirmed) = Drop"
    using gone pend by (auto simp: handled ton_sol.handle_entry split: if_splits)
  consider "has_rejected_event env ctx"
    | "e = TonSolClosed" "\<exists>contract. get_account_state ctx = Inr contract \<and> balance (account contract) < MIN_EVENT_BALANCE"
    | "read_in_msg env ton_sol_event_contract_confirm ton_sol_event_contract_reject TonSolConfirm TonSolReject
         TonSolReceiveRoundRelays (ctx_in_msg ctx) = Some (Some e)"
    using Some by (auto simp: read_ton_sol_event_def or_closed_def split: if_splits option.splits sum.splits)
  then show ?thesis
  proof cases
    case 3
    with read_in_msg_Some [OF ids, of TonSolConfirm TonSolReject TonSolReceiveRoundRelays "ctx_in_msg ctx" e] drop
    show ?thesis by (auto simp: decide_ton_sol_def split: if_splits)
  qed auto
qed

subsection \<open>Witnesses\<close>

text \<open>A transaction with the external vote of the relay with key \<open>[1]\<close>.\<close>

definition demo_tx_env :: tx_env where
  "demo_tx_env = \<lparr>tx_abi = demo_abi\<lparr>vm_run_local := (\<lambda>_ _ _. Inr \<lparr>tokens = Some [], result_code = 0\<rparr>),
       unpack_status := (\<lambda>_. Inr Confirmed)\<rparr>,
     read_function_id = (\<lambda>_. Inr 5), function_input_id = (\<lambda>f. if fn_name f = ''confirm'' then 5 else 6),
     function_output_id = (\<lambda>_. 7), event_input_id = (\<lambda>_. 8), decode_function_input = (\<lambda>_ _. Inr []),
     decode_function_output = (\<lambda>_ _. Inr []), decode_event_input = (\<lambda>_ _. Inr []),
     unpack_headers = (\<lambda>b. Inr (Some [1], b)),
     unpack_connector_deployed = (\<lambda>_. Inr \<lparr>deployed_id = 0, connector = [], cde_event_configuration = []\<rparr>)\<rparr>"

definition demo_contract_account :: shard_account where
  "demo_contract_account = \<lparr>read_account = Inr (Account \<lparr>balance = 5, acc_state = AccountActive None\<rparr>),
     last_trans_lt = 0, last_trans_hash = []\<rparr>"

definition demo_vote_context :: tx_context where
  "demo_vote_context = \<lparr>ctx_shard_accounts = (\<lambda>_. Inr (Some demo_contract_account)), ctx_account = [9],
     ctx_transaction_hash = [], ctx_out_msgs = [], ctx_in_msg = \<lparr>bm_info = ExtInMsgInfo, bm_body = Some []\<rparr>\<rparr>"

definition demo_read_pending :: events_state where
  "demo_read_pending = \<lparr>pending = [([9], \<lparr>processing_started = True\<rparr>)], count = 1\<rparr>"

lemmas demo_read_simps = demo_tx_env_def demo_abi_def demo_vote_context_def demo_contract_account_def demo_read_pending_def
  read_event_status_def get_account_state_def find_account_def from_shard_account_opt_def from_shard_account_def
  status_def call_local_def run_local_def eth_ton_event_contract_confirm_def eth_ton_event_contract_reject_def
  ton_sol_event_contract_confirm_def ton_sol_event_contract_reject_def

theorem eth_ton_transaction_decides_witness:
  "hm_get (pending (fst (handle_eth_ton_transaction demo_tx_env [1] demo_vote_context demo_read_pending))) [9] = None"
proof -
  have "vote_message_of demo_tx_env eth_ton_event_contract_confirm [1] (ctx_in_msg demo_vote_context)"
    by (simp add: vote_message_of_def demo_read_simps)
  with eth_ton_transaction_decides [of demo_tx_env demo_vote_context Confirmed demo_read_pending "\<lparr>processing_started = True\<rparr>" "[1]"]
  show ?thesis by (auto simp: demo_read_simps)
qed

theorem confirmed_ton_sol_waits_for_close_witness:
  "vote_message_of demo_tx_env ton_sol_event_contract_confirm [1] (ctx_in_msg demo_vote_context)
   \<or> (\<exists>contract. get_account_state demo_vote_context = Inr contract \<and> balance (account contract) < MIN_EVENT_BALANCE)"
proof -
  let ?env = demo_tx_env
  have "hm_get (pending (fst (handle_ton_sol_transaction ?env [1] demo_vote_context demo_read_pending))) [9] = None"
    by (simp add: handle_ton_sol_transaction_def read_pair_def read_ton_sol_event_def has_rejected_event_def iterate_events_def
        read_in_msg_def read_external_in_msg_def or_closed_def process_ton_sol_event_def demo_read_simps)
  moreover have "\<not> has_rejected_event ?env demo_vote_context" "\<not> relays_message ?env keys (ctx_in_msg demo_vote_context)"
    "\<not> vote_message_of ?env ton_sol_event_contract_reject k (ctx_in_msg demo_vote_context)" for keys k
    by (simp_all add: has_rejected_event_def iterate_events_def relays_message_def vote_message_of_def demo_read_simps)
  ultimately show ?thesis
    using confirmed_ton_sol_waits_for_close [of ?env demo_vote_context demo_read_pending "\<lparr>processing_started = True\<rparr>" "[1]"]
    by (auto simp: demo_read_simps)
qed

end
