(* ===== verification/Ton_Subscriber.thy ===== *)
theory Ton_Subscriber
  imports Pending_Messages Tx_Context Runtime_Storage Code_Hash_Index
begin

section \<open>The TON subscriber\<close>

text \<open>
  \<open>src/engine/ton_subscriber/mod.rs\<close>. The node calls \<open>process_block\<close> for every block: a masterchain
  block answers the tasks that wait for shards, a shard block gives the new states of subscribed
  accounts to the tasks that wait for them, hands the account's transactions to the
  observers, and reports delivered and expired messages; both storages are updated after
  that. Blocks, states and cells are deserialised by \<open>ton_block\<close>: every read is a result. A \<open>tokio\<close>
  watch channel is its value, a version that each send increments, and the version each
  receiver has seen; a cloned receiver starts with the version of the original.
\<close>

subsection \<open>The signature id\<close>

definition WITH_SIGNATURE_ID :: u64 where
  "WITH_SIGNATURE_ID = push_bit 32 1"

definition CAP_WITH_SIGNATURE_ID :: u64 where
  "CAP_WITH_SIGNATURE_ID = 0x4000000"

definition signature_id_load :: "u64 \<Rightarrow> i32 option" where
  "signature_id_load i = (if i AND WITH_SIGNATURE_ID \<noteq> 0 then Some (ucast i) else None)"

definition signature_id_store :: "u64 \<Rightarrow> i32 \<Rightarrow> u64" where
  "signature_id_store capabilities global_id =
     (if capabilities AND CAP_WITH_SIGNATURE_ID \<noteq> 0 then WITH_SIGNATURE_ID OR ucast global_id else 0)"

subsection \<open>State subscriptions\<close>

record state_subscription =
  watch_value :: "shard_account option"
  watch_version :: nat
  own_version :: nat \<comment> \<open>seen by \<open>state_rx\<close>, the receiver the subscription keeps\<close>
  receivers :: "(nat, nat) hashmap" \<comment> \<open>the clones held by waiting tasks: the version each has seen\<close>
  transaction_subscriptions :: "nat list" \<comment> \<open>weak references to observers\<close>

datatype state_subscription_status = Alive | PartlyAlive | Stopped

definition state_subscription_new :: "nat list \<Rightarrow> state_subscription" where
  "state_subscription_new observers = \<lparr>watch_value = None, watch_version = 0, own_version = 0, receivers = [],
     transaction_subscriptions = observers\<rparr>"

definition receiver_count :: "state_subscription \<Rightarrow> nat" where
  "receiver_count sub = Suc (length (receivers sub))"

definition update_status ::
  "(nat \<Rightarrow> bool) \<Rightarrow> state_subscription \<Rightarrow> state_subscription \<times> state_subscription_status"
where
  "update_status observer_alive sub =
     (let sub = sub\<lparr>transaction_subscriptions := filter observer_alive (transaction_subscriptions sub)\<rparr>
      in (sub, if 1 < receiver_count sub then Alive
               else if transaction_subscriptions sub \<noteq> [] then PartlyAlive else Stopped))"

definition send_state :: "shard_account option \<Rightarrow> state_subscription \<Rightarrow> state_subscription option" where
  "send_state v sub =
     (if receiver_count sub = 0 then None
      else Some (sub\<lparr>watch_value := v, watch_version := Suc (watch_version sub)\<rparr>))"

fun add_transactions_subscription ::
  "uint256 list \<Rightarrow> nat \<Rightarrow> (uint256, state_subscription) hashmap \<Rightarrow> (uint256, state_subscription) hashmap"
where
  "add_transactions_subscription [] observer subs = subs"
| "add_transactions_subscription (acc # accs) observer subs =
     add_transactions_subscription accs observer
       (case hm_get subs acc of
          None \<Rightarrow> hm_insert acc (state_subscription_new [observer]) subs
        | Some sub \<Rightarrow>
            hm_insert acc (sub\<lparr>transaction_subscriptions := transaction_subscriptions sub @ [observer]\<rparr>) subs)"

text \<open>The receiver of a task that waits for the account: a clone of the subscription's own.\<close>

definition state_receiver ::
  "nat \<Rightarrow> uint256 \<Rightarrow> (uint256, state_subscription) hashmap \<Rightarrow> (uint256, state_subscription) hashmap"
where
  "state_receiver rx acc subs =
     (let sub = (case hm_get subs acc of None \<Rightarrow> state_subscription_new [] | Some sub \<Rightarrow> sub)
      in hm_insert acc (sub\<lparr>receivers := hm_insert rx (own_version sub) (receivers sub)\<rparr>) subs)"

text \<open>
  One poll of \<open>changed\<close> and \<open>borrow_and_update\<close>: nothing yet (\<open>None\<close>), the sender is gone, or the value.
\<close>

definition poll_state ::
  "nat \<Rightarrow> uint256 \<Rightarrow> (uint256, state_subscription) hashmap \<Rightarrow>
     (uint256, state_subscription) hashmap \<times> shard_account option res option"
where
  "poll_state rx acc subs =
     (case hm_get subs acc of
        None \<Rightarrow> (subs, Some (Inl ChannelClosed))
      | Some sub \<Rightarrow>
          (case hm_get (receivers sub) rx of
             None \<Rightarrow> (subs, Some (Inl ChannelClosed))
           | Some seen \<Rightarrow>
               if seen = watch_version sub then (subs, None)
               else (hm_insert acc (sub\<lparr>receivers := hm_insert rx (watch_version sub) (receivers sub)\<rparr>) subs,
                     Some (Inr (watch_value sub)))))"

definition drop_receiver ::
  "nat \<Rightarrow> uint256 \<Rightarrow> (uint256, state_subscription) hashmap \<Rightarrow> (uint256, state_subscription) hashmap"
where
  "drop_receiver rx acc subs =
     (case hm_get subs acc of
        None \<Rightarrow> subs
      | Some sub \<Rightarrow> hm_insert acc (sub\<lparr>receivers := hm_remove rx (receivers sub)\<rparr>) subs)"

text \<open>
  \<open>get_contract_state\<close> and \<open>wait_contract_state\<close>, given what the polls of their receiver return (until
  then they wait: \<open>None\<close>). The second goes on until the account is active.
\<close>

fun get_contract_state :: "shard_account option res list \<Rightarrow> existing_contract option res option" where
  "get_contract_state [] = None"
| "get_contract_state (polled # polls) = Some (rbind polled from_shard_account_opt)"

fun wait_contract_state :: "shard_account option res list \<Rightarrow> existing_contract res option" where
  "wait_contract_state [] = None"
| "wait_contract_state (polled # polls) =
     (case polled of
        Inl e \<Rightarrow> Some (Inl e)
      | Inr None \<Rightarrow> wait_contract_state polls
      | Inr (Some shard_account) \<Rightarrow>
          (case from_shard_account shard_account of
             Inl e \<Rightarrow> Some (Inl e)
           | Inr None \<Rightarrow> wait_contract_state polls
           | Inr (Some contract) \<Rightarrow>
               (case acc_state (account contract) of
                  AccountActive _ \<Rightarrow> Some (Inr contract)
                | AccountFrozen \<Rightarrow> Some (Inl AccountIsFrozen)
                | AccountUninit \<Rightarrow> wait_contract_state polls)))"

subsection \<open>Transactions of a shard block\<close>

datatype tx_description = OrdinaryTx bool \<comment> \<open>aborted\<close> | OtherTx \<comment> \<open>another kind, or unreadable\<close>

record account_tx = block_tx +
  at_hash :: uint256
  at_description :: tx_description
  at_in_msg :: "(uint256 \<times> block_message res) option" \<comment> \<open>the hash of the message's cell, and its contents\<close>
  at_out_msgs :: "block_message res list"

definition tx_context_of :: "shard_accounts \<Rightarrow> uint256 \<Rightarrow> account_tx \<Rightarrow> block_message \<Rightarrow> tx_context" where
  "tx_context_of accounts acc t msg = \<lparr>ctx_shard_accounts = accounts, ctx_account = acc,
     ctx_transaction_hash = at_hash t, ctx_out_msgs = at_out_msgs t, ctx_in_msg = msg\<rparr>"

fun handle_transactions ::
  "shard_accounts \<Rightarrow> uint256 \<Rightarrow> nat list \<Rightarrow> account_tx res list \<Rightarrow> messages_queue \<Rightarrow>
     messages_queue \<times> (nat \<times> message_status) list \<times> (nat \<times> tx_context) list"
where
  "handle_transactions accounts acc observers [] q = (q, [], [])"
| "handle_transactions accounts acc observers (Inl e # txs) q = handle_transactions accounts acc observers txs q"
| "handle_transactions accounts acc observers (Inr t # txs) q =
     (case (at_description t, at_in_msg t) of
        (OrdinaryTx False, Some (message_cell_hash, Inr msg)) \<Rightarrow>
          (case (if bm_info msg = ExtInMsgInfo then deliver_message acc message_cell_hash q else (q, [])) of
             (q, delivered) \<Rightarrow>
               (case handle_transactions accounts acc observers txs q of
                  (q, sent, calls) \<Rightarrow>
                    (q, delivered @ sent, map (\<lambda>obs. (obs, tx_context_of accounts acc t msg)) observers @ calls)))
      | _ \<Rightarrow> handle_transactions accounts acc observers txs q)"

definition subscription_handle_block ::
  "shard_accounts \<Rightarrow> (uint256 \<Rightarrow> account_tx res list option res) \<Rightarrow> (nat \<Rightarrow> bool) \<Rightarrow> uint256 \<Rightarrow> state_subscription \<Rightarrow>
     messages_queue \<Rightarrow> messages_queue \<times> (nat \<times> message_status) list \<times> (nat \<times> tx_context) list \<times> unit res"
where
  "subscription_handle_block accounts account_blocks observer_alive acc sub q =
     (if transaction_subscriptions sub = [] then (q, [], [], Inr ())
      else (case account_blocks acc of
              Inl e \<Rightarrow> (q, [], [], Inl (Context ''Failed to get account block''))
            | Inr None \<Rightarrow> (q, [], [], Inr ())
            | Inr (Some txs) \<Rightarrow>
                (case handle_transactions accounts acc (filter observer_alive (transaction_subscriptions sub)) txs q of
                   (q, sent, calls) \<Rightarrow> (q, sent, calls, Inr ()))))"

text \<open>
  What the generic observer does with a transaction: an event it can read is sent to the handler of
  its service, if that still listens.
\<close>

definition observer_handle_transaction ::
  "(tx_context \<Rightarrow> 'e option) \<Rightarrow> bool \<Rightarrow> tx_context \<Rightarrow> (uint256 \<times> 'e) list \<times> unit res"
where
  "observer_handle_transaction read_event listening ctx =
     (case read_event ctx of
        None \<Rightarrow> ([], Inr ())
      | Some event \<Rightarrow> (if listening then [(ctx_account ctx, event)] else [], Inr ()))"

subsection \<open>Shard blocks\<close>

record subscriber_block_info = block_info +
  gen_utime :: u32
  key_block :: bool

record shard_block =
  sb_info :: "subscriber_block_info res"
  sb_account_blocks :: "(uint256 \<Rightarrow> account_tx res list option res) res"
  sb_accounts :: "shard_accounts res"

record ton_env =
  te_prefix_len :: "shard_ident \<Rightarrow> nat"
  te_with_prefix_slice :: "i32 \<Rightarrow> bool list \<Rightarrow> shard_ident res"
  te_preload :: "shard_account \<Rightarrow> unit res"
  te_observer_alive :: "nat \<Rightarrow> bool"
  te_ton_feature :: bool
  te_is_masterchain :: "shard_ident \<Rightarrow> bool"
  te_split :: "shard_ident \<Rightarrow> (shard_ident \<times> shard_ident) res"
  te_repr_hash :: "cell \<Rightarrow> uint256"

type_synonym shard_outputs = "(nat \<times> message_status) list \<times> (nat \<times> tx_context) list"

text \<open>One subscription in the \<open>retain\<close> of \<open>handle_shard_block\<close>.\<close>

definition process_subscription ::
  "ton_env \<Rightarrow> subscriber_block_info \<Rightarrow> shard_accounts \<Rightarrow> (uint256 \<Rightarrow> account_tx res list option res) \<Rightarrow>
     uint256 \<Rightarrow> state_subscription \<Rightarrow> messages_queue \<Rightarrow> state_subscription option \<times> messages_queue \<times> shard_outputs"
where
  "process_subscription env info accounts account_blocks acc sub q =
     (case update_status (te_observer_alive env) sub of
        (sub, subscription_status) \<Rightarrow>
          if subscription_status = Stopped then (None, q, [], [])
          else if \<not> contains_account (te_prefix_len env) (shard info) acc then (Some sub, q, [], [])
          else
            (case (if subscription_status = Alive
                   then (case accounts acc of
                           Inl e \<Rightarrow> (sub, True)
                         | Inr state \<Rightarrow>
                             (let should_send = (case state of
                                    Some a \<Rightarrow> (case te_preload env a of Inl e \<Rightarrow> False | Inr _ \<Rightarrow> True)
                                  | None \<Rightarrow> True)
                              in if should_send
                                 then (case send_state state sub of None \<Rightarrow> (sub, False) | Some sub \<Rightarrow> (sub, True))
                                 else (sub, True)))
                   else (sub\<lparr>own_version := watch_version sub\<rparr>, True)) of
               (sub, keep) \<Rightarrow>
                 (case subscription_handle_block accounts account_blocks (te_observer_alive env) acc sub q of
                    (q, sent, calls, r) \<Rightarrow> (if keep then Some sub else None, q, sent, calls))))"

fun process_subscriptions ::
  "ton_env \<Rightarrow> subscriber_block_info \<Rightarrow> shard_accounts \<Rightarrow> (uint256 \<Rightarrow> account_tx res list option res) \<Rightarrow>
     (uint256, state_subscription) hashmap \<Rightarrow> messages_queue \<Rightarrow>
     (uint256, state_subscription) hashmap \<times> messages_queue \<times> shard_outputs"
where
  "process_subscriptions env info accounts account_blocks [] q = ([], q, [], [])"
| "process_subscriptions env info accounts account_blocks ((acc, sub) # subs) q =
     (case process_subscription env info accounts account_blocks acc sub q of
        (kept, q, sent, calls) \<Rightarrow>
          (case process_subscriptions env info accounts account_blocks subs q of
             (subs, q, sent', calls') \<Rightarrow>
               ((case kept of None \<Rightarrow> subs | Some sub \<Rightarrow> (acc, sub) # subs), q, sent @ sent', calls @ calls')))"

subsection \<open>The subscriber\<close>

record shard_descr =
  sd_seq_no :: u32
  sd_root_hash :: uint256
  sd_file_hash :: uint256

record block_id_ext =
  bid_shard :: shard_ident
  bid_seq_no :: u32
  bid_root_hash :: uint256
  bid_file_hash :: uint256

record latest_shard_blocks =
  lsb_current_utime :: u32
  lsb_block_ids :: "(shard_ident, block_id_ext) hashmap"

record mc_block_extra =
  mce_shards :: "(i32 \<times> (bool list \<times> shard_descr) res list) res list"
  mce_capabilities :: "u64 option" \<comment> \<open>of the configuration, if the block holds one\<close>

record mc_block =
  mcb_meta_gen_utime :: u32
  mcb_info :: "subscriber_block_info res"
  mcb_custom :: "mc_block_extra option res"
  mcb_global_id :: i32

record block_awaiter =
  aw_since :: "u32 option"
  aw_tx :: "nat option"

record ton_subscriber =
  ready :: bool
  ts_current_utime :: u32
  signature_id :: u64
  state_subscriptions :: "(uint256, state_subscription) hashmap"
  mc_block_awaiters :: "(usize, block_awaiter) hashmap"
  next_awaiter_id :: usize \<comment> \<open>\<open>static BLOCK_AWAITER_ID\<close>\<close>
  ts_messages_queue :: messages_queue
  persistent_storage :: db
  runtime_storage :: shard_cache

definition ton_subscriber_new :: "usize \<Rightarrow> messages_queue \<Rightarrow> db \<Rightarrow> shard_cache \<Rightarrow> ton_subscriber" where
  "ton_subscriber_new next_id q persistent runtime = \<lparr>ready = False, ts_current_utime = 0, signature_id = 0,
     state_subscriptions = [], mc_block_awaiters = [], next_awaiter_id = next_id, ts_messages_queue = q,
     persistent_storage = persistent, runtime_storage = runtime\<rparr>"

definition engine_synced :: "ton_subscriber \<Rightarrow> ton_subscriber" where
  "engine_synced s = s\<lparr>ready := True\<rparr>"

definition MASTERCHAIN_ID :: i32 where
  "MASTERCHAIN_ID = - 1"

fun tree_blocks ::
  "(i32 \<Rightarrow> bool list \<Rightarrow> shard_ident res) \<Rightarrow> i32 \<Rightarrow> (bool list \<times> shard_descr) res list \<Rightarrow>
     (shard_ident, block_id_ext) hashmap \<Rightarrow> (shard_ident, block_id_ext) hashmap res"
where
  "tree_blocks with_prefix wc_id [] block_ids = Inr block_ids"
| "tree_blocks with_prefix wc_id (item # items) block_ids =
     rbind item (\<lambda>(prefix, descr).
     rbind (with_prefix wc_id prefix) (\<lambda>shard_id.
       tree_blocks with_prefix wc_id items
         (hm_insert shard_id \<lparr>bid_shard = shard_id, bid_seq_no = sd_seq_no descr, bid_root_hash = sd_root_hash descr,
            bid_file_hash = sd_file_hash descr\<rparr> block_ids)))"

fun workchain_blocks ::
  "(i32 \<Rightarrow> bool list \<Rightarrow> shard_ident res) \<Rightarrow> (i32 \<times> (bool list \<times> shard_descr) res list) res list \<Rightarrow>
     (shard_ident, block_id_ext) hashmap \<Rightarrow> (shard_ident, block_id_ext) hashmap res"
where
  "workchain_blocks with_prefix [] block_ids = Inr block_ids"
| "workchain_blocks with_prefix (item # items) block_ids =
     rbind item (\<lambda>(wc_id, shards_tree).
       if wc_id = MASTERCHAIN_ID then workchain_blocks with_prefix items block_ids
       else rbind (tree_blocks with_prefix wc_id shards_tree block_ids)
              (workchain_blocks with_prefix items))"

definition extract_shards :: "ton_env \<Rightarrow> mc_block \<Rightarrow> subscriber_block_info \<Rightarrow> latest_shard_blocks res" where
  "extract_shards env block info =
     rbind (mcb_custom block) (\<lambda>custom.
       case custom of
         None \<Rightarrow> Inr \<lparr>lsb_current_utime = gen_utime info, lsb_block_ids = []\<rparr>
       | Some custom \<Rightarrow>
           rbind (workchain_blocks (te_with_prefix_slice env) (mce_shards custom) []) (\<lambda>block_ids.
             Inr \<lparr>lsb_current_utime = gen_utime info, lsb_block_ids = block_ids\<rparr>))"

text \<open>An awaiter whose id is taken (the counter has wrapped) would replace the old one, whose sender is dropped.\<close>

definition wait_shards ::
  "nat \<Rightarrow> u32 option \<Rightarrow> ton_subscriber \<Rightarrow> ton_subscriber \<times> (nat \<times> latest_shard_blocks res option) list"
where
  "wait_shards channel since s =
     (s\<lparr>mc_block_awaiters := hm_insert (next_awaiter_id s) \<lparr>aw_since = since, aw_tx = Some channel\<rparr> (mc_block_awaiters s),
        next_awaiter_id := next_awaiter_id s + 1\<rparr>,
      case hm_get (mc_block_awaiters s) (next_awaiter_id s) of
        None \<Rightarrow> []
      | Some old \<Rightarrow> (case aw_tx old of None \<Rightarrow> [] | Some c \<Rightarrow> [(c, None)]))"

definition must_wait :: "block_awaiter \<Rightarrow> u32 \<Rightarrow> bool" where
  "must_wait awaiter utime = (case aw_since awaiter of Some since \<Rightarrow> utime < since | None \<Rightarrow> False)"

fun retain_awaiters ::
  "ton_env \<Rightarrow> mc_block \<Rightarrow> subscriber_block_info \<Rightarrow> (usize, block_awaiter) hashmap \<Rightarrow>
     (usize, block_awaiter) hashmap \<times> (nat \<times> latest_shard_blocks res option) list"
where
  "retain_awaiters env block info [] = ([], [])"
| "retain_awaiters env block info ((i, awaiter) # awaiters) =
     (case retain_awaiters env block info awaiters of
        (kept, sent) \<Rightarrow>
          if must_wait awaiter (gen_utime info) then ((i, awaiter) # kept, sent)
          else (kept, (case aw_tx awaiter of
                         Some c \<Rightarrow> (c, Some (extract_shards env block info)) # sent
                       | None \<Rightarrow> sent)))"

definition update_signature_id :: "ton_env \<Rightarrow> mc_block \<Rightarrow> ton_subscriber \<Rightarrow> ton_subscriber \<times> unit res" where
  "update_signature_id env block s =
     (if te_ton_feature env then (s\<lparr>signature_id := signature_id_store 0 (mcb_global_id block)\<rparr>, Inr ())
      else (case rbind (mcb_custom block) (\<lambda>custom.
                 rbind (ok_or (Context ''McBlockExtra not found in the masterchain block'') custom) (\<lambda>custom.
                   ok_or (Context ''Config not found in the key block'') (mce_capabilities custom))) of
              Inl e \<Rightarrow> (s, Inl e)
            | Inr capabilities \<Rightarrow> (s\<lparr>signature_id := signature_id_store capabilities (mcb_global_id block)\<rparr>, Inr ())))"

definition handle_masterchain_block ::
  "ton_env \<Rightarrow> mc_block \<Rightarrow> ton_subscriber \<Rightarrow> ton_subscriber \<times> (nat \<times> latest_shard_blocks res option) list \<times> unit res"
where
  "handle_masterchain_block env block s =
     (let s = s\<lparr>ts_current_utime := mcb_meta_gen_utime block\<rparr>
      in case mcb_info block of
           Inl e \<Rightarrow> (s, [], Inl e)
         | Inr info \<Rightarrow>
             (case (if key_block info then update_signature_id env block s else (s, Inr ())) of
                (s, Inl e) \<Rightarrow> (s, [], Inl e)
              | (s, Inr _) \<Rightarrow>
                  if \<not> ready s then (s, [], Inr ())
                  else (case retain_awaiters env block info (mc_block_awaiters s) of
                          (kept, sent) \<Rightarrow> (s\<lparr>mc_block_awaiters := kept\<rparr>, sent, Inr ()))))"

definition handle_shard_block ::
  "ton_env \<Rightarrow> shard_block \<Rightarrow> ton_subscriber \<Rightarrow> ton_subscriber \<times> shard_outputs \<times> unit res"
where
  "handle_shard_block env block s =
     (if \<not> ready s then (s, ([], []), Inr ())
      else (case rbind (sb_info block) (\<lambda>info.
                 rbind (sb_account_blocks block) (\<lambda>account_blocks.
                 rbind (sb_accounts block) (\<lambda>accounts. Inr (info, account_blocks, accounts)))) of
              Inl e \<Rightarrow> (s, ([], []), Inl e)
            | Inr (info, account_blocks, accounts) \<Rightarrow>
                (case process_subscriptions env info accounts account_blocks (state_subscriptions s) (ts_messages_queue s) of
                   (subs, q, sent, calls) \<Rightarrow>
                     (case queue_update (te_prefix_len env) (shard info) (gen_utime info) q of
                        (q, expired) \<Rightarrow>
                          (s\<lparr>state_subscriptions := subs, ts_messages_queue := q\<rparr>, (sent @ expired, calls), Inr ())))))"

subsection \<open>A block of the node\<close>

record block_context =
  bc_is_masterchain :: bool
  bc_mc_block :: mc_block
  bc_shard_block :: shard_block
  bc_workchain :: i32
  bc_shard_ident :: shard_ident
  bc_account_blocks :: "(uint256 \<times> account_tx res list) list res"
  bc_shard_state :: "shard_accounts res option"
  bc_block_info :: "subscriber_block_info res"

record block_outputs =
  message_answers :: "(nat \<times> message_status) list"
  transaction_calls :: "(nat \<times> tx_context) list"
  awaiter_answers :: "(nat \<times> latest_shard_blocks res option) list"

definition storage_transactions :: "(uint256 \<times> account_tx res list) list \<Rightarrow> (uint256 \<times> block_tx res list) list" where
  "storage_transactions blocks = map (\<lambda>(acc, txs). (acc, map (map_sum (\<lambda>e. e) block_tx.truncate) txs)) blocks"

definition process_block :: "ton_env \<Rightarrow> block_context \<Rightarrow> ton_subscriber \<Rightarrow> ton_subscriber \<times> block_outputs \<times> unit res" where
  "process_block env b s =
     (case (case bc_shard_state b of
              None \<Rightarrow> (s, \<lparr>message_answers = [], transaction_calls = [], awaiter_answers = []\<rparr>, Inr ())
            | Some _ \<Rightarrow>
                if bc_is_masterchain b
                then (case handle_masterchain_block env (bc_mc_block b) s of
                        (s, answers, r) \<Rightarrow>
                          (s, \<lparr>message_answers = [], transaction_calls = [], awaiter_answers = answers\<rparr>, r))
                else (case handle_shard_block env (bc_shard_block b) s of
                        (s, (answers, calls), r) \<Rightarrow>
                          (s, \<lparr>message_answers = answers, transaction_calls = calls, awaiter_answers = []\<rparr>, r))) of
        (s, out, Inl e) \<Rightarrow> (s, out, Inl e)
      | (s, out, Inr _) \<Rightarrow>
          (case update (te_repr_hash env) (bc_workchain b) (rbind (bc_account_blocks b) (\<lambda>blocks. Inr (storage_transactions blocks)))
                  (bc_shard_state b) (persistent_storage s) of
             Inl e \<Rightarrow> (s, out, Inl e)
           | Inr d \<Rightarrow>
               (let s = s\<lparr>persistent_storage := d\<rparr>
                in case bc_shard_state b of
                     None \<Rightarrow> (s, out, Inr ())
                   | Some shard_state \<Rightarrow>
                       (case bc_block_info b of
                          Inl e \<Rightarrow> (s, out, Inl e)
                        | Inr info \<Rightarrow>
                            (case update_contract_states (te_is_masterchain env) (te_split env) (bc_shard_ident b)
                                    (block_info.truncate info) shard_state (runtime_storage s) of
                               (cache, r) \<Rightarrow> (s\<lparr>runtime_storage := cache\<rparr>, out, r))))))"

subsection \<open>A shard block as a run of the queue\<close>

fun delivered_hashes :: "account_tx res list \<Rightarrow> uint256 list" where
  "delivered_hashes [] = []"
| "delivered_hashes (Inl e # txs) = delivered_hashes txs"
| "delivered_hashes (Inr t # txs) =
     (case (at_description t, at_in_msg t) of
        (OrdinaryTx False, Some (h, Inr msg)) \<Rightarrow>
          if bm_info msg = ExtInMsgInfo then h # delivered_hashes txs else delivered_hashes txs
      | _ \<Rightarrow> delivered_hashes txs)"

lemma in_delivered_hashes:
  "h \<in> set (delivered_hashes txs) \<longleftrightarrow>
     (\<exists>t msg. Inr t \<in> set txs \<and> at_description t = OrdinaryTx False \<and> at_in_msg t = Some (h, Inr msg)
        \<and> bm_info msg = ExtInMsgInfo)"
proof (induction txs)
  case (Cons r txs)
  show ?case
  proof (cases r)
    case (Inr t)
    have "h \<in> set (delivered_hashes (r # txs)) \<longleftrightarrow> h \<in> set (delivered_hashes txs)
        \<or> (\<exists>msg. at_description t = OrdinaryTx False \<and> at_in_msg t = Some (h, Inr msg) \<and> bm_info msg = ExtInMsgInfo)"
      using Inr by (auto split: tx_description.split bool.split option.split sum.split prod.split)
    with Cons.IH Inr show ?thesis by auto
  qed (use Cons in simp)
qed simp

abbreviation answered :: "(nat \<times> message_status) list \<Rightarrow> (nat \<times> message_status option) list" where
  "answered sent \<equiv> map (\<lambda>(c, s). (c, Some s)) sent"

lemma handle_transactions_run:
  "handle_transactions accounts acc observers txs q = (q', sent, calls) \<Longrightarrow>
     run_ops (queue_step prefix_len) (map (DeliverMessage acc) (delivered_hashes txs)) q = (q', answered sent)"
proof (induction txs arbitrary: q q' sent calls)
  case (Cons r txs)
  show ?case
  proof (cases r)
    case (Inl e)
    with Cons show ?thesis by simp
  next
    case (Inr t)
    show ?thesis
    proof (cases "\<exists>h msg. at_description t = OrdinaryTx False \<and> at_in_msg t = Some (h, Inr msg)")
      case True
      then obtain h msg where t: "at_description t = OrdinaryTx False" "at_in_msg t = Some (h, Inr msg)" by blast
      obtain q1 delivered where one: "(if bm_info msg = ExtInMsgInfo then deliver_message acc h q else (q, [])) = (q1, delivered)"
        by (metis surj_pair)
      obtain q2 sent2 calls2 where two: "handle_transactions accounts acc observers txs q1 = (q2, sent2, calls2)"
        by (metis prod_cases3)
      from Cons.IH [OF two] Cons.prems Inr t one two show ?thesis
        by (auto split: if_splits)
    next
      case False
      then have "handle_transactions accounts acc observers (r # txs) q = handle_transactions accounts acc observers txs q"
        "delivered_hashes (r # txs) = delivered_hashes txs"
        using Inr by (auto split: tx_description.split bool.split option.split sum.split prod.split)
      with Cons show ?thesis by simp
    qed
  qed
qed simp

definition subscription_ops ::
  "ton_env \<Rightarrow> subscriber_block_info \<Rightarrow> (uint256 \<Rightarrow> account_tx res list option res) \<Rightarrow> uint256 \<times> state_subscription \<Rightarrow> queue_op list"
where
  "subscription_ops env info account_blocks = (\<lambda>(acc, sub).
     if filter (te_observer_alive env) (transaction_subscriptions sub) = [] \<or> \<not> contains_account (te_prefix_len env) (shard info) acc
     then []
     else (case account_blocks acc of
             Inr (Some txs) \<Rightarrow> map (DeliverMessage acc) (delivered_hashes txs)
           | _ \<Rightarrow> []))"

lemma send_state_eq: "send_state v sub = Some (sub\<lparr>watch_value := v, watch_version := Suc (watch_version sub)\<rparr>)"
  by (simp add: send_state_def receiver_count_def)

lemma subscription_handle_block_run:
  assumes "subscription_handle_block accounts account_blocks alive acc sub q = (q', sent, calls, r)"
  shows "run_ops (queue_step prefix_len) (if transaction_subscriptions sub = [] then [] else
      (case account_blocks acc of Inr (Some txs) \<Rightarrow> map (DeliverMessage acc) (delivered_hashes txs) | _ \<Rightarrow> [])) q
    = (q', answered sent)"
proof (cases "transaction_subscriptions sub = []")
  case False
  show ?thesis
  proof (cases "account_blocks acc")
    case (Inr block)
    show ?thesis
    proof (cases block)
      case (Some txs)
      obtain q2 sent2 calls2 where h: "handle_transactions accounts acc (filter alive (transaction_subscriptions sub)) txs q
          = (q2, sent2, calls2)"
        by (metis prod_cases3)
      from handle_transactions_run [OF h, of prefix_len] h assms False Inr Some show ?thesis
        by (simp add: subscription_handle_block_def)
    qed (use assms Inr False in \<open>simp add: subscription_handle_block_def\<close>)
  qed (use assms False in \<open>simp add: subscription_handle_block_def\<close>)
qed (use assms in \<open>simp add: subscription_handle_block_def\<close>)

text \<open>What a block does to a subscription, apart from the messages: the sends never fail.\<close>

definition loadable :: "ton_env \<Rightarrow> shard_account option \<Rightarrow> bool" where
  "loadable env state = (case state of Some a \<Rightarrow> (\<exists>u. te_preload env a = Inr u) | None \<Rightarrow> True)"

definition watch_update ::
  "ton_env \<Rightarrow> shard_accounts \<Rightarrow> uint256 \<Rightarrow> state_subscription_status \<Rightarrow> state_subscription \<Rightarrow> state_subscription"
where
  "watch_update env accounts acc st sub =
     (if st = Alive
      then (case accounts acc of
              Inl e \<Rightarrow> sub
            | Inr state \<Rightarrow>
                if loadable env state then sub\<lparr>watch_value := state, watch_version := Suc (watch_version sub)\<rparr> else sub)
      else sub\<lparr>own_version := watch_version sub\<rparr>)"

definition subscription_after ::
  "ton_env \<Rightarrow> subscriber_block_info \<Rightarrow> shard_accounts \<Rightarrow> uint256 \<Rightarrow> state_subscription \<Rightarrow> state_subscription option"
where
  "subscription_after env info accounts acc sub =
     (case update_status (te_observer_alive env) sub of
        (sub, st) \<Rightarrow>
          if st = Stopped then None
          else if \<not> contains_account (te_prefix_len env) (shard info) acc then Some sub
          else Some (watch_update env accounts acc st sub))"

lemma watch_update_transactions [simp]:
  "transaction_subscriptions (watch_update env accounts acc st sub) = transaction_subscriptions sub"
  by (simp add: watch_update_def split: sum.split)

lemma process_subscription_eq:
  "process_subscription env info accounts account_blocks acc sub q =
     (case update_status (te_observer_alive env) sub of
        (sub1, st) \<Rightarrow>
          if st = Stopped \<or> \<not> contains_account (te_prefix_len env) (shard info) acc
          then (subscription_after env info accounts acc sub, q, [], [])
          else (case subscription_handle_block accounts account_blocks (te_observer_alive env) acc
                       (watch_update env accounts acc st sub1) q of
                  (q, sent, calls, r) \<Rightarrow> (subscription_after env info accounts acc sub, q, sent, calls)))"
proof -
  obtain sub1 st where u: "update_status (te_observer_alive env) sub = (sub1, st)" by (cases "update_status (te_observer_alive env) sub")
  have load: "(case state of Some a \<Rightarrow> (case te_preload env a of Inl e \<Rightarrow> False | Inr _ \<Rightarrow> True) | None \<Rightarrow> True) = loadable env state"
    for state
    by (auto simp: loadable_def split: option.split sum.split)
  show ?thesis
    by (cases "accounts acc")
      (auto simp: process_subscription_def subscription_after_def u load send_state_eq watch_update_def Let_def
        split: prod.split)
qed

lemma process_subscription_run:
  assumes "process_subscription env info accounts account_blocks acc sub q = (kept, q', sent, calls)"
  shows "run_ops (queue_step prefix_len) (subscription_ops env info account_blocks (acc, sub)) q = (q', answered sent)"
    and "kept = subscription_after env info accounts acc sub"
proof -
  obtain sub1 st where u: "update_status (te_observer_alive env) sub = (sub1, st)" by (cases "update_status (te_observer_alive env) sub")
  have sub1: "transaction_subscriptions sub1 = filter (te_observer_alive env) (transaction_subscriptions sub)"
    and stopped: "st = Stopped \<Longrightarrow> transaction_subscriptions sub1 = []"
    using u by (auto simp: update_status_def Let_def split: if_splits)
  show "kept = subscription_after env info accounts acc sub"
    using assms by (auto simp: process_subscription_eq u split: if_splits prod.splits)
  show "run_ops (queue_step prefix_len) (subscription_ops env info account_blocks (acc, sub)) q = (q', answered sent)"
  proof (cases "st = Stopped \<or> \<not> contains_account (te_prefix_len env) (shard info) acc")
    case True
    then have "subscription_ops env info account_blocks (acc, sub) = []"
      using stopped sub1 by (auto simp: subscription_ops_def)
    with True assms show ?thesis by (simp add: process_subscription_eq u)
  next
    case False
    then obtain r where "subscription_handle_block accounts account_blocks (te_observer_alive env) acc
        (watch_update env accounts acc st sub1) q = (q', sent, calls, r)"
      using assms by (auto simp: process_subscription_eq u split: prod.splits)
    from subscription_handle_block_run [OF this, of prefix_len] False show ?thesis
      by (simp add: subscription_ops_def sub1)
  qed
qed

lemma process_subscriptions_run:
  "process_subscriptions env info accounts account_blocks subs q = (subs', q', sent, calls) \<Longrightarrow>
     run_ops (queue_step prefix_len) (concat (map (subscription_ops env info account_blocks) subs)) q = (q', answered sent)
     \<and> subs' = List.map_filter (\<lambda>(acc, sub). map_option (Pair acc) (subscription_after env info accounts acc sub)) subs"
proof (induction subs arbitrary: subs' q q' sent calls)
  case (Cons e subs)
  obtain acc sub where e: "e = (acc, sub)" by (cases e)
  obtain kept q1 sent1 calls1 where one: "process_subscription env info accounts account_blocks acc sub q = (kept, q1, sent1, calls1)"
    by (metis prod_cases4)
  obtain subs2 q2 sent2 calls2 where two: "process_subscriptions env info accounts account_blocks subs q1 = (subs2, q2, sent2, calls2)"
    by (metis prod_cases4)
  from process_subscription_run(1) [OF one, of prefix_len] process_subscription_run(2) [OF one] Cons.IH [OF two] Cons.prems one two e show ?case
    by (auto simp: run_ops_append List.map_filter_simps split: option.splits)
qed (simp add: List.map_filter_simps)

lemma subscriptions_after_get:
  assumes "hm_wf subs"
  shows "hm_get (List.map_filter (\<lambda>(acc, sub). map_option (Pair acc) (subscription_after env info accounts acc sub)) subs) acc =
    Option.bind (hm_get subs acc) (subscription_after env info accounts acc)" (is "hm_get (?after subs) acc = _")
  using assms
proof (induction subs)
  case (Cons e subs)
  obtain acc' sub where e: "e = (acc', sub)" by (cases e)
  have sub: "hm_wf subs" and new: "hm_get subs acc' = None"
    using Cons.prems e by (auto simp: hm_wf_def map_of_eq_None_iff)
  from Cons.IH [OF sub] new e show ?case
    by (cases "subscription_after env info accounts acc' sub") (auto simp: List.map_filter_simps)
qed (simp add: List.map_filter_simps)

lemma handle_shard_block_run:
  assumes "ready s" "handle_shard_block env block s = (s', (answers, calls), Inr ())"
  obtains info account_blocks accounts where
    "sb_info block = Inr info" "sb_account_blocks block = Inr account_blocks" "sb_accounts block = Inr accounts"
    "run_ops (queue_step (te_prefix_len env))
       (concat (map (subscription_ops env info account_blocks) (state_subscriptions s)) @ [UpdateQueue (shard info) (gen_utime info)])
       (ts_messages_queue s) = (ts_messages_queue s', answered answers)"
    "state_subscriptions s' = List.map_filter (\<lambda>(acc, sub). map_option (Pair acc)
       (subscription_after env info accounts acc sub)) (state_subscriptions s)"
proof -
  obtain info account_blocks accounts where reads: "sb_info block = Inr info" "sb_account_blocks block = Inr account_blocks"
    "sb_accounts block = Inr accounts"
    using assms by (auto simp: handle_shard_block_def split: sum.splits prod.splits) (auto simp: rbind_eq_Inr_iff)
  obtain subs q sent calls' where p: "process_subscriptions env info accounts account_blocks (state_subscriptions s)
      (ts_messages_queue s) = (subs, q, sent, calls')"
    by (metis prod_cases4)
  obtain q' expired where u: "queue_update (te_prefix_len env) (shard info) (gen_utime info) q = (q', expired)"
    by (metis surj_pair)
  from assms reads p u have "s' = s\<lparr>state_subscriptions := subs, ts_messages_queue := q'\<rparr>" "answers = sent @ expired"
    by (auto simp: handle_shard_block_def)
  with process_subscriptions_run [OF p, of "te_prefix_len env"] u reads that show thesis
    by (simp add: run_ops_append)
qed

subsection \<open>Deliveries\<close>

lemma deliver_message_get:
  "hm_get (queue_entries (fst (deliver_message acc h q))) key =
     (if key = \<lparr>pm_account = acc, message_hash = h\<rparr> then None else hm_get (queue_entries q) key)"
  by (auto simp: deliver_message_def hm_simps Let_def split: option.split)

lemma deliver_message_sent:
  "(c, a) \<in> set (snd (deliver_message acc h q)) \<longleftrightarrow>
     a = Delivered \<and> (\<exists>item. hm_get (queue_entries q) \<lparr>pm_account = acc, message_hash = h\<rparr> = Some item \<and> tx item = Some c)"
  by (auto simp: deliver_message_def send_status_def Let_def split: option.split)

definition delivers :: "queue_op list \<Rightarrow> pending_message_id \<Rightarrow> bool" where
  "delivers ops key \<longleftrightarrow> DeliverMessage (pm_account key) (message_hash key) \<in> set ops"

lemma run_deliveries_get:
  "\<forall>op \<in> set ops. \<exists>acc h. op = DeliverMessage acc h \<Longrightarrow>
     hm_get (queue_entries (fst (run_ops (queue_step prefix_len) ops q))) key =
       (if delivers ops key then None else hm_get (queue_entries q) key)"
proof (induction ops arbitrary: q)
  case (Cons op ops)
  from Cons.prems obtain acc h where op: "op = DeliverMessage acc h" by auto
  have key: "delivers (op # ops) key \<longleftrightarrow> key = \<lparr>pm_account = acc, message_hash = h\<rparr> \<or> delivers ops key"
    by (cases key) (auto simp: delivers_def op)
  have "\<forall>op \<in> set ops. \<exists>acc h. op = DeliverMessage acc h" using Cons.prems by simp
  from Cons.IH [OF this, of "fst (deliver_message acc h q)"] show ?case
    unfolding key by (simp add: op case_prod_beta deliver_message_get)
qed (simp add: delivers_def)

lemma run_deliveries_sent:
  "\<forall>op \<in> set ops. \<exists>acc h. op = DeliverMessage acc h \<Longrightarrow>
     (c, a) \<in> set (snd (run_ops (queue_step prefix_len) ops q)) \<longleftrightarrow>
       a = Some Delivered \<and> (\<exists>key item. delivers ops key \<and> hm_get (queue_entries q) key = Some item \<and> tx item = Some c)"
proof (induction ops arbitrary: q)
  case (Cons op ops)
  from Cons.prems obtain acc h where op: "op = DeliverMessage acc h" by auto
  obtain q1 sent where one: "deliver_message acc h q = (q1, sent)" by (metis surj_pair)
  have get1: "hm_get (queue_entries q1) key =
      (if key = \<lparr>pm_account = acc, message_hash = h\<rparr> then None else hm_get (queue_entries q) key)" for key
    using deliver_message_get [of acc h q key] one by simp
  have key: "delivers (op # ops) key \<longleftrightarrow> key = \<lparr>pm_account = acc, message_hash = h\<rparr> \<or> delivers ops key" for key
    by (cases key) (auto simp: delivers_def op)
  have "(c, a) \<in> set (snd (run_ops (queue_step prefix_len) (op # ops) q)) \<longleftrightarrow>
      (\<exists>s. (c, s) \<in> set sent \<and> a = Some s) \<or> (c, a) \<in> set (snd (run_ops (queue_step prefix_len) ops q1))"
    using one op by (force simp: case_prod_beta)
  also have "\<dots> \<longleftrightarrow> a = Some Delivered \<and> ((\<exists>item. hm_get (queue_entries q) \<lparr>pm_account = acc, message_hash = h\<rparr> = Some item \<and> tx item = Some c)
      \<or> (\<exists>key item. delivers ops key \<and> hm_get (queue_entries q1) key = Some item \<and> tx item = Some c))"
    using Cons.IH [of q1] Cons.prems deliver_message_sent [of c _ acc h q] one by auto
  also have "\<dots> \<longleftrightarrow> a = Some Delivered \<and> (\<exists>key item. delivers (op # ops) key \<and> hm_get (queue_entries q) key = Some item \<and> tx item = Some c)"
    unfolding key get1 by (auto split: if_splits) metis
  finally show ?case .
qed (simp add: delivers_def)

text \<open>
  The block contains the message: a subscribed account of the shard, with a live observer, has an
  ordinary transaction that was not aborted and whose incoming message is the external one
  with the given hash.
\<close>

definition block_includes ::
  "ton_env \<Rightarrow> subscriber_block_info \<Rightarrow> (uint256 \<Rightarrow> account_tx res list option res) \<Rightarrow>
     (uint256, state_subscription) hashmap \<Rightarrow> pending_message_id \<Rightarrow> bool"
where
  "block_includes env info account_blocks subs key \<longleftrightarrow>
     (\<exists>sub txs t msg. (pm_account key, sub) \<in> set subs
        \<and> (\<exists>obs \<in> set (transaction_subscriptions sub). te_observer_alive env obs)
        \<and> contains_account (te_prefix_len env) (shard info) (pm_account key)
        \<and> account_blocks (pm_account key) = Inr (Some txs) \<and> Inr t \<in> set txs
        \<and> at_description t = OrdinaryTx False \<and> at_in_msg t = Some (message_hash key, Inr msg)
        \<and> bm_info msg = ExtInMsgInfo)"

lemma block_ops_deliver:
  "delivers (concat (map (subscription_ops env info account_blocks) subs)) key \<longleftrightarrow> block_includes env info account_blocks subs key"
proof -
  have "DeliverMessage acc h \<in> set (subscription_ops env info account_blocks e) \<longleftrightarrow>
      (\<exists>sub. e = (acc, sub) \<and> (\<exists>obs \<in> set (transaction_subscriptions sub). te_observer_alive env obs)
      \<and> contains_account (te_prefix_len env) (shard info) acc
      \<and> (\<exists>txs. account_blocks acc = Inr (Some txs) \<and> h \<in> set (delivered_hashes txs)))" for acc h e
  proof (cases e)
    case (Pair acc' sub)
    have "DeliverMessage acc h \<in> set (subscription_ops env info account_blocks (acc', sub)) \<longleftrightarrow>
      acc' = acc \<and> (\<exists>obs \<in> set (transaction_subscriptions sub). te_observer_alive env obs)
      \<and> contains_account (te_prefix_len env) (shard info) acc
      \<and> (\<exists>txs. account_blocks acc = Inr (Some txs) \<and> h \<in> set (delivered_hashes txs))"
    proof (cases "account_blocks acc'")
      case (Inr block)
      then show ?thesis by (cases block) (auto simp: subscription_ops_def filter_empty_conv)
    qed (auto simp: subscription_ops_def)
    with Pair show ?thesis by simp
  qed
  note op = this
  show ?thesis
    unfolding delivers_def block_includes_def set_concat set_map UN_iff bex_simps image_iff op in_delivered_hashes
    by blast
qed

lemma block_ops_are_deliveries:
  "\<forall>op \<in> set (concat (map (subscription_ops env info account_blocks) subs)). \<exists>acc h. op = DeliverMessage acc h"
  by (auto simp: subscription_ops_def split: if_splits sum.splits option.splits)

subsection \<open>The awaiters\<close>

definition ts_inv :: "ton_subscriber \<Rightarrow> bool" where
  "ts_inv s \<longleftrightarrow> has_senders aw_tx (mc_block_awaiters s)"

datatype ton_op = WaitShards nat "u32 option" | McBlock ton_env mc_block | ShardBlock ton_env shard_block | Synced

fun ton_step :: "ton_op \<Rightarrow> ton_subscriber \<Rightarrow> ton_subscriber \<times> (nat \<times> latest_shard_blocks res option) list" where
  "ton_step (WaitShards c since) s = wait_shards c since s"
| "ton_step (McBlock env block) s = (case handle_masterchain_block env block s of (s, sent, _) \<Rightarrow> (s, sent))"
| "ton_step (ShardBlock env block) s = (case handle_shard_block env block s of (s, _) \<Rightarrow> (s, []))"
| "ton_step Synced s = (engine_synced s, [])"

fun ton_opened :: "ton_op \<Rightarrow> ton_subscriber \<Rightarrow> nat multiset" where
  "ton_opened (WaitShards c since) s = {#c#}"
| "ton_opened (McBlock env block) s = {#}"
| "ton_opened (ShardBlock env block) s = {#}"
| "ton_opened Synced s = {#}"

definition ts_waiting :: "ton_subscriber \<Rightarrow> nat multiset" where
  "ts_waiting s = senders aw_tx (mc_block_awaiters s)"

lemma retain_awaiters_eq:
  "retain_awaiters env block info awaiters =
     (filter (\<lambda>(i, awaiter). must_wait awaiter (gen_utime info)) awaiters,
      concat (map (\<lambda>(i, awaiter). case aw_tx awaiter of None \<Rightarrow> [] | Some c \<Rightarrow> [(c, Some (extract_shards env block info))])
        (filter (\<lambda>(i, awaiter). \<not> must_wait awaiter (gen_utime info)) awaiters)))"
  by (induction awaiters) (auto split: option.split)

lemma retain_awaiters_senders:
  assumes "has_senders aw_tx awaiters"
  shows "has_senders aw_tx (fst (retain_awaiters env block info awaiters))
    \<and> senders aw_tx (fst (retain_awaiters env block info awaiters)) + mset (map fst (snd (retain_awaiters env block info awaiters)))
      = senders aw_tx awaiters"
proof
  show "has_senders aw_tx (fst (retain_awaiters env block info awaiters))"
    using assms by (auto simp: retain_awaiters_eq has_senders_def hm_wf_def distinct_map_filter_fst)
  have "\<forall>(i, awaiter) \<in> set awaiters. aw_tx awaiter \<noteq> None" using assms by (simp add: has_senders_def)
  then show "senders aw_tx (fst (retain_awaiters env block info awaiters))
      + mset (map fst (snd (retain_awaiters env block info awaiters))) = senders aw_tx awaiters"
  proof (induction awaiters)
    case (Cons e awaiters)
    obtain i awaiter where e: "e = (i, awaiter)" by (cases e)
    obtain kept sent where r: "retain_awaiters env block info awaiters = (kept, sent)" by (metis surj_pair)
    from Cons e r show ?case by (cases "aw_tx awaiter") auto
  qed simp
qed

lemma masterchain_cases:
  obtains (kept) "mc_block_awaiters (fst (handle_masterchain_block env block s)) = mc_block_awaiters s"
      "fst (snd (handle_masterchain_block env block s)) = []"
  | (handled) info where "mcb_info block = Inr info" "ready s"
      "mc_block_awaiters (fst (handle_masterchain_block env block s)) = fst (retain_awaiters env block info (mc_block_awaiters s))"
      "fst (snd (handle_masterchain_block env block s)) = snd (retain_awaiters env block info (mc_block_awaiters s))"
proof -
  have sig: "mc_block_awaiters (fst (update_signature_id env block s)) = mc_block_awaiters s
      \<and> ready (fst (update_signature_id env block s)) = ready s" for s
    by (simp add: update_signature_id_def split: sum.split)
  define s1 where "s1 = s\<lparr>ts_current_utime := mcb_meta_gen_utime block\<rparr>"
  show thesis
  proof (cases "mcb_info block")
    case (Inl e)
    with kept show thesis by (simp add: handle_masterchain_block_def)
  next
    case (Inr info)
    obtain s2 r where u: "(if key_block info then update_signature_id env block s1 else (s1, Inr ())) = (s2, r)"
      by (metis surj_pair)
    have s2: "mc_block_awaiters s2 = mc_block_awaiters s" "ready s2 = ready s"
      using u sig [of s1] by (auto simp: s1_def split: if_splits)
    show thesis
    proof (cases "\<exists>u. r = Inr u \<and> ready s2")
      case True
      with handled [OF Inr] u s2 Inr show thesis
        by (auto simp: handle_masterchain_block_def s1_def [symmetric] Let_def case_prod_beta)
    next
      case False
      with kept u s2 Inr show thesis
        by (cases r) (auto simp: handle_masterchain_block_def s1_def [symmetric] Let_def)
    qed
  qed
qed

lemma ton_step_contract:
  assumes "ts_inv s"
  shows "ts_inv (fst (ton_step op s))
    \<and> ts_waiting (fst (ton_step op s)) + mset (map fst (snd (ton_step op s))) = ts_waiting s + ton_opened op s"
proof (cases op)
  case (WaitShards c since)
  have hs: "has_senders aw_tx (mc_block_awaiters s)" using assms by (simp add: ts_inv_def)
  then have wf: "hm_wf (mc_block_awaiters s)" by (rule has_senders_wf)
  show ?thesis
  proof (cases "hm_get (mc_block_awaiters s) (next_awaiter_id s)")
    case None
    with hs WaitShards show ?thesis
      by (simp add: wait_shards_def ts_inv_def ts_waiting_def has_senders_insert senders_insert [OF wf] hm_remove_absent)
  next
    case (Some old)
    then obtain c' where c': "aw_tx old = Some c'" using has_senders_get [OF hs] by metis
    with hs WaitShards Some show ?thesis
      by (simp add: wait_shards_def ts_inv_def ts_waiting_def has_senders_insert senders_insert [OF wf] senders_remove [OF hs Some c'])
  qed
next
  case (McBlock env block)
  have hs: "has_senders aw_tx (mc_block_awaiters s)" using assms by (simp add: ts_inv_def)
  show ?thesis
  proof (cases rule: masterchain_cases [of env block s])
    case kept
    with hs McBlock show ?thesis by (simp add: ts_inv_def ts_waiting_def case_prod_beta)
  next
    case (handled info)
    with retain_awaiters_senders [OF hs, of env block info] McBlock show ?thesis
      by (simp add: ts_inv_def ts_waiting_def case_prod_beta)
  qed
next
  case (ShardBlock env block)
  have "mc_block_awaiters (fst (handle_shard_block env block s)) = mc_block_awaiters s"
    by (auto simp: handle_shard_block_def split: sum.split prod.split)
  with assms ShardBlock show ?thesis by (simp add: ts_inv_def ts_waiting_def case_prod_beta)
next
  case Synced
  with assms show ?thesis by (simp add: ts_inv_def ts_waiting_def engine_synced_def)
qed

interpretation shard_awaiters: oneshot_registry ts_inv ton_step ton_opened ts_waiting
  by unfold_locales (simp_all only: ton_step_contract)

subsection \<open>Properties\<close>

text \<open>
  The signature id the messages are signed with is exactly the global id of the last key block
  whose configuration has the capability, at full 32-bit range, and none without it.
\<close>

theorem signature_id_roundtrip:
  "signature_id_load (signature_id_store capabilities global_id) =
     (if capabilities AND CAP_WITH_SIGNATURE_ID \<noteq> 0 then Some global_id else None)"
proof (cases "capabilities AND CAP_WITH_SIGNATURE_ID = 0")
  case False
  have flag: "bit WITH_SIGNATURE_ID n \<longleftrightarrow> n = 32" for n
    unfolding WITH_SIGNATURE_ID_def by (subst bit_push_bit_iff) (auto simp: bit_1_iff)
  have "bit ((WITH_SIGNATURE_ID OR ucast global_id) AND WITH_SIGNATURE_ID :: u64) 32"
    by (simp add: flag bit_simps)
  then have "(WITH_SIGNATURE_ID OR ucast global_id) AND WITH_SIGNATURE_ID \<noteq> (0 :: u64)" by auto
  moreover have "ucast (WITH_SIGNATURE_ID OR ucast global_id :: u64) = global_id"
    by (rule bit_word_eqI) (auto simp: flag bit_simps)
  ultimately show ?thesis using False by (simp add: signature_id_load_def signature_id_store_def)
qed (simp add: signature_id_load_def signature_id_store_def)

text \<open>
  C29: What a shard block answers to the tasks that wait for their messages, completely: a message
  included in the block is reported delivered; a message to an account of the shard that is not
  included and whose expiry lies before the block's time is reported expired; nothing else
  is reported. In particular a message included in the very block that passes its expiry
  counts as delivered.
\<close>

theorem block_answers_messages:
  assumes "ready s" and "queue_inv (ts_messages_queue s)"
    and "handle_shard_block env block s = (s', (answers, calls), Inr ())"
    and "sb_info block = Inr info" and "sb_account_blocks block = Inr account_blocks"
  shows "(c, a) \<in> set answers \<longleftrightarrow>
    (\<exists>key item. hm_get (queue_entries (ts_messages_queue s)) key = Some item \<and> tx item = Some c
       \<and> (if block_includes env info account_blocks (state_subscriptions s) key then a = Delivered
          else a = Expired \<and> expire_at item < gen_utime info
            \<and> contains_account (te_prefix_len env) (shard info) (pm_account key)))"
proof -
  let ?P = "te_prefix_len env"
  let ?ops = "concat (map (subscription_ops env info account_blocks) (state_subscriptions s))"
  let ?q = "ts_messages_queue s"
  obtain q1 sent1 where one: "run_ops (queue_step ?P) ?ops ?q = (q1, sent1)" by (metis surj_pair)
  obtain q2 sent2 where two: "queue_update ?P (shard info) (gen_utime info) q1 = (q2, sent2)" by (metis surj_pair)
  have run: "run_ops (queue_step ?P) (?ops @ [UpdateQueue (shard info) (gen_utime info)]) ?q = (ts_messages_queue s', answered answers)"
    using assms(4,5) by (auto intro: handle_shard_block_run [OF assms(1,3)])
  then have answers: "answered answers = sent1 @ answered sent2"
    using one two by (simp add: run_ops_append)
  have inj: "(c, Some a) \<in> set (answered sent) \<longleftrightarrow> (c, a) \<in> set sent" for sent :: "(nat \<times> message_status) list"
    by force
  have inv1: "queue_inv q1" using queue.run_ops_inv [OF assms(2), of ?P ?ops] one by simp
  note d = run_deliveries_sent [OF block_ops_are_deliveries, of c "Some a" ?P env info account_blocks "state_subscriptions s" ?q,
      unfolded one snd_conv block_ops_deliver]
  note g = run_deliveries_get [OF block_ops_are_deliveries, of ?P env info account_blocks "state_subscriptions s" ?q,
      unfolded one fst_conv block_ops_deliver]
  have "(c, a) \<in> set answers \<longleftrightarrow> (c, Some a) \<in> set sent1 \<or> (c, a) \<in> set sent2"
    unfolding inj [symmetric] answers by auto
  also have "(c, a) \<in> set sent2 \<longleftrightarrow> a = Expired \<and> (\<exists>key item. \<not> block_includes env info account_blocks (state_subscriptions s) key
      \<and> hm_get (queue_entries ?q) key = Some item \<and> tx item = Some c
      \<and> expire_at item < gen_utime info \<and> contains_account ?P (shard info) (pm_account key))"
    using queue_update_exact [OF inv1, of ?P "shard info" "gen_utime info"] two unfolding g by (auto split: if_splits)
  finally show ?thesis unfolding d by (cases a) auto
qed

text \<open>
  C30: Nobody waits for an account in vain: when a shard block is handled, a task with a receiver for
  an account keeps its subscription; if the account lies in the block's shard and its state can
  be read and loaded, the task's next poll returns exactly that state, and a receiver that is created
  after the block either gets that state or waits for a newer one, never an older one.
\<close>

theorem waiting_tasks_get_state:
  assumes "ready s" and "hm_wf (state_subscriptions s)"
    and "handle_shard_block env block s = (s', out, Inr ())"
    and "sb_info block = Inr info" and "sb_accounts block = Inr accounts"
    and "hm_get (state_subscriptions s) acc = Some sub" and "hm_get (receivers sub) rx = Some seen"
    and "seen \<le> watch_version sub" and "own_version sub \<le> watch_version sub"
  shows "\<exists>sub'. hm_get (state_subscriptions s') acc = Some sub' \<and> receivers sub' = receivers sub
    \<and> (contains_account (te_prefix_len env) (shard info) acc \<and> accounts acc = Inr state \<and> loadable env state \<longrightarrow>
        snd (poll_state rx acc (state_subscriptions s')) = Some (Inr state)
        \<and> snd (poll_state new acc (state_receiver new acc (state_subscriptions s'))) \<in> {None, Some (Inr state)})"
proof -
  obtain answers calls where out: "out = (answers, calls)" by (metis surj_pair)
  have subs: "state_subscriptions s' = List.map_filter (\<lambda>(acc, sub). map_option (Pair acc)
       (subscription_after env info accounts acc sub)) (state_subscriptions s)"
    using assms(4,5) by (auto intro: handle_shard_block_run [OF assms(1) assms(3) [unfolded out]])
  obtain sub1 where u: "update_status (te_observer_alive env) sub = (sub1, Alive)" "receivers sub1 = receivers sub"
      "watch_version sub1 = watch_version sub" "own_version sub1 = own_version sub"
    using assms(7) by (cases "receivers sub") (auto simp: update_status_def receiver_count_def Let_def)
  let ?sub = "if contains_account (te_prefix_len env) (shard info) acc then watch_update env accounts acc Alive sub1 else sub1"
  have get: "hm_get (state_subscriptions s') acc = Some ?sub"
    unfolding subs subscriptions_after_get [OF assms(2)] assms(6)
    by (simp add: subscription_after_def u)
  have rec: "receivers ?sub = receivers sub"
    by (simp add: watch_update_def u(2) split: sum.split)
  show ?thesis
  proof (intro exI [of _ ?sub] conjI impI)
    assume a: "contains_account (te_prefix_len env) (shard info) acc \<and> accounts acc = Inr state \<and> loadable env state"
    then have sub': "?sub = sub1\<lparr>watch_value := state, watch_version := Suc (watch_version sub)\<rparr>"
      by (simp add: watch_update_def u(3))
    show "snd (poll_state rx acc (state_subscriptions s')) = Some (Inr state)"
      using assms(7,8) unfolding poll_state_def get sub' by (simp add: u)
    show "snd (poll_state new acc (state_receiver new acc (state_subscriptions s'))) \<in> {None, Some (Inr state)}"
      unfolding poll_state_def state_receiver_def get sub' by (simp add: hm_simps u)
  qed (simp_all add: get rec)
qed

text \<open>
  Every task that waits for the shards is answered at most once, and stays registered until
  then, whatever blocks arrive in the meantime.
\<close>

theorem shard_awaiters_answered_once:
  "count (opened_ops ton_step ton_opened ops (ton_subscriber_new i q d cache)) c =
     count (ts_waiting (fst (run_ops ton_step ops (ton_subscriber_new i q d cache)))) c
     + count (mset (map fst (snd (run_ops ton_step ops (ton_subscriber_new i q d cache))))) c"
  by (rule shard_awaiters.each_opened_waits_or_is_answered) (simp_all add: ton_subscriber_new_def ts_inv_def ts_waiting_def)

subsection \<open>Witnesses\<close>

text \<open>
  A block at time 200 of the full shard, with one external message to the subscribed account; a task
  waits for the account, another one for the message, which has just expired.
\<close>

definition demo_ton_env :: ton_env where
  "demo_ton_env = \<lparr>te_prefix_len = (\<lambda>_. 0), te_with_prefix_slice = (\<lambda>_ _. Inl (Foreign ''prefix'')), te_preload = (\<lambda>_. Inr ()),
     te_observer_alive = (\<lambda>_. True), te_ton_feature = False, te_is_masterchain = (\<lambda>_. False),
     te_split = (\<lambda>s. Inr (s, s)), te_repr_hash = (\<lambda>c. c)\<rparr>"

definition demo_ton_info :: subscriber_block_info where
  "demo_ton_info = \<lparr>shard = \<lparr>workchain_id = 0, shard_prefix_with_tag = SHARD_FULL\<rparr>, after_merge = False, after_split = False,
     read_prev_ids = Inr [], gen_utime = 200, key_block = False\<rparr>"

definition demo_account_tx :: account_tx where
  "demo_account_tx = \<lparr>orig_status = AccStateActive, end_status = AccStateActive, action_spec_actions = Inr None,
     at_hash = [8], at_description = OrdinaryTx False,
     at_in_msg = Some ([7], Inr \<lparr>bm_info = ExtInMsgInfo, bm_body = None\<rparr>), at_out_msgs = []\<rparr>"

definition demo_ton_block :: shard_block where
  "demo_ton_block = \<lparr>sb_info = Inr demo_ton_info,
     sb_account_blocks = Inr (\<lambda>acc. Inr (if acc = [5] then Some [Inr demo_account_tx] else None)),
     sb_accounts = Inr (\<lambda>_. Inr None)\<rparr>"

definition demo_subscription :: state_subscription where
  "demo_subscription = \<lparr>watch_value = None, watch_version = 3, own_version = 2, receivers = [(0, 3)], transaction_subscriptions = [1]\<rparr>"

definition demo_ton :: ton_subscriber where
  "demo_ton = (ton_subscriber_new 0 (fst (add_message 4 [5] [7] 100 messages_queue_new))
     \<lparr>code_hashes = [], code_hashes_by_address = []\<rparr> [])
     \<lparr>ready := True, state_subscriptions := [([5], demo_subscription)]\<rparr>"

lemmas demo_ton_simps = demo_ton_env_def demo_ton_info_def demo_account_tx_def demo_ton_block_def demo_subscription_def
  demo_ton_def ton_subscriber_new_def add_message_def messages_queue_new_def Let_def

lemma demo_ton_handled: "\<exists>s' out. handle_shard_block demo_ton_env demo_ton_block demo_ton = (s', out, Inr ())"
  by (auto simp: handle_shard_block_def demo_ton_simps split: prod.split)

theorem block_answers_messages_witness:
  "\<exists>s' answers calls. handle_shard_block demo_ton_env demo_ton_block demo_ton = (s', (answers, calls), Inr ())
     \<and> (4, Delivered) \<in> set answers \<and> (4, Expired) \<notin> set answers"
proof -
  obtain s' answers calls where h: "handle_shard_block demo_ton_env demo_ton_block demo_ton = (s', (answers, calls), Inr ())"
    using demo_ton_handled by (metis surj_pair)
  have q: "queue_inv (ts_messages_queue demo_ton)"
    by (simp add: demo_ton_def ton_subscriber_new_def queue_inv_add)
  have entries: "queue_entries (ts_messages_queue demo_ton) = [(\<lparr>pm_account = [5], message_hash = [7]\<rparr>, \<lparr>tx = Some 4, expire_at = 100\<rparr>)]"
    by (simp add: demo_ton_simps)
  have "block_includes demo_ton_env demo_ton_info (\<lambda>acc. Inr (if acc = [5] then Some [Inr demo_account_tx] else None))
      (state_subscriptions demo_ton) \<lparr>pm_account = [5], message_hash = [7]\<rparr>"
    by (simp add: block_includes_def demo_ton_simps contains_account_def)
  with block_answers_messages [OF _ q h, of demo_ton_info "\<lambda>acc. Inr (if acc = [5] then Some [Inr demo_account_tx] else None)"]
  have "(4, Delivered) \<in> set answers" "(4, Expired) \<notin> set answers"
    unfolding entries by (auto simp: demo_ton_block_def demo_ton_def)
  with h show ?thesis by blast
qed

theorem waiting_tasks_get_state_witness:
  "\<exists>s' out. handle_shard_block demo_ton_env demo_ton_block demo_ton = (s', out, Inr ())
     \<and> snd (poll_state 0 [5] (state_subscriptions s')) = Some (Inr None)"
proof -
  obtain s' out where h: "handle_shard_block demo_ton_env demo_ton_block demo_ton = (s', out, Inr ())"
    using demo_ton_handled by blast
  from waiting_tasks_get_state [OF _ _ h, of demo_ton_info "\<lambda>_. Inr None" "[5]" demo_subscription 0 3 None 1] h show ?thesis
    by (auto simp: demo_ton_simps contains_account_def loadable_def hm_wf_def)
qed

end
