(* ===== verification/Staking_Contracts.thy ===== *)
theory Staking_Contracts
  imports Tx_Context
begin

section \<open>Staking contracts\<close>

text \<open>
  The staking part of \<open>src/engine/ton_contracts\<close> (models and getters), the events that
  \<open>src/engine/staking/mod.rs\<close> reads from transactions, and \<open>src/utils/tristate.rs\<close>. Unpacking tokens
  is third-party: the fields of \<open>staking_env\<close>. Accounts of all shards are the lookup
  \<open>find_in_shards\<close> gives.
\<close>

subsection \<open>\<open>Tristate\<close>\<close>

type_synonym tristate = u8

definition tristate_store :: "bool option \<Rightarrow> tristate \<Rightarrow> tristate" where
  "tristate_store data t = (case data of Some False \<Rightarrow> 0 | Some True \<Rightarrow> 1 | None \<Rightarrow> 2)"

definition tristate_new :: "bool option \<Rightarrow> tristate" where
  "tristate_new data = tristate_store data 0"

definition store_if_empty :: "bool \<Rightarrow> tristate \<Rightarrow> tristate" where
  "store_if_empty data t = (if t = 2 then (if data then 1 else 0) else t)"

definition tristate_load :: "tristate \<Rightarrow> bool option" where
  "tristate_load t = (if t = 0 then Some False else if t = 1 then Some True else None)"

definition tristate_valid :: "tristate \<Rightarrow> bool" where
  "tristate_valid t \<longleftrightarrow> t = 0 \<or> t = 1 \<or> t = 2"

lemma load_store [simp]: "tristate_load (tristate_store data t) = data"
  by (auto simp: tristate_load_def tristate_store_def split: option.split bool.split)

lemma load_new [simp]: "tristate_load (tristate_new data) = data"
  by (simp add: tristate_new_def)

lemma load_store_if_empty [simp]:
  "tristate_valid t \<Longrightarrow> tristate_load (store_if_empty data t) = (case tristate_load t of None \<Rightarrow> Some data | Some x \<Rightarrow> Some x)"
  by (auto simp: tristate_valid_def tristate_load_def store_if_empty_def)

lemma tristate_valid_intros [simp, wf_intros]:
  "tristate_valid (tristate_store data t)" "tristate_valid (tristate_new data)"
  "tristate_valid t \<Longrightarrow> tristate_valid (store_if_empty b t)"
  by (auto simp: tristate_valid_def tristate_store_def tristate_new_def store_if_empty_def split: option.split bool.split)

subsection \<open>Models\<close>

record user_data_reward_round =
  ur_reward_balance :: u128
  ur_reward_debt :: u128

record user_data_details =
  ud_token_balance :: u128
  relay_lock_until :: u32
  ud_current_version :: u32
  ud_reward_rounds :: "user_data_reward_round list"
  relay_eth_address :: eth_address
  eth_address_confirmed :: bool
  relay_ton_pubkey :: uint256
  ton_pubkey_confirmed :: bool
  slashed :: bool
  ud_root :: uint256
  ud_user :: uint256
  ud_dao_root :: uint256

record reward_round =
  account_reward_per_share :: uint256
  reward_tokens :: u128
  total_reward :: u128
  rr_start_time :: u32

record staking_details =
  sd_dao_root :: uint256
  bridge_event_config_eth_ton :: uint256
  bridge_event_config_ton_eth :: uint256
  sd_token_root :: uint256
  sd_token_wallet :: uint256
  sd_admin :: uint256
  sd_rescuer :: uint256
  sd_rewarder :: uint256
  sd_token_balance :: u128
  reward_token_balance :: u128
  last_reward_time :: u32
  sd_reward_rounds :: "reward_round list"
  emergency :: bool

record relay_config_details =
  relay_lock_time :: u32
  relay_round_time :: u32
  election_time :: u32
  time_before_election :: u32
  min_round_gap_time :: u32
  rcd_relays_count :: u16
  min_relay_count :: u16
  rcd_min_relay_deposit :: u128
  relay_initial_ton_deposit :: u128
  relay_reward_per_second :: u128
  user_reward_per_second :: u128

record relay_rounds_details =
  current_relay_round :: u32
  current_relay_round_start_time :: u32
  current_relay_round_end_time :: u32
  current_election_start_time :: u32
  current_election_ended :: bool

record relay_round_details =
  rrd_root :: uint256
  rrd_round_num :: u32
  ton_keys :: "uint256 list"
  eth_addrs :: "eth_address list"
  staker_addrs :: "uint256 list"
  staked_tokens :: "u128 list"
  relays_installed :: bool
  code_version :: u32

record relay_round_initialized_event =
  ri_round_num :: u32
  ri_round_start_time :: u32
  ri_round_end_time :: u32
  ri_round_addr :: uint256
  ri_relays_count :: u32
  ri_duplicate :: bool

record relay_config_updated_event =
  updated_config :: relay_config_details

record election_started_event =
  es_round_num :: u32
  election_start_time :: u32
  election_end_time :: u32
  election_addr :: uint256

record election_ended_event =
  ee_round_num :: u32
  relay_requests :: u32
  min_relays_ok :: bool

record ton_pubkey_confirmed_event =
  confirmed_ton_pubkey :: uint256

record eth_address_confirmed_event =
  confirmed_eth_addr :: eth_address

record deposit_processed_event =
  tokens_deposited :: u128
  new_balance :: u128

record relay_keys_updated_event =
  ku_ton_pubkey :: uint256
  ku_eth_address :: eth_address

record relay_membership_requested_event =
  mr_round_num :: u32
  mr_tokens :: u128
  mr_ton_pubkey :: uint256
  mr_eth_address :: eth_address
  lock_until :: u32

record staking_env =
  stk_tx :: tx_env
  unpack_user_data_details :: "tokens \<Rightarrow> user_data_details res"
  unpack_staking_details :: "tokens \<Rightarrow> staking_details res"
  unpack_relay_config_details :: "tokens \<Rightarrow> relay_config_details res"
  unpack_relay_rounds_details :: "tokens \<Rightarrow> relay_rounds_details res"
  unpack_relay_round_details :: "tokens \<Rightarrow> relay_round_details res"
  unpack_staker_addresses :: "tokens \<Rightarrow> uint256 list res"
  unpack_relay_round_initialized :: "tokens \<Rightarrow> relay_round_initialized_event res"
  unpack_relay_config_updated :: "tokens \<Rightarrow> relay_config_updated_event res"
  unpack_election_started :: "tokens \<Rightarrow> election_started_event res"
  unpack_election_ended :: "tokens \<Rightarrow> election_ended_event res"
  unpack_ton_pubkey_confirmed :: "tokens \<Rightarrow> ton_pubkey_confirmed_event res"
  unpack_eth_address_confirmed :: "tokens \<Rightarrow> eth_address_confirmed_event res"
  unpack_deposit_processed :: "tokens \<Rightarrow> deposit_processed_event res"
  unpack_relay_keys_updated :: "tokens \<Rightarrow> relay_keys_updated_event res"
  unpack_relay_membership_requested :: "tokens \<Rightarrow> relay_membership_requested_event res"

abbreviation stk_abi :: "staking_env \<Rightarrow> abi_env" where
  "stk_abi env \<equiv> tx_abi (stk_tx env)"

type_synonym all_accounts = "uint256 \<Rightarrow> existing_contract option res"

subsection \<open>Getters\<close>

definition staking_get_details :: "staking_env \<Rightarrow> existing_contract \<Rightarrow> staking_details res" where
  "staking_get_details env c =
     rbind (call_local (stk_abi env) c staking_contract_get_details [answer_id (stk_abi env)]) (unpack_staking_details env)"

definition get_relay_rounds_details :: "staking_env \<Rightarrow> existing_contract \<Rightarrow> relay_rounds_details res" where
  "get_relay_rounds_details env c =
     rbind (call_local (stk_abi env) c staking_contract_get_relay_rounds_details [answer_id (stk_abi env)])
       (unpack_relay_rounds_details env)"

definition get_relay_config :: "staking_env \<Rightarrow> existing_contract \<Rightarrow> relay_config_details res" where
  "get_relay_config env c =
     rbind (call_local (stk_abi env) c staking_contract_get_relay_config [answer_id (stk_abi env)])
       (unpack_relay_config_details env)"

definition get_relay_round_address :: "staking_env \<Rightarrow> existing_contract \<Rightarrow> u32 \<Rightarrow> uint256 res" where
  "get_relay_round_address env c round_num =
     rbind (rbind (call_local (stk_abi env) c staking_contract_get_relay_round_address
         [answer_id (stk_abi env), (''round_num'', TokenUint (unat round_num) 32)])
       (unpack_address (stk_abi env))) (\<lambda>a. Inr (addr_hash a))"

definition get_election_address :: "staking_env \<Rightarrow> existing_contract \<Rightarrow> u32 \<Rightarrow> uint256 res" where
  "get_election_address env c round_num =
     rbind (rbind (call_local (stk_abi env) c staking_contract_get_election_address
         [answer_id (stk_abi env), (''round_num'', TokenUint (unat round_num) 32)])
       (unpack_address (stk_abi env))) (\<lambda>a. Inr (addr_hash a))"

definition get_user_data_address :: "staking_env \<Rightarrow> existing_contract \<Rightarrow> uint256 \<Rightarrow> uint256 res" where
  "get_user_data_address env c user =
     rbind (rbind (call_local (stk_abi env) c staking_contract_get_user_data_address
         [answer_id (stk_abi env), (''user'', TokenAddrStd \<lparr>addr_workchain = 0, addr_hash = user\<rparr>)])
       (unpack_address (stk_abi env))) (\<lambda>a. Inr (addr_hash a))"

definition elections_staker_addrs :: "staking_env \<Rightarrow> existing_contract \<Rightarrow> uint256 list res" where
  "elections_staker_addrs env c =
     rbind (call_local (stk_abi env) c elections_contract_staker_addrs []) (unpack_staker_addresses env)"

definition relay_round_get_details :: "staking_env \<Rightarrow> existing_contract \<Rightarrow> relay_round_details res" where
  "relay_round_get_details env c =
     rbind (call_local (stk_abi env) c relay_round_contract_get_details [answer_id (stk_abi env)])
       (unpack_relay_round_details env)"

definition has_unclaimed_reward :: "staking_env \<Rightarrow> existing_contract \<Rightarrow> uint256 \<Rightarrow> bool res" where
  "has_unclaimed_reward env c staker_addr =
     rbind (call_local (stk_abi env) c relay_round_contract_has_unclaimed_reward
         [answer_id (stk_abi env), (''staker_addr'', TokenAddrStd \<lparr>addr_workchain = 0, addr_hash = staker_addr\<rparr>)])
       (unpack_bool (stk_abi env))"

definition relay_round_end_time :: "staking_env \<Rightarrow> existing_contract \<Rightarrow> u32 res" where
  "relay_round_end_time env c =
     rbind (call_local (stk_abi env) c relay_round_contract_end_time []) (unpack_u32 (stk_abi env))"

definition user_data_get_details :: "staking_env \<Rightarrow> existing_contract \<Rightarrow> user_data_details res" where
  "user_data_get_details env c =
     rbind (call_local (stk_abi env) c user_data_contract_get_details [answer_id (stk_abi env)])
       (unpack_user_data_details env)"

text \<open>
  A library that refuses every call that is not well typed, for the staking contracts' getters too.
\<close>

definition checked_staking_env ::
  "(string \<Rightarrow> param_type) \<Rightarrow> (string \<Rightarrow> (string \<times> param_type) list) \<Rightarrow> staking_env \<Rightarrow> staking_env"
where
  "checked_staking_env known models env =
     env\<lparr>stk_tx := (stk_tx env)\<lparr>tx_abi := checked_env known models (stk_abi env)\<rparr>\<rparr>"

lemmas staking_getter_functions =
  staking_contract_get_details_def staking_contract_get_relay_rounds_details_def
  staking_contract_get_relay_config_def staking_contract_get_relay_round_address_def
  staking_contract_get_election_address_def staking_contract_get_user_data_address_def
  elections_contract_staker_addrs_def relay_round_contract_get_details_def
  relay_round_contract_has_unclaimed_reward_def relay_round_contract_end_time_def user_data_contract_get_details_def

lemma staking_getters_checked:
  assumes "answer_id (stk_abi env) = (''answerId'', TokenUint n 32)" and "n < 2 ^ 32"
  shows "staking_get_details (checked_staking_env known models env) = staking_get_details env"
    and "get_relay_rounds_details (checked_staking_env known models env) = get_relay_rounds_details env"
    and "get_relay_config (checked_staking_env known models env) = get_relay_config env"
    and "get_relay_round_address (checked_staking_env known models env) = get_relay_round_address env"
    and "get_election_address (checked_staking_env known models env) = get_election_address env"
    and "get_user_data_address (checked_staking_env known models env) = get_user_data_address env"
    and "elections_staker_addrs (checked_staking_env known models env) = elections_staker_addrs env"
    and "relay_round_get_details (checked_staking_env known models env) = relay_round_get_details env"
    and "has_unclaimed_reward (checked_staking_env known models env) = has_unclaimed_reward env"
    and "relay_round_end_time (checked_staking_env known models env) = relay_round_end_time env"
    and "user_data_get_details (checked_staking_env known models env) = user_data_get_details env"
proof -
  have small: "unat (num :: u32) < 2 ^ 32" for num using unsigned_less [of num] by simp
  note call = checked_staking_env_def checked_calls tokens_match_def function_params_def staking_getter_functions
  show "staking_get_details (checked_staking_env known models env) = staking_get_details env"
    "get_relay_rounds_details (checked_staking_env known models env) = get_relay_rounds_details env"
    "get_relay_config (checked_staking_env known models env) = get_relay_config env"
    "elections_staker_addrs (checked_staking_env known models env) = elections_staker_addrs env"
    "relay_round_get_details (checked_staking_env known models env) = relay_round_get_details env"
    "relay_round_end_time (checked_staking_env known models env) = relay_round_end_time env"
    "user_data_get_details (checked_staking_env known models env) = user_data_get_details env"
    using assms
    by (simp_all add: fun_eq_iff call staking_get_details_def get_relay_rounds_details_def get_relay_config_def
        elections_staker_addrs_def relay_round_get_details_def relay_round_end_time_def user_data_get_details_def)
  show "get_relay_round_address (checked_staking_env known models env) = get_relay_round_address env"
    "get_election_address (checked_staking_env known models env) = get_election_address env"
    "get_user_data_address (checked_staking_env known models env) = get_user_data_address env"
    "has_unclaimed_reward (checked_staking_env known models env) = has_unclaimed_reward env"
    using assms small
    by (simp_all add: fun_eq_iff call get_relay_round_address_def get_election_address_def
        get_user_data_address_def has_unclaimed_reward_def)
qed

subsection \<open>Round state\<close>

datatype elections_state = NotStarted u32 | Started u32 u32 | Finished

record round_state =
  rs_number :: u32
  rs_elections_state :: elections_state
  next_elections_account :: uint256
  min_relay_deposit :: u128

definition elections_state_of :: "relay_rounds_details \<Rightarrow> relay_config_details \<Rightarrow> elections_state" where
  "elections_state_of details cfg =
     (if current_election_start_time details = 0 \<and> current_election_ended details then Finished
      else if current_election_start_time details = 0
        then NotStarted (current_relay_round_start_time details + time_before_election cfg)
      else Started (current_election_start_time details) (current_election_start_time details + election_time cfg))"

definition get_round_state :: "staking_env \<Rightarrow> existing_contract \<Rightarrow> round_state res" where
  "get_round_state env c =
     rbind (with_context ''Failed to get relay config'' (get_relay_config env c)) (\<lambda>cfg.
     rbind (with_context ''Failed to get relay_rounds_details'' (get_relay_rounds_details env c)) (\<lambda>details.
     rbind (with_context ''Failed to get next election address''
         (get_election_address env c (current_relay_round details + 1))) (\<lambda>next.
       Inr \<lparr>rs_number = current_relay_round details, rs_elections_state = elections_state_of details cfg,
         next_elections_account = next, min_relay_deposit = rcd_min_relay_deposit cfg\<rparr>)))"

definition get_eth_bridge_configuration_details ::
  "staking_env \<Rightarrow> all_accounts \<Rightarrow> existing_contract \<Rightarrow> eth_ton_event_configuration event_configuration_details res"
where
  "get_eth_bridge_configuration_details env accounts c =
     rbind (with_context ''Failed to get staking details'' (staking_get_details env c)) (\<lambda>details.
     rbind (accounts (bridge_event_config_eth_ton details)) (\<lambda>found.
     rbind (ok_or (Context ''Bridge ETH event configuration not found'') found) (\<lambda>configuration.
       with_context ''Failed to get ETH bridge configuration details''
         (eth_ton_configuration_details (stk_abi env) configuration))))"

subsection \<open>Events\<close>

datatype staking_event =
    ElectionStarted election_started_event
  | ElectionEnded election_ended_event
  | RelayRoundInitialized relay_round_initialized_event
  | RelayConfigUpdated relay_config_updated_event

datatype user_data_event =
    RelayKeysUpdated relay_keys_updated_event
  | TonPubkeyConfirmed ton_pubkey_confirmed_event
  | EthAddressConfirmed eth_address_confirmed_event
  | RelayMembershipRequested relay_membership_requested_event
  | DepositProcessed deposit_processed_event

text \<open>\<open>parse_tokens!\<close>: an event that cannot be decoded or unpacked leaves the result as it was.\<close>

definition parse_tokens ::
  "staking_env \<Rightarrow> abi_event \<Rightarrow> (tokens \<Rightarrow> 'p res) \<Rightarrow> ('p \<Rightarrow> 'e) \<Rightarrow> cell \<Rightarrow> 'e option"
where
  "parse_tokens env event unpack matched body =
     (case rbind (decode_event_input (stk_tx env) event body) unpack of
        Inr parsed \<Rightarrow> Some (matched parsed) | Inl e \<Rightarrow> None)"

definition parse_staking_event :: "staking_env \<Rightarrow> u32 \<times> cell \<Rightarrow> staking_event option" where
  "parse_staking_event env call =
     (case call of (i, body) \<Rightarrow>
        if i = event_input_id (stk_tx env) staking_contract_election_started
        then parse_tokens env staking_contract_election_started (unpack_election_started env) ElectionStarted body
        else if i = event_input_id (stk_tx env) staking_contract_election_ended
        then parse_tokens env staking_contract_election_ended (unpack_election_ended env) ElectionEnded body
        else if i = event_input_id (stk_tx env) staking_contract_relay_round_initialized
        then parse_tokens env staking_contract_relay_round_initialized (unpack_relay_round_initialized env)
               RelayRoundInitialized body
        else if i = event_input_id (stk_tx env) staking_contract_relay_config_updated
        then parse_tokens env staking_contract_relay_config_updated (unpack_relay_config_updated env)
               RelayConfigUpdated body
        else None)"

definition read_staking_event :: "staking_env \<Rightarrow> tx_context \<Rightarrow> (round_state \<times> staking_event) option" where
  "read_staking_event env ctx =
     (case last_parsed (parse_staking_event env) (iterate_events (stk_tx env) ctx) of
        None \<Rightarrow> None
      | Some event \<Rightarrow>
          (case get_account_state ctx of
             Inl e \<Rightarrow> None
           | Inr contract \<Rightarrow>
               (case get_round_state env contract of
                  Inl e \<Rightarrow> None
                | Inr state \<Rightarrow> Some (state, event))))"

definition parse_user_data_event :: "staking_env \<Rightarrow> u32 \<times> cell \<Rightarrow> user_data_event option" where
  "parse_user_data_event env call =
     (case call of (i, body) \<Rightarrow>
        if i = event_input_id (stk_tx env) user_data_contract_relay_keys_updated
        then parse_tokens env user_data_contract_relay_keys_updated (unpack_relay_keys_updated env) RelayKeysUpdated body
        else if i = event_input_id (stk_tx env) user_data_contract_ton_pubkey_confirmed
        then parse_tokens env user_data_contract_ton_pubkey_confirmed (unpack_ton_pubkey_confirmed env)
               TonPubkeyConfirmed body
        else if i = event_input_id (stk_tx env) user_data_contract_eth_address_confirmed
        then parse_tokens env user_data_contract_eth_address_confirmed (unpack_eth_address_confirmed env)
               EthAddressConfirmed body
        else if i = event_input_id (stk_tx env) user_data_contract_relay_membership_requested
        then parse_tokens env user_data_contract_relay_membership_requested (unpack_relay_membership_requested env)
               RelayMembershipRequested body
        else if i = event_input_id (stk_tx env) user_data_contract_deposit_processed
        then parse_tokens env user_data_contract_deposit_processed (unpack_deposit_processed env) DepositProcessed body
        else None)"

definition read_user_data_event :: "staking_env \<Rightarrow> tx_context \<Rightarrow> user_data_event option" where
  "read_user_data_event env ctx = last_parsed (parse_user_data_event env) (iterate_events (stk_tx env) ctx)"

subsection \<open>Properties\<close>

text \<open>
  C25: Every getter that calls a function of a contract by its ABI, those of the staking contracts included, passes the
  inputs the function's signature declares, in their order, under their names and with their types: a library that
  refuses every other call gives the same results. (The two jetton getters run TVM get methods, which have no ABI.)
\<close>

theorem getter_calls_well_typed:
  assumes "answer_id (stk_abi env) = (''answerId'', TokenUint n 32)" and "n < 2 ^ 32"
    and "known ''EventVote'' = UintType 8"
  shows "status (checked_env known models (stk_abi env)) = status (stk_abi env)
    \<and> round_number (checked_env known models (stk_abi env)) = round_number (stk_abi env)
    \<and> created_at (checked_env known models (stk_abi env)) = created_at (stk_abi env)
    \<and> get_voters (checked_env known models (stk_abi env)) = get_voters (stk_abi env)
    \<and> get_api_version (checked_env known models (stk_abi env)) = get_api_version (stk_abi env)
    \<and> eth_ton_event_init_data_of (checked_env known models (stk_abi env)) = eth_ton_event_init_data_of (stk_abi env)
    \<and> eth_ton_event_decoded_data_of (checked_env known models (stk_abi env)) = eth_ton_event_decoded_data_of (stk_abi env)
    \<and> ton_eth_event_init_data_of (checked_env known models (stk_abi env)) = ton_eth_event_init_data_of (stk_abi env)
    \<and> ton_eth_event_decoded_data_of (checked_env known models (stk_abi env)) = ton_eth_event_decoded_data_of (stk_abi env)
    \<and> sol_ton_event_init_data_of (checked_env known models (stk_abi env)) = sol_ton_event_init_data_of (stk_abi env)
    \<and> ton_sol_event_init_data_of (checked_env known models (stk_abi env)) = ton_sol_event_init_data_of (stk_abi env)
    \<and> get_type (checked_env known models (stk_abi env)) = get_type (stk_abi env)
    \<and> get_flags (checked_env known models (stk_abi env)) = get_flags (stk_abi env)
    \<and> eth_ton_configuration_details (checked_env known models (stk_abi env)) = eth_ton_configuration_details (stk_abi env)
    \<and> ton_eth_configuration_details (checked_env known models (stk_abi env)) = ton_eth_configuration_details (stk_abi env)
    \<and> sol_ton_configuration_details (checked_env known models (stk_abi env)) = sol_ton_configuration_details (stk_abi env)
    \<and> ton_sol_configuration_details (checked_env known models (stk_abi env)) = ton_sol_configuration_details (stk_abi env)
    \<and> connector_counter (checked_env known models (stk_abi env)) = connector_counter (stk_abi env)
    \<and> bridge_get_details (checked_env known models (stk_abi env)) = bridge_get_details (stk_abi env)
    \<and> derive_connector_address (checked_env known models (stk_abi env)) = derive_connector_address (stk_abi env)
    \<and> connector_get_details (checked_env known models (stk_abi env)) = connector_get_details (stk_abi env)
    \<and> wallet_of (checked_env known models (stk_abi env)) = wallet_of (stk_abi env)
    \<and> token_wallet_root (checked_env known models (stk_abi env)) = token_wallet_root (stk_abi env)
    \<and> staking_get_details (checked_staking_env known models env) = staking_get_details env
    \<and> get_relay_rounds_details (checked_staking_env known models env) = get_relay_rounds_details env
    \<and> get_relay_config (checked_staking_env known models env) = get_relay_config env
    \<and> get_relay_round_address (checked_staking_env known models env) = get_relay_round_address env
    \<and> get_election_address (checked_staking_env known models env) = get_election_address env
    \<and> get_user_data_address (checked_staking_env known models env) = get_user_data_address env
    \<and> elections_staker_addrs (checked_staking_env known models env) = elections_staker_addrs env
    \<and> relay_round_get_details (checked_staking_env known models env) = relay_round_get_details env
    \<and> has_unclaimed_reward (checked_staking_env known models env) = has_unclaimed_reward env
    \<and> relay_round_end_time (checked_staking_env known models env) = relay_round_end_time env
    \<and> user_data_get_details (checked_staking_env known models env) = user_data_get_details env"
  unfolding staking_getters_checked [OF assms(1,2)]
  by (simp only: contract_getters_checked [where abi = "stk_abi env" and n = n and known = known, OF assms] simp_thms)

text \<open>Constant answers, for the witnesses.\<close>

definition demo_staking_env :: staking_env where
  "demo_staking_env = \<lparr>stk_tx = \<lparr>tx_abi = demo_abi, read_function_id = (\<lambda>_. Inr 0), function_input_id = (\<lambda>_. 0),
       function_output_id = (\<lambda>_. 0), event_input_id = (\<lambda>_. 0), decode_function_input = (\<lambda>_ _. Inr []),
       decode_function_output = (\<lambda>_ _. Inr []), decode_event_input = (\<lambda>_ _. Inr []),
       unpack_headers = (\<lambda>b. Inr (None, b)),
       unpack_connector_deployed = (\<lambda>_. Inl (Foreign ''InvalidAbi''))\<rparr>,
     unpack_user_data_details = (\<lambda>_. Inr \<lparr>ud_token_balance = 4, relay_lock_until = 0, ud_current_version = 0,
       ud_reward_rounds = [], relay_eth_address = [5], eth_address_confirmed = True, relay_ton_pubkey = [6],
       ton_pubkey_confirmed = False, slashed = False, ud_root = [], ud_user = [], ud_dao_root = []\<rparr>),
     unpack_staking_details = (\<lambda>_. Inl (Foreign ''InvalidAbi'')),
     unpack_relay_config_details = (\<lambda>_. Inr \<lparr>relay_lock_time = 0, relay_round_time = 0, election_time = 9,
       time_before_election = 0, min_round_gap_time = 0, rcd_relays_count = 1, min_relay_count = 1,
       rcd_min_relay_deposit = 5, relay_initial_ton_deposit = 0, relay_reward_per_second = 0,
       user_reward_per_second = 0\<rparr>),
     unpack_relay_rounds_details = (\<lambda>_. Inr \<lparr>current_relay_round = 2, current_relay_round_start_time = 0,
       current_relay_round_end_time = 0, current_election_start_time = 0, current_election_ended = False\<rparr>),
     unpack_relay_round_details = (\<lambda>_. Inr \<lparr>rrd_root = [], rrd_round_num = 2, ton_keys = [], eth_addrs = [],
       staker_addrs = [[2]], staked_tokens = [], relays_installed = True, code_version = 0\<rparr>),
     unpack_staker_addresses = (\<lambda>_. Inr [[2]]),
     unpack_relay_round_initialized = (\<lambda>_. Inl (Foreign ''InvalidAbi'')),
     unpack_relay_config_updated = (\<lambda>_. Inl (Foreign ''InvalidAbi'')),
     unpack_election_started = (\<lambda>_. Inl (Foreign ''InvalidAbi'')),
     unpack_election_ended = (\<lambda>_. Inl (Foreign ''InvalidAbi'')),
     unpack_ton_pubkey_confirmed = (\<lambda>_. Inl (Foreign ''InvalidAbi'')),
     unpack_eth_address_confirmed = (\<lambda>_. Inl (Foreign ''InvalidAbi'')),
     unpack_deposit_processed = (\<lambda>_. Inl (Foreign ''InvalidAbi'')),
     unpack_relay_keys_updated = (\<lambda>_. Inl (Foreign ''InvalidAbi'')),
     unpack_relay_membership_requested = (\<lambda>_. Inl (Foreign ''InvalidAbi''))\<rparr>"

theorem getter_calls_well_typed_witness:
  "get_user_data_address (checked_staking_env (\<lambda>_. UintType 8) (\<lambda>_. []) demo_staking_env) demo_contract [4] = Inr [1]
    \<and> get_voters (checked_env (\<lambda>_. UintType 8) (\<lambda>_. []) (stk_abi demo_staking_env)) demo_contract EmptyVote = Inr [[7]]"
proof -
  have "answer_id (stk_abi demo_staking_env) = (''answerId'', TokenUint 0 32)"
    by (simp add: demo_staking_env_def demo_abi_def)
  note checked = getter_calls_well_typed [OF this, of "\<lambda>_. UintType 8" "\<lambda>_. []"]
  have "get_user_data_address demo_staking_env demo_contract [4] = Inr [1]"
    "get_voters (stk_abi demo_staking_env) demo_contract EmptyVote = Inr [[7]]"
    by (simp_all add: get_user_data_address_def get_voters_def call_local_def run_local_def demo_staking_env_def
        demo_abi_def demo_address_def)
  with checked show ?thesis by simp
qed

end
