(* ===== verification/Staking.thy ===== *)
theory Staking
  imports Staking_Contracts Delivery
begin

section \<open>Staking\<close>

text \<open>
  \<open>src/engine/staking/mod.rs\<close>: the relay's part in elections and rounds. A \<open>tokio::sync::Notify\<close> of
  which only \<open>notify_waiters\<close> is called is the number of these calls, and a \<open>notified()\<close> future is
  the number at its creation: it is ready when the counter has moved (documented: a future receives
  the wake-ups from its creation on). Events come as the subscriber reads them; what the tasks do at
  an await is a step relation over the shared state, so every interleaving is covered.
\<close>

record staking_context =
  staker_account :: uint256
  ignore_elections :: bool
  keystore_ton_key :: uint256
  keystore_eth_address :: eth_address

record staking =
  user_data_balance :: u128
  current_state :: round_state
  relay_round_started_notify :: nat
  elections_start_notify :: nat
  elections_end_notify :: nat
  relay_config_updated_notify :: nat
  user_data_balance_changed_notify :: nat
  participates_in_round :: tristate
  elected :: tristate
  staking_account :: uint256
  user_data_account :: uint256

subsection \<open>Confirming the relay's keys\<close>

datatype confirmation_action =
    ConfirmTonAccount unsigned_message
  | VerifyEthAddress u32 uint256 eth_address \<comment> \<open>chain, staker, verifier\<close>

text \<open>Which of the two notifications the listener gives for an event.\<close>

definition confirms_ton :: "uint256 \<Rightarrow> user_data_event \<Rightarrow> bool" where
  "confirms_ton key event = (case event of TonPubkeyConfirmed e \<Rightarrow> confirmed_ton_pubkey e = key | _ \<Rightarrow> False)"

definition confirms_eth :: "eth_address \<Rightarrow> user_data_event \<Rightarrow> bool" where
  "confirms_eth address event = (case event of EthAddressConfirmed e \<Rightarrow> confirmed_eth_addr e = address | _ \<Rightarrow> False)"

text \<open>
  \<open>ensure_verified\<close>, given the results of delivering and of verifying (\<open>None\<close>: still running) and the
  events received until now. The result is \<open>None\<close> while the code waits.
\<close>

definition ensure_verified ::
  "staking_env \<Rightarrow> staking_context \<Rightarrow> (unsigned_message \<Rightarrow> unit res option) \<Rightarrow>
     (u32 \<Rightarrow> (uint256 \<Rightarrow> eth_address \<Rightarrow> unit res option) option) \<Rightarrow> user_data_event list \<Rightarrow>
     uint256 \<Rightarrow> eth_ton_event_configuration event_configuration_details \<Rightarrow> existing_contract \<Rightarrow>
     confirmation_action list \<times> unit res option"
where
  "ensure_verified env ctx deliver get_subscriber events account_id configuration c =
     (case with_context ''Failed to get UserData details'' (user_data_get_details env c) of
        Inl e \<Rightarrow> ([], Some (Inl e))
      | Inr details \<Rightarrow>
          if relay_eth_address details \<noteq> keystore_eth_address ctx then ([], Some (Inl UserDataEthAddressMismatch))
          else if relay_ton_pubkey details \<noteq> keystore_ton_key ctx then ([], Some (Inl UserDataTonPublicKeyMismatch))
          else
            (let message = unsigned_message_new user_data_contract_confirm_ton_account account_id;
                 ton_steps = (if ton_pubkey_confirmed details then [] else [ConfirmTonAccount message]);
                 ton_result = (if ton_pubkey_confirmed details then Some (Inr ())
                   else map_option (with_context ''Failed confirming TON public key'') (deliver message))
             in case ton_result of
                  None \<Rightarrow> (ton_steps, None)
                | Some (Inl e) \<Rightarrow> (ton_steps, Some (Inl e))
                | Some (Inr _) \<Rightarrow>
                    (let chain = etc_chain_id (network_configuration configuration);
                         verifier = etc_event_emitter (network_configuration configuration);
                         joined = (if (ton_pubkey_confirmed details \<or> list_ex (confirms_ton (keystore_ton_key ctx)) events)
                             \<and> (eth_address_confirmed details \<or> list_ex (confirms_eth (keystore_eth_address ctx)) events)
                           then Some (Inr ()) else None)
                     in if eth_address_confirmed details then (ton_steps, joined)
                        else (case get_subscriber chain of
                                None \<Rightarrow> (ton_steps, Some (Inl RequiredEthNetworkNotFound))
                              | Some verify \<Rightarrow>
                                  (ton_steps @ [VerifyEthAddress chain (staker_account ctx) verifier],
                                   case verify (staker_account ctx) verifier of
                                     None \<Rightarrow> None
                                   | Some (Inl e) \<Rightarrow> Some (Inl (Context ''Failed confirming ETH address''))
                                   | Some (Inr _) \<Rightarrow> joined)))))"

definition ensure_user_data_confirmed ::
  "staking_env \<Rightarrow> staking_context \<Rightarrow> (unsigned_message \<Rightarrow> unit res option) \<Rightarrow>
     (u32 \<Rightarrow> (uint256 \<Rightarrow> eth_address \<Rightarrow> unit res option) option) \<Rightarrow> user_data_event list \<Rightarrow>
     all_accounts res \<Rightarrow> uint256 \<Rightarrow> confirmation_action list \<times> unit res option"
where
  "ensure_user_data_confirmed env ctx deliver get_subscriber events shard_accounts staking =
     (case rbind shard_accounts (\<lambda>accounts.
           rbind (accounts staking) (\<lambda>found.
           rbind (ok_or (Context ''Staking contract not found'') found) (\<lambda>staking_contract.
           rbind (get_eth_bridge_configuration_details env accounts staking_contract) (\<lambda>configuration.
           rbind (get_user_data_address env staking_contract (staker_account ctx)) (\<lambda>account_id.
           rbind (accounts account_id) (\<lambda>found.
           rbind (ok_or (Context ''User data account not found'') found) (\<lambda>user_data.
             Inr (account_id, configuration, user_data)))))))) of
        Inl e \<Rightarrow> ([], Some (Inl e))
      | Inr (account_id, configuration, user_data) \<Rightarrow>
          ensure_verified env ctx deliver get_subscriber events account_id configuration user_data)"

subsection \<open>The initial state\<close>

text \<open>
  The loop at the start: the accounts of all shards are loaded again until the contract of the current
  round exists and has its relays. \<open>None\<close> while it goes on.
\<close>

fun find_relay_round ::
  "staking_env \<Rightarrow> staking_context \<Rightarrow> uint256 \<Rightarrow> all_accounts res list \<Rightarrow>
     (all_accounts \<times> relay_round_details \<times> round_state \<times> uint256) res option"
where
  "find_relay_round env ctx staking [] = None"
| "find_relay_round env ctx staking (shard_accounts # later) =
     (case rbind shard_accounts (\<lambda>accounts.
           rbind (accounts staking) (\<lambda>found.
           rbind (ok_or (Context ''Staking contract not found'') found) (\<lambda>staking_contract.
           rbind (with_context ''Current relay round not found'' (get_round_state env staking_contract)) (\<lambda>state.
           rbind (with_context ''Failed to get current relay round address''
               (get_relay_round_address env staking_contract (rs_number state))) (\<lambda>round_address.
           rbind (accounts round_address) (\<lambda>found.
             (case found of
                None \<Rightarrow> Inr None
              | Some round_contract \<Rightarrow>
                  rbind (with_context ''Failed to get relay round details'' (relay_round_get_details env round_contract))
                    (\<lambda>details. if \<not> relays_installed details then Inr None
                      else rbind (with_context ''User data account not found''
                          (get_user_data_address env staking_contract (staker_account ctx)))
                        (\<lambda>user_data. Inr (Some (accounts, details, state, user_data)))))))))))  of
        Inl e \<Rightarrow> Some (Inl e)
      | Inr None \<Rightarrow> find_relay_round env ctx staking later
      | Inr (Some r) \<Rightarrow> Some (Inr r))"

definition check_elected :: "staking_env \<Rightarrow> staking_context \<Rightarrow> all_accounts \<Rightarrow> uint256 \<Rightarrow> bool res" where
  "check_elected env ctx accounts elections_account =
     rbind (accounts elections_account) (\<lambda>found.
     rbind (ok_or (Context ''Next elections contract not found'') found) (\<lambda>elections_contract.
     rbind (with_context ''Failed to get staker addresses from next elections contract''
         (elections_staker_addrs env elections_contract)) (\<lambda>addrs.
       Inr (staker_account ctx \<in> set addrs))))"

text \<open>Whether to vote, and whether the relay was elected.\<close>

definition elections_participation ::
  "staking_env \<Rightarrow> staking_context \<Rightarrow> all_accounts \<Rightarrow> round_state \<Rightarrow> (bool \<times> bool option) res"
where
  "elections_participation env ctx accounts state =
     (case rs_elections_state state of
        NotStarted _ \<Rightarrow> Inr (False, None)
      | Started _ _ \<Rightarrow> rbind (check_elected env ctx accounts (next_elections_account state)) (\<lambda>elected.
          Inr (\<not> ignore_elections ctx \<and> \<not> elected, Some elected))
      | Finished \<Rightarrow> rbind (check_elected env ctx accounts (next_elections_account state)) (\<lambda>elected.
          Inr (False, Some elected)))"

definition staking_object ::
  "u128 \<Rightarrow> round_state \<Rightarrow> bool \<Rightarrow> bool option \<Rightarrow> uint256 \<Rightarrow> uint256 \<Rightarrow> staking"
where
  "staking_object tokens_held state participates was_elected staking user_data =
     \<lparr>user_data_balance = tokens_held, current_state = state, relay_round_started_notify = 0,
       elections_start_notify = 0, elections_end_notify = 0, relay_config_updated_notify = 0,
       user_data_balance_changed_notify = 0, participates_in_round = tristate_new (Some participates),
       elected = tristate_new was_elected, staking_account = staking, user_data_account = user_data\<rparr>"

text \<open>
  \<open>Staking::new\<close> up to the subscriptions: the first step is \<open>ensure_user_data_confirmed\<close>, whose outcome
  is an argument. The flag is \<open>should_vote\<close>.
\<close>

definition staking_new ::
  "staking_env \<Rightarrow> staking_context \<Rightarrow> unit res option \<Rightarrow> all_accounts res list \<Rightarrow> uint256 \<Rightarrow>
     (staking \<times> bool) res option"
where
  "staking_new env ctx confirmed snapshots staking =
     (case confirmed of
        None \<Rightarrow> None
      | Some (Inl e) \<Rightarrow> Some (Inl (Context ''Failed to ensure that user data is confirmed''))
      | Some (Inr _) \<Rightarrow>
          (case find_relay_round env ctx staking snapshots of
             None \<Rightarrow> None
           | Some (Inl e) \<Rightarrow> Some (Inl e)
           | Some (Inr (accounts, details, state, user_data)) \<Rightarrow> Some (
               rbind (accounts user_data) (\<lambda>found.
               rbind (ok_or (Context ''User data account not found'') found) (\<lambda>user_data_contract.
               rbind (with_context ''Failed to get user data details''
                   (user_data_get_details env user_data_contract)) (\<lambda>user_data_details.
               rbind (elections_participation env ctx accounts state) (\<lambda>(should_vote, was_elected).
                 Inr (staking_object (ud_token_balance user_data_details) state
                   (staker_account ctx \<in> set (staker_addrs details)) was_elected staking user_data,
                   should_vote))))))))"

subsection \<open>Rewards\<close>

definition delay_until :: "u64 \<Rightarrow> u32 \<Rightarrow> u64" where
  "delay_until now time = (if ucast time \<le> now then 0 else ucast time - now)"

definition ROUND_OFFSET :: u64 where
  "ROUND_OFFSET = 10"

definition reward_delay :: "u64 \<Rightarrow> u32 \<Rightarrow> u64" where
  "reward_delay now end_time = delay_until now end_time + ROUND_OFFSET"

definition reward_message :: "(string \<Rightarrow> (string \<times> param_type) list) \<Rightarrow> u32 \<Rightarrow> staking \<Rightarrow> unsigned_message res" where
  "reward_message models relay_round s =
     arg models (TokenUint (unat relay_round) 32)
       (unsigned_message_new user_data_contract_get_reward_for_relay_round (user_data_account s))"

definition become_relay_message :: "staking \<Rightarrow> unsigned_message" where
  "become_relay_message s = unsigned_message_new user_data_contract_become_relay_next_round (user_data_account s)"

definition start_election_message :: "staking \<Rightarrow> unsigned_message" where
  "start_election_message s = unsigned_message_new staking_contract_start_election_on_new_round (staking_account s)"

definition end_election_message :: "staking \<Rightarrow> unsigned_message" where
  "end_election_message s = unsigned_message_new staking_contract_end_election (staking_account s)"

text \<open>
  \<open>try_collect_reward\<close>: the task to spawn, if any. A round whose reward cannot be checked is
  collected nevertheless; only the address computation is an error of the whole.
\<close>

definition try_collect_reward ::
  "staking_env \<Rightarrow> staking_context \<Rightarrow> all_accounts \<Rightarrow> existing_contract \<Rightarrow> u32 \<Rightarrow> (u32 \<times> u32) option res"
where
  "try_collect_reward env ctx accounts staking_contract relay_round =
     rbind (with_context ''Failed to compute relay round address''
         (get_relay_round_address env staking_contract relay_round)) (\<lambda>round_address.
       (case accounts round_address of
          Inl e \<Rightarrow> Inr None
        | Inr None \<Rightarrow> Inr None
        | Inr (Some round_contract) \<Rightarrow>
            if has_unclaimed_reward env round_contract (staker_account ctx) = Inr False then Inr None
            else (case relay_round_end_time env round_contract of
                    Inl e \<Rightarrow> Inr None
                  | Inr end_time \<Rightarrow> Inr (Some (relay_round, end_time)))))"

fun collect_rewards :: "(u32 \<Rightarrow> (u32 \<times> u32) option res) \<Rightarrow> u32 list \<Rightarrow> (u32 \<times> u32) list \<times> unit res" where
  "collect_rewards collect [] = ([], Inr ())"
| "collect_rewards collect (r # rounds) =
     (case collect r of
        Inl e \<Rightarrow> ([], Inl e)
      | Inr None \<Rightarrow> collect_rewards collect rounds
      | Inr (Some task) \<Rightarrow> (case collect_rewards collect rounds of (tasks, result) \<Rightarrow> (task # tasks, result)))"

definition saturating_sub :: "u32 \<Rightarrow> u32 \<Rightarrow> u32" where
  "saturating_sub a b = (if a \<le> b then 0 else a - b)"

text \<open>\<open>(oldest..=current).rev()\<close>\<close>

definition old_rounds :: "u32 \<Rightarrow> u32 list" where
  "old_rounds current = map of_nat (rev [unat (saturating_sub current 2) ..< Suc (unat current)])"

definition collect_all_unclaimed_reward ::
  "staking_env \<Rightarrow> staking_context \<Rightarrow> all_accounts res \<Rightarrow> staking \<Rightarrow> (u32 \<times> u32) list \<times> unit res"
where
  "collect_all_unclaimed_reward env ctx shard_accounts s =
     (case rbind shard_accounts (\<lambda>accounts.
           rbind (accounts (staking_account s)) (\<lambda>found.
           rbind (ok_or (Context ''Staking contract not found'') found) (\<lambda>staking_contract.
           rbind (with_context ''Failed to get relay rounds details'' (get_relay_rounds_details env staking_contract))
             (\<lambda>details. Inr (accounts, staking_contract, current_relay_round details))))) of
        Inl e \<Rightarrow> ([], Inl e)
      | Inr (accounts, staking_contract, current) \<Rightarrow>
          collect_rewards (try_collect_reward env ctx accounts staking_contract) (old_rounds current))"

text \<open>\<open>update_participates_in_round_status\<close>: the state is changed at the end only.\<close>

definition update_participates_in_round_status ::
  "staking_env \<Rightarrow> all_accounts res \<Rightarrow> staking \<Rightarrow> staking \<times> unit res"
where
  "update_participates_in_round_status env shard_accounts s =
     (case rbind shard_accounts (\<lambda>accounts.
           rbind (accounts (staking_account s)) (\<lambda>found.
           rbind (ok_or (Context ''Staking contract not found'') found) (\<lambda>staking_contract.
           rbind (with_context ''Failed to get relay_rounds_details'' (get_relay_rounds_details env staking_contract))
             (\<lambda>details.
           rbind (with_context ''Failed to compute relay round address''
               (get_relay_round_address env staking_contract (current_relay_round details))) (\<lambda>round_address.
           rbind (accounts round_address) (\<lambda>found.
           rbind (ok_or (Context ''Current relay round contract not found'') found) (\<lambda>round_contract.
             with_context ''Failed to get relay round details'' (relay_round_get_details env round_contract)))))))) of
        Inl e \<Rightarrow> (s, Inl e)
      | Inr details \<Rightarrow>
          (s\<lparr>participates_in_round :=
               store_if_empty (staking_account s \<in> set (staker_addrs details)) (participates_in_round s)\<rparr>, Inr ()))"

subsection \<open>Events\<close>

datatype staking_task = BecomeRelayNextRound | UpdateParticipation | GetReward u32 u32

definition set_round_state :: "round_state \<Rightarrow> staking \<Rightarrow> staking" where
  "set_round_state state s =
     (let s = s\<lparr>current_state := state\<rparr>
      in case rs_elections_state state of NotStarted _ \<Rightarrow> s\<lparr>elected := tristate_store None (elected s)\<rparr> | _ \<Rightarrow> s)"

definition process_staking_event ::
  "staking_context \<Rightarrow> round_state \<times> staking_event \<Rightarrow> staking \<Rightarrow> staking \<times> staking_task list"
where
  "process_staking_event ctx input s =
     (case input of (state, event) \<Rightarrow>
        let s = set_round_state state s
        in case event of
             ElectionStarted _ \<Rightarrow>
               (s\<lparr>elections_start_notify := elections_start_notify s + 1, elected := store_if_empty False (elected s)\<rparr>,
                if ignore_elections ctx then [] else [BecomeRelayNextRound])
           | ElectionEnded _ \<Rightarrow> (s\<lparr>elections_end_notify := elections_end_notify s + 1\<rparr>, [])
           | RelayRoundInitialized e \<Rightarrow>
               (s\<lparr>relay_round_started_notify := relay_round_started_notify s + 1,
                  participates_in_round := tristate_store None (participates_in_round s)\<rparr>,
                [UpdateParticipation, GetReward (ri_round_num e) (ri_round_end_time e)])
           | RelayConfigUpdated _ \<Rightarrow>
               (s\<lparr>relay_config_updated_notify := relay_config_updated_notify s + 1\<rparr>, []))"

text \<open>The flag asks for a shutdown of the relay.\<close>

definition process_user_data_event ::
  "staking_context \<Rightarrow> user_data_event \<Rightarrow> staking \<Rightarrow> staking \<times> bool"
where
  "process_user_data_event ctx event s =
     (case event of
        RelayKeysUpdated e \<Rightarrow>
          (s, ku_ton_pubkey e \<noteq> keystore_ton_key ctx \<or> ku_eth_address e \<noteq> keystore_eth_address ctx)
      | RelayMembershipRequested _ \<Rightarrow> (s\<lparr>elected := tristate_store (Some True) (elected s)\<rparr>, False)
      | DepositProcessed e \<Rightarrow>
          (s\<lparr>user_data_balance := new_balance e,
             user_data_balance_changed_notify := user_data_balance_changed_notify s + 1\<rparr>, False)
      | _ \<Rightarrow> (s, False))"

record staking_metrics =
  sm_current_relay_round :: u32
  sm_user_data_tokens_balance :: u128
  sm_elections_state :: elections_state
  sm_ignore_elections :: bool
  sm_participates_in_round :: "bool option"
  sm_elected :: "bool option"

definition staking_metrics_of :: "staking_context \<Rightarrow> staking \<Rightarrow> staking_metrics" where
  "staking_metrics_of ctx s = \<lparr>sm_current_relay_round = rs_number (current_state s),
     sm_user_data_tokens_balance = user_data_balance s,
     sm_elections_state = rs_elections_state (current_state s),
     sm_ignore_elections = ignore_elections ctx,
     sm_participates_in_round = tristate_load (participates_in_round s),
     sm_elected = tristate_load (elected s)\<rparr>"

subsection \<open>Tasks\<close>

text \<open>
  \<open>become_relay_next_round\<close> under the \<open>select!\<close> of its callers: the first number is the ticket of the
  elections' end, the others those of the balance and the configuration. \<open>deliver_message\<close> with a
  condition that is always true sends the message again whenever it expired, so a task that delivers may send any
  number of times before it ends.
\<close>

datatype relay_task =
    RelaySpawned
  | RelayChecking nat
  | RelayWaiting nat nat nat
  | RelayDelivering nat

definition enough_balance :: "staking \<Rightarrow> bool" where
  "enough_balance s \<longleftrightarrow> min_relay_deposit (current_state s) \<le> user_data_balance s"

primrec relay_end_ticket :: "relay_task \<Rightarrow> nat option" where
  "relay_end_ticket RelaySpawned = None"
| "relay_end_ticket (RelayChecking e) = Some e"
| "relay_end_ticket (RelayWaiting e b c) = Some e"
| "relay_end_ticket (RelayDelivering e) = Some e"

inductive relay_step :: "staking \<Rightarrow> relay_task \<Rightarrow> bool \<Rightarrow> relay_task option \<Rightarrow> bool" for s where
  relay_begins: "relay_step s RelaySpawned False (Some (RelayChecking (elections_end_notify s)))"
| relay_ready: "enough_balance s \<Longrightarrow> relay_step s (RelayChecking e) False (Some (RelayDelivering e))"
| relay_sends: "relay_step s (RelayDelivering e) True (Some (RelayDelivering e))"
| relay_waits: "\<not> enough_balance s \<Longrightarrow>
    relay_step s (RelayChecking e) False
      (Some (RelayWaiting e (user_data_balance_changed_notify s) (relay_config_updated_notify s)))"
| relay_wakes: "b < user_data_balance_changed_notify s \<or> c < relay_config_updated_notify s \<Longrightarrow>
    relay_step s (RelayWaiting e b c) False (Some (RelayChecking e))"
| relay_finishes: "relay_step s (RelayDelivering e) False None"
| relay_cancelled: "relay_end_ticket t = Some e \<Longrightarrow> e < elections_end_notify s \<Longrightarrow> relay_step s t False None"

text \<open>The elections management loop; \<open>None\<close> when \<open>Staking\<close> is gone.\<close>

datatype pending_elections_state =
    PendingNotStarted u32 nat nat \<comment> \<open>start time, inner and outer future\<close>
  | PendingStarted u32 nat nat \<comment> \<open>end time, inner and outer future\<close>
  | PendingFinished nat

datatype manager_phase =
    ManagerIdle \<comment> \<open>not started yet\<close>
  | ManagerReading
  | ManagerSleeping pending_elections_state nat nat \<comment> \<open>configuration future, deadline\<close>
  | ManagerDelivering pending_elections_state nat
  | ManagerAwaiting pending_elections_state nat
  | ManagerStopped

definition pending_state :: "staking \<Rightarrow> pending_elections_state" where
  "pending_state s =
     (case rs_elections_state (current_state s) of
        NotStarted start_time \<Rightarrow> PendingNotStarted start_time (elections_start_notify s) (elections_start_notify s)
      | Started _ end_time \<Rightarrow> PendingStarted end_time (elections_end_notify s) (elections_end_notify s)
      | Finished \<Rightarrow> PendingFinished (relay_round_started_notify s))"

definition manager_read :: "u64 \<Rightarrow> staking option \<Rightarrow> manager_phase" where
  "manager_read now alive =
     (case alive of
        None \<Rightarrow> ManagerStopped
      | Some s \<Rightarrow>
          (let pending = pending_state s; cfg = relay_config_updated_notify s
           in case pending of
                PendingNotStarted time _ _ \<Rightarrow> ManagerSleeping pending cfg (unat now + unat (delay_until now time))
              | PendingStarted time _ _ \<Rightarrow> ManagerSleeping pending cfg (unat now + unat (delay_until now time))
              | PendingFinished _ \<Rightarrow> ManagerAwaiting pending cfg))"

datatype staking_send = SendStartElection | SendEndElection | SendBecomeRelay
  | SendGetReward u32 u32 \<comment> \<open>round and end time\<close>

text \<open>The inner future ends the action, the outer one or the configuration's cancel it.\<close>

primrec inner_ready :: "staking \<Rightarrow> pending_elections_state \<Rightarrow> bool" where
  "inner_ready s (PendingNotStarted _ inner outer) \<longleftrightarrow> inner < elections_start_notify s"
| "inner_ready s (PendingStarted _ inner outer) \<longleftrightarrow> inner < elections_end_notify s"
| "inner_ready s (PendingFinished t) \<longleftrightarrow> t < relay_round_started_notify s"

primrec outer_ready :: "staking \<Rightarrow> nat \<Rightarrow> pending_elections_state \<Rightarrow> bool" where
  "outer_ready s cfg (PendingNotStarted _ inner outer) \<longleftrightarrow>
     outer < elections_start_notify s \<or> cfg < relay_config_updated_notify s"
| "outer_ready s cfg (PendingStarted _ inner outer) \<longleftrightarrow>
     outer < elections_end_notify s \<or> cfg < relay_config_updated_notify s"
| "outer_ready s cfg (PendingFinished t) \<longleftrightarrow> False"

primrec pending_send :: "pending_elections_state \<Rightarrow> staking_send option" where
  "pending_send (PendingNotStarted _ _ _) = Some SendStartElection"
| "pending_send (PendingStarted _ _ _) = Some SendEndElection"
| "pending_send (PendingFinished _) = None"

primrec manager_waits :: "manager_phase \<Rightarrow> (pending_elections_state \<times> nat) option" where
  "manager_waits ManagerIdle = None"
| "manager_waits ManagerReading = None"
| "manager_waits (ManagerSleeping p c d) = Some (p, c)"
| "manager_waits (ManagerDelivering p c) = Some (p, c)"
| "manager_waits (ManagerAwaiting p c) = Some (p, c)"
| "manager_waits ManagerStopped = None"

inductive manager_step :: "u64 \<Rightarrow> staking \<Rightarrow> manager_phase \<Rightarrow> staking_send option \<Rightarrow> manager_phase \<Rightarrow> bool"
  for now s where
  manager_reads: "manager_step now s ManagerReading None (manager_read now (Some s))"
| manager_acts: "d \<le> unat now \<Longrightarrow> manager_step now s (ManagerSleeping p c d) (pending_send p) (ManagerDelivering p c)"
| manager_resends: "manager_step now s (ManagerDelivering p c) (pending_send p) (ManagerDelivering p c)"
| manager_delivered: "manager_step now s (ManagerDelivering p c) None (ManagerAwaiting p c)"
| manager_done: "inner_ready s p \<Longrightarrow> manager_step now s (ManagerAwaiting p c) None ManagerReading"
| manager_cancelled: "manager_waits phase = Some (p, c) \<Longrightarrow> outer_ready s c p \<Longrightarrow>
    manager_step now s phase None ManagerReading"

subsection \<open>The system\<close>

text \<open>
  The state with its tasks: the vote of \<open>Staking::new\<close> (the manager starts when it is over), the vote
  tasks of later elections, the delayed reward collections (round and deadline), the participation
  checks, the log of what was sent when, and the balances and states so far.
\<close>

record staking_system =
  sys_staking :: staking
  sys_startup :: "relay_task option"
  sys_relays :: "relay_task list"
  sys_rewards :: "(u32 \<times> u32) list" \<comment> \<open>round and end time, not yet asleep\<close>
  sys_sleeping :: "(u32 \<times> u32 \<times> nat) list" \<comment> \<open>round, end time and deadline; asleep, then in delivery\<close>
  sys_checks :: nat
  sys_manager :: manager_phase
  sys_clock :: u64
  sys_log :: "(u64 \<times> staking_send) list"
  sys_history :: "(u128 \<times> round_state) list"
  sys_shutdown :: bool

primrec spawn_task :: "staking_task \<Rightarrow> staking_system \<Rightarrow> staking_system" where
  "spawn_task BecomeRelayNextRound S = S\<lparr>sys_relays := sys_relays S @ [RelaySpawned]\<rparr>"
| "spawn_task UpdateParticipation S = S\<lparr>sys_checks := sys_checks S + 1\<rparr>"
| "spawn_task (GetReward r t) S = S\<lparr>sys_rewards := sys_rewards S @ [(r, t)]\<rparr>"

definition put_staking :: "staking \<Rightarrow> staking_system \<Rightarrow> staking_system" where
  "put_staking s S = S\<lparr>sys_staking := s, sys_history := sys_history S @ [(user_data_balance s, current_state s)]\<rparr>"

definition log_send :: "staking_send \<Rightarrow> staking_system \<Rightarrow> staking_system" where
  "log_send m S = S\<lparr>sys_log := sys_log S @ [(sys_clock S, m)]\<rparr>"

definition log_opt :: "staking_send option \<Rightarrow> staking_system \<Rightarrow> staking_system" where
  "log_opt m S = (case m of None \<Rightarrow> S | Some m \<Rightarrow> log_send m S)"

text \<open>
  The system at the end of \<open>Staking::new\<close>: with \<open>should_vote\<close> the vote runs first, otherwise the
  manager starts; the rewards found are collected when it does.
\<close>

definition initial_system :: "u64 \<Rightarrow> staking \<Rightarrow> bool \<Rightarrow> staking_system" where
  "initial_system now s should_vote =
     \<lparr>sys_staking = s,
       sys_startup = (if should_vote then Some (RelayChecking (elections_end_notify s)) else None),
       sys_relays = [], sys_rewards = [], sys_sleeping = [], sys_checks = 0,
       sys_manager = (if should_vote then ManagerIdle else ManagerReading), sys_clock = now, sys_log = [],
       sys_history = [(user_data_balance s, current_state s)], sys_shutdown = False\<rparr>"

text \<open>
  A step of the system; \<open>allowed\<close> restricts the staking events that may come (all of them, or those
  of a contract that announces its changes).
\<close>

type_synonym event_filter = "staking \<Rightarrow> round_state \<times> staking_event \<Rightarrow> bool"

inductive sys_step :: "staking_env \<Rightarrow> staking_context \<Rightarrow> event_filter \<Rightarrow> staking_system \<Rightarrow> staking_system \<Rightarrow> bool"
  for env ctx allowed where
  step_clock: "sys_clock S \<le> now \<Longrightarrow> sys_step env ctx allowed S (S\<lparr>sys_clock := now\<rparr>)"
| step_staking_event: "allowed (sys_staking S) input \<Longrightarrow> process_staking_event ctx input (sys_staking S) = (s', tasks) \<Longrightarrow>
    sys_step env ctx allowed S (fold spawn_task tasks (put_staking s' S))"
| step_user_data: "process_user_data_event ctx event (sys_staking S) = (s', shutdown) \<Longrightarrow>
    sys_step env ctx allowed S ((put_staking s' S)\<lparr>sys_shutdown := sys_shutdown S \<or> shutdown\<rparr>)"
| step_startup: "sys_startup S = Some t \<Longrightarrow> relay_step (sys_staking S) t sends (Some t') \<Longrightarrow>
    sys_step env ctx allowed S (log_opt (if sends then Some SendBecomeRelay else None) (S\<lparr>sys_startup := Some t'\<rparr>))"
| step_started: "sys_startup S = Some t \<Longrightarrow> relay_step (sys_staking S) t False None \<Longrightarrow>
    sys_step env ctx allowed S (S\<lparr>sys_startup := None, sys_manager := ManagerReading\<rparr>)"
| step_relay: "i < length (sys_relays S) \<Longrightarrow> relay_step (sys_staking S) (sys_relays S ! i) sends (Some t') \<Longrightarrow>
    sys_step env ctx allowed S (log_opt (if sends then Some SendBecomeRelay else None)
      (S\<lparr>sys_relays := (sys_relays S)[i := t']\<rparr>))"
| step_relay_ends: "sys_relays S = ts @ t # us \<Longrightarrow> relay_step (sys_staking S) t False None \<Longrightarrow>
    sys_step env ctx allowed S (S\<lparr>sys_relays := ts @ us\<rparr>)"
| step_manager: "manager_step (sys_clock S) (sys_staking S) (sys_manager S) sent phase \<Longrightarrow>
    sys_step env ctx allowed S (log_opt sent (S\<lparr>sys_manager := phase\<rparr>))"
| step_unclaimed: "collect_all_unclaimed_reward env ctx accounts (sys_staking S) = (tasks, result) \<Longrightarrow>
    sys_step env ctx allowed S (S\<lparr>sys_rewards := sys_rewards S @ tasks\<rparr>)"
| step_reward_sleeps: "sys_rewards S = rs @ (r, end_time) # rs' \<Longrightarrow>
    sys_step env ctx allowed S (S\<lparr>sys_rewards := rs @ rs',
      sys_sleeping := sys_sleeping S @
        [(r, end_time, unat (sys_clock S) + unat (reward_delay (sys_clock S) end_time))]\<rparr>)"
| step_reward: "sys_sleeping S = rs @ (r, end_time, deadline) # rs' \<Longrightarrow> deadline \<le> unat (sys_clock S) \<Longrightarrow>
    sys_step env ctx allowed S (log_send (SendGetReward r end_time) S)"
| step_reward_ends: "sys_sleeping S = rs @ (r, end_time, deadline) # rs' \<Longrightarrow> deadline \<le> unat (sys_clock S) \<Longrightarrow>
    sys_step env ctx allowed S (S\<lparr>sys_sleeping := rs @ rs'\<rparr>)"
| step_participation: "0 < sys_checks S \<Longrightarrow>
    update_participates_in_round_status env accounts (sys_staking S) = (s', result) \<Longrightarrow>
    sys_step env ctx allowed S (S\<lparr>sys_staking := s', sys_checks := sys_checks S - 1\<rparr>)"

inductive sys_reach ::
  "staking_env \<Rightarrow> staking_context \<Rightarrow> event_filter \<Rightarrow> staking_system \<Rightarrow> staking_system \<Rightarrow> bool"
  for env ctx allowed S where
  sys_refl: "sys_reach env ctx allowed S S"
| sys_next: "sys_reach env ctx allowed S T \<Longrightarrow> sys_step env ctx allowed T U \<Longrightarrow> sys_reach env ctx allowed S U"

text \<open>A contract that announces its changes: the elections' state and the deposit change with their events only.\<close>

definition announced :: event_filter where
  "announced s input =
     (case input of (state, event) \<Rightarrow>
        (case event of
           RelayConfigUpdated _ \<Rightarrow> (case rs_elections_state (current_state s) of Finished \<Rightarrow> rs_elections_state state = Finished | _ \<Rightarrow> True)
         | ElectionStarted _ \<Rightarrow> min_relay_deposit state = min_relay_deposit (current_state s)
             \<and> (case rs_elections_state (current_state s) of NotStarted _ \<Rightarrow> True | x \<Rightarrow> rs_elections_state state = x)
         | ElectionEnded _ \<Rightarrow> min_relay_deposit state = min_relay_deposit (current_state s)
             \<and> (case rs_elections_state (current_state s) of Started _ _ \<Rightarrow> True | x \<Rightarrow> rs_elections_state state = x)
         | RelayRoundInitialized _ \<Rightarrow> min_relay_deposit state = min_relay_deposit (current_state s)
             \<and> (case rs_elections_state (current_state s) of Finished \<Rightarrow> True | x \<Rightarrow> rs_elections_state state = x)))"

inductive_cases sys_stepE: "sys_step env ctx allowed S T"
inductive_simps relay_step_None: "relay_step s t sends None"
inductive_cases relay_stepE: "relay_step s t sends t'"
inductive_cases manager_stepE: "manager_step now s phase sent phase'"

subsection \<open>Every message has its reason\<close>

definition send_justified :: "staking_context \<Rightarrow> (u128 \<times> round_state) list \<Rightarrow> u64 \<Rightarrow> staking_send \<Rightarrow> bool" where
  "send_justified ctx history now m =
     (case m of
        SendStartElection \<Rightarrow>
          (\<exists>state \<in> snd ` set history. \<exists>time. rs_elections_state state = NotStarted time \<and> unat time \<le> unat now)
      | SendEndElection \<Rightarrow>
          (\<exists>state \<in> snd ` set history. \<exists>start time. rs_elections_state state = Started start time \<and> unat time \<le> unat now)
      | SendBecomeRelay \<Rightarrow> \<not> ignore_elections ctx \<and> (\<exists>(held, state) \<in> set history. min_relay_deposit state \<le> held)
      | SendGetReward r end_time \<Rightarrow> unat end_time + 10 \<le> unat now)"

definition phase_justified :: "(u128 \<times> round_state) list \<Rightarrow> u64 \<Rightarrow> manager_phase \<Rightarrow> bool" where
  "phase_justified history now phase =
     (case phase of
        ManagerSleeping (PendingNotStarted time _ _) c d \<Rightarrow>
          unat time \<le> d \<and> (\<exists>state \<in> snd ` set history. rs_elections_state state = NotStarted time)
      | ManagerSleeping (PendingStarted time _ _) c d \<Rightarrow>
          unat time \<le> d \<and> (\<exists>state \<in> snd ` set history. \<exists>start. rs_elections_state state = Started start time)
      | ManagerSleeping (PendingFinished _) c d \<Rightarrow> False
      | ManagerDelivering p c \<Rightarrow> (\<forall>m ctx. pending_send p = Some m \<longrightarrow> send_justified ctx history now m)
      | _ \<Rightarrow> True)"

definition relay_justified :: "(u128 \<times> round_state) list \<Rightarrow> relay_task \<Rightarrow> bool" where
  "relay_justified history t =
     (case t of RelayDelivering e \<Rightarrow> \<exists>(held, state) \<in> set history. min_relay_deposit state \<le> held | _ \<Rightarrow> True)"

definition sys_justified :: "staking_context \<Rightarrow> staking_system \<Rightarrow> bool" where
  "sys_justified ctx S \<longleftrightarrow>
     (user_data_balance (sys_staking S), current_state (sys_staking S)) \<in> set (sys_history S)
     \<and> (ignore_elections ctx \<longrightarrow> sys_startup S = None \<and> sys_relays S = [])
     \<and> (\<forall>t \<in> set (sys_relays S) \<union> set_option (sys_startup S). relay_justified (sys_history S) t)
     \<and> phase_justified (sys_history S) (sys_clock S) (sys_manager S)
     \<and> (\<forall>(r, end_time, deadline) \<in> set (sys_sleeping S). unat end_time + 10 \<le> deadline)
     \<and> (\<forall>(now, m) \<in> set (sys_log S). send_justified ctx (sys_history S) now m)"

lemma delay_until_deadline: "unat (time :: u32) \<le> unat now + unat (delay_until now time)"
proof (cases "(ucast time :: u64) \<le> now")
  case True
  then have "unat (ucast time :: u64) \<le> unat now" by (simp add: word_le_nat_alt)
  then show ?thesis using True by (simp add: delay_until_def unat_ucast_u64)
next
  case False
  then have "unat ((ucast time :: u64) - now) = unat (ucast time :: u64) - unat now"
    by (intro unat_sub) simp
  with False show ?thesis by (simp add: delay_until_def unat_ucast_u64)
qed

lemma delay_until_bound: "unat (delay_until now time) < 2 ^ 32"
proof -
  have le: "unat (delay_until now time) \<le> unat (ucast time :: u64)"
  proof (cases "(ucast time :: u64) \<le> now")
    case False
    then have "unat ((ucast time :: u64) - now) = unat (ucast time :: u64) - unat now"
      by (intro unat_sub) simp
    with False show ?thesis by (simp add: delay_until_def)
  qed (simp add: delay_until_def)
  also have "\<dots> = unat time" by (simp add: unat_ucast_u64)
  also have "\<dots> < 2 ^ 32" by (rule order_less_le_trans [OF unsigned_less]) simp
  finally show ?thesis .
qed

lemma reward_deadline: "unat (time :: u32) + 10 \<le> unat now + unat (reward_delay now time)"
proof -
  have "unat (reward_delay now time) = unat (delay_until now time) + 10"
    using delay_until_bound [of now time]
    by (simp add: reward_delay_def ROUND_OFFSET_def unat_word_ariths)
  with delay_until_deadline [of time now] show ?thesis by simp
qed

lemma spawn_task_fields [simp]:
  "sys_staking (spawn_task t S) = sys_staking S" "sys_startup (spawn_task t S) = sys_startup S"
  "sys_manager (spawn_task t S) = sys_manager S" "sys_log (spawn_task t S) = sys_log S"
  "sys_history (spawn_task t S) = sys_history S" "sys_sleeping (spawn_task t S) = sys_sleeping S"
  "sys_clock (spawn_task t S) = sys_clock S"
  "sys_relays (spawn_task t S) = sys_relays S @ (if t = BecomeRelayNextRound then [RelaySpawned] else [])"
  by (cases t; simp)+

lemma spawn_tasks_fields [simp]:
  "sys_staking (fold spawn_task ts S) = sys_staking S" "sys_startup (fold spawn_task ts S) = sys_startup S"
  "sys_manager (fold spawn_task ts S) = sys_manager S" "sys_log (fold spawn_task ts S) = sys_log S"
  "sys_history (fold spawn_task ts S) = sys_history S" "sys_sleeping (fold spawn_task ts S) = sys_sleeping S"
  "sys_clock (fold spawn_task ts S) = sys_clock S"
  by (induction ts arbitrary: S) simp_all

lemma spawn_tasks_relays:
  "sys_relays (fold spawn_task ts S)
     = sys_relays S @ map (\<lambda>_. RelaySpawned) (filter (\<lambda>t. t = BecomeRelayNextRound) ts)"
  by (induction ts arbitrary: S) simp_all

lemma put_staking_fields [simp]:
  "sys_staking (put_staking s S) = s" "sys_startup (put_staking s S) = sys_startup S"
  "sys_manager (put_staking s S) = sys_manager S" "sys_log (put_staking s S) = sys_log S"
  "sys_history (put_staking s S) = sys_history S @ [(user_data_balance s, current_state s)]"
  "sys_sleeping (put_staking s S) = sys_sleeping S" "sys_relays (put_staking s S) = sys_relays S"
  "sys_clock (put_staking s S) = sys_clock S"
  by (simp_all add: put_staking_def)

lemma log_opt_fields [simp]:
  "sys_staking (log_opt m S) = sys_staking S" "sys_startup (log_opt m S) = sys_startup S"
  "sys_manager (log_opt m S) = sys_manager S" "sys_history (log_opt m S) = sys_history S"
  "sys_sleeping (log_opt m S) = sys_sleeping S" "sys_relays (log_opt m S) = sys_relays S"
  "sys_clock (log_opt m S) = sys_clock S"
  "sys_log (log_opt m S) = sys_log S @ (case m of None \<Rightarrow> [] | Some m \<Rightarrow> [(sys_clock S, m)])"
  by (simp_all add: log_opt_def log_send_def split: option.split)

lemma log_send_opt: "log_send m S = log_opt (Some m) S"
  by (simp add: log_opt_def)

lemma send_justified_mono:
  "send_justified ctx h now m \<Longrightarrow> set h \<subseteq> set h' \<Longrightarrow> now \<le> now' \<Longrightarrow> send_justified ctx h' now' m"
  by (cases m; simp add: send_justified_def word_le_nat_alt; (blast intro: order_trans)?)

lemma phase_justified_mono:
  "phase_justified h now phase \<Longrightarrow> set h \<subseteq> set h' \<Longrightarrow> now \<le> now' \<Longrightarrow> phase_justified h' now' phase"
  using send_justified_mono [of _ h now _ h' now']
  by (auto simp: phase_justified_def split: manager_phase.splits pending_elections_state.splits)

lemma relay_justified_mono: "relay_justified h t \<Longrightarrow> set h \<subseteq> set h' \<Longrightarrow> relay_justified h' t"
  by (auto simp: relay_justified_def split: relay_task.splits)

lemma sys_justified_grow:
  assumes "sys_justified ctx S" "set (sys_history S) \<subseteq> set (sys_history T)" "sys_log T = sys_log S"
    "sys_manager T = sys_manager S" "sys_sleeping T = sys_sleeping S" "sys_clock S \<le> sys_clock T"
    "(user_data_balance (sys_staking T), current_state (sys_staking T)) \<in> set (sys_history T)"
    "ignore_elections ctx \<Longrightarrow> sys_startup T = None \<and> sys_relays T = []"
    "sys_startup T = sys_startup S" "set (sys_relays T) \<subseteq> insert RelaySpawned (set (sys_relays S))"
  shows "sys_justified ctx T"
proof -
  have "relay_justified (sys_history T) t" if "t \<in> set (sys_relays T) \<union> set_option (sys_startup T)" for t
  proof (cases "t = RelaySpawned")
    case False
    with that assms(9,10) have "t \<in> set (sys_relays S) \<union> set_option (sys_startup S)" by auto
    with assms(1) have "relay_justified (sys_history S) t" by (simp add: sys_justified_def)
    then show ?thesis by (rule relay_justified_mono) (rule assms(2))
  qed (simp add: relay_justified_def)
  then show ?thesis
    using assms phase_justified_mono [of "sys_history S" "sys_clock S" "sys_manager S" "sys_history T" "sys_clock T"]
      send_justified_mono [of ctx "sys_history S" _ _ "sys_history T"]
    by (auto simp: sys_justified_def)
qed

lemma process_staking_event_state:
  assumes "process_staking_event ctx (state, event) s = (s', tasks)"
  shows "current_state s' = state \<and> user_data_balance s' = user_data_balance s
    \<and> (ignore_elections ctx \<longrightarrow> BecomeRelayNextRound \<notin> set tasks)"
  using assms
  by (cases event) (auto simp: process_staking_event_def set_round_state_def Let_def split: elections_state.splits)

lemma process_staking_event_notifies:
  assumes "process_staking_event ctx (state, event) s = (s', tasks)"
  shows "elections_start_notify s' = elections_start_notify s + (case event of ElectionStarted _ \<Rightarrow> 1 | _ \<Rightarrow> 0)
    \<and> elections_end_notify s' = elections_end_notify s + (case event of ElectionEnded _ \<Rightarrow> 1 | _ \<Rightarrow> 0)
    \<and> relay_round_started_notify s' = relay_round_started_notify s + (case event of RelayRoundInitialized _ \<Rightarrow> 1 | _ \<Rightarrow> 0)
    \<and> relay_config_updated_notify s' = relay_config_updated_notify s + (case event of RelayConfigUpdated _ \<Rightarrow> 1 | _ \<Rightarrow> 0)
    \<and> user_data_balance_changed_notify s' = user_data_balance_changed_notify s"
  using assms
  by (cases event) (auto simp: process_staking_event_def set_round_state_def Let_def split: elections_state.splits)

lemma update_participates_fields:
  assumes "update_participates_in_round_status env accounts s = (s', result)"
  shows "\<exists>p. s' = s\<lparr>participates_in_round := p\<rparr>"
proof -
  have "\<exists>p. s = s\<lparr>participates_in_round := p\<rparr>" by (rule exI [of _ "participates_in_round s"]) simp
  then show ?thesis
    using assms unfolding update_participates_in_round_status_def by (auto split: sum.splits)
qed

lemma pending_state_sent:
  assumes "phase_justified h t (ManagerSleeping p c d)" "d \<le> unat now" "pending_send p = Some m"
  shows "send_justified ctx h now m"
  using assms by (cases p) (auto simp: phase_justified_def send_justified_def intro: order_trans)

lemma manager_read_justified:
  assumes "(held, current_state s) \<in> set h"
  shows "phase_justified h t (manager_read now (Some s))"
proof -
  have "current_state s \<in> snd ` set h" using assms by force
  then show ?thesis
    using delay_until_deadline
    by (auto simp: phase_justified_def manager_read_def pending_state_def simp del: bex_simps(7)
        split: elections_state.split)
qed

lemma relay_step_justified:
  assumes "relay_step s t sends (Some t')" "relay_justified h t" "(user_data_balance s, current_state s) \<in> set h"
  shows "relay_justified h t'" and "sends \<Longrightarrow> \<exists>(held, state) \<in> set h. min_relay_deposit state \<le> held"
proof -
  have enough: "enough_balance s \<Longrightarrow> \<exists>(held, state) \<in> set h. min_relay_deposit state \<le> held"
    by (rule bexI [OF _ assms(3)]) (simp add: enough_balance_def)
  show "relay_justified h t'" "sends \<Longrightarrow> \<exists>(held, state) \<in> set h. min_relay_deposit state \<le> held"
    using assms(1,2) enough by (auto simp: relay_justified_def elim!: relay_step.cases)
qed

text \<open>What a step of the vote, of the manager or of a reward appends to the log is justified.\<close>

lemma sys_justified_send:
  assumes "sys_justified ctx S" "sys_staking T = sys_staking S" "sys_history T = sys_history S"
    "sys_log T = sys_log S" "sys_clock T = sys_clock S"
    "phase_justified (sys_history S) (sys_clock S) (sys_manager T)"
    "set (sys_sleeping T) \<subseteq> set (sys_sleeping S)"
    "ignore_elections ctx \<Longrightarrow> sys_startup T = None \<and> sys_relays T = []"
    "\<And>t. t \<in> set (sys_relays T) \<union> set_option (sys_startup T) \<Longrightarrow> relay_justified (sys_history S) t"
    "\<And>m. sent = Some m \<Longrightarrow> send_justified ctx (sys_history S) (sys_clock S) m"
  shows "sys_justified ctx (log_opt sent T)"
  using assms by (cases sent) (auto simp: sys_justified_def)

lemma relay_send_justified:
  assumes "sys_justified ctx S" "relay_step (sys_staking S) t sends (Some t')" "\<not> ignore_elections ctx"
    "t \<in> set (sys_relays S) \<union> set_option (sys_startup S)"
    "(if sends then Some SendBecomeRelay else None) = Some m"
  shows "send_justified ctx (sys_history S) now m"
proof -
  have "sends" and m: "m = SendBecomeRelay" using assms(5) by (auto split: if_splits)
  moreover have "relay_justified (sys_history S) t"
    "(user_data_balance (sys_staking S), current_state (sys_staking S)) \<in> set (sys_history S)"
    using assms(1,4) by (simp_all add: sys_justified_def)
  ultimately show ?thesis
    using relay_step_justified(2) [OF assms(2)] assms(3) by (simp add: m send_justified_def)
qed

lemma sys_justified_step:
  assumes "sys_step env ctx allowed S T" "sys_justified ctx S"
  shows "sys_justified ctx T"
  using assms(1)
proof cases
  case (step_clock now)
  show ?thesis
    unfolding step_clock(1)
    by (rule sys_justified_grow [OF assms(2)]) (use assms(2) step_clock(2) in \<open>auto simp: sys_justified_def\<close>)
next
  case (step_staking_event input s' tasks)
  obtain state event where input: "input = (state, event)" by (cases input)
  show ?thesis
    unfolding step_staking_event(1)
  proof (rule sys_justified_grow [OF assms(2)])
    assume "ignore_elections ctx"
    then show "sys_startup (fold spawn_task tasks (put_staking s' S)) = None
        \<and> sys_relays (fold spawn_task tasks (put_staking s' S)) = []"
      using assms(2) process_staking_event_state [OF step_staking_event(3) [unfolded input]]
      by (auto simp: sys_justified_def spawn_tasks_relays filter_empty_conv)
  qed (auto simp: spawn_tasks_relays)
next
  case (step_user_data event s' shutdown)
  show ?thesis
    unfolding step_user_data(1)
    by (rule sys_justified_grow [OF assms(2)]) (use assms(2) in \<open>auto simp: sys_justified_def\<close>)
next
  case (step_startup t sends t')
  have elections: "\<not> ignore_elections ctx" using step_startup assms(2) by (auto simp: sys_justified_def)
  have "relay_justified (sys_history S) t'"
    by (rule relay_step_justified(1) [OF step_startup(3)]) (use step_startup(2) assms(2) in \<open>simp_all add: sys_justified_def\<close>)
  with elections show ?thesis
    unfolding step_startup(1)
    by (intro sys_justified_send [OF assms(2)] relay_send_justified [OF assms(2) step_startup(3)])
      (use assms(2) step_startup(2) in \<open>auto simp: sys_justified_def\<close>)
next
  case (step_started t)
  then show ?thesis using assms(2) by (auto simp: sys_justified_def phase_justified_def)
next
  case (step_relay i sends t')
  have elections: "\<not> ignore_elections ctx" using step_relay assms(2) by (auto simp: sys_justified_def)
  have task: "sys_relays S ! i \<in> set (sys_relays S)" using step_relay(2) by simp
  have "relay_justified (sys_history S) t'"
    by (rule relay_step_justified(1) [OF step_relay(3)]) (use task assms(2) in \<open>simp_all add: sys_justified_def\<close>)
  moreover have "set ((sys_relays S)[i := t']) \<subseteq> insert t' (set (sys_relays S))" by (rule set_update_subset_insert)
  ultimately show ?thesis
    unfolding step_relay(1)
    by (intro sys_justified_send [OF assms(2)] relay_send_justified [OF assms(2) step_relay(3) elections])
      (use assms(2) task elections in \<open>auto simp: sys_justified_def\<close>)
next
  case (step_relay_ends ts t us)
  then show ?thesis using assms(2) by (auto simp: sys_justified_def)
next
  case (step_manager sent phase)
  let ?h = "sys_history S"
  have now: "(user_data_balance (sys_staking S), current_state (sys_staking S)) \<in> set ?h"
    and old: "phase_justified ?h (sys_clock S) (sys_manager S)"
    using assms(2) by (simp_all add: sys_justified_def)
  have "phase_justified ?h (sys_clock S) phase \<and> (\<forall>m. sent = Some m \<longrightarrow> send_justified ctx ?h (sys_clock S) m)"
    using step_manager(2)
  proof cases
    case manager_reads
    then show ?thesis using manager_read_justified [OF now] by simp
  next
    case (manager_acts d p c)
    then have "pending_send p = Some m \<Longrightarrow> send_justified ctx' ?h (sys_clock S) m" for m ctx'
      using pending_state_sent [of ?h "sys_clock S" p c d "sys_clock S"] old by simp
    with manager_acts show ?thesis by (simp add: phase_justified_def)
  next
    case (manager_resends p c)
    then show ?thesis using old by (simp add: phase_justified_def)
  qed (simp_all add: phase_justified_def)
  then show ?thesis
    unfolding step_manager(1)
    by (intro sys_justified_send [OF assms(2)]) (use assms(2) in \<open>auto simp: sys_justified_def\<close>)
next
  case (step_unclaimed accounts tasks result)
  then show ?thesis using assms(2) by (simp add: sys_justified_def)
next
  case (step_reward_sleeps rs r end_time rs')
  then show ?thesis using assms(2) reward_deadline [of end_time "sys_clock S"] by (auto simp: sys_justified_def)
next
  case (step_reward rs r end_time deadline rs')
  have "send_justified ctx (sys_history S) (sys_clock S) (SendGetReward r end_time)"
    using assms(2) step_reward(2,3) by (auto simp: send_justified_def sys_justified_def)
  then show ?thesis
    unfolding step_reward(1) log_send_opt
    by (intro sys_justified_send [OF assms(2)]) (use assms(2) in \<open>auto simp: sys_justified_def\<close>)
next
  case (step_reward_ends rs r end_time deadline rs')
  then show ?thesis using assms(2) by (auto simp: sys_justified_def)
next
  case (step_participation accounts s' result)
  then obtain p where "s' = (sys_staking S)\<lparr>participates_in_round := p\<rparr>"
    using update_participates_fields by blast
  with step_participation(1) assms(2) show ?thesis by (simp add: sys_justified_def)
qed

lemma sys_justified_reach:
  assumes "sys_reach env ctx allowed S T" "sys_justified ctx S"
  shows "sys_justified ctx T"
  using assms by (induction rule: sys_reach.induct) (auto intro: sys_justified_step)

lemma sys_justified_initial: "(should_vote \<Longrightarrow> \<not> ignore_elections ctx) \<Longrightarrow>
    sys_justified ctx (initial_system now s should_vote)"
  by (auto simp: sys_justified_def initial_system_def phase_justified_def relay_justified_def)

lemma staking_new_votes:
  assumes "staking_new env ctx confirmed snapshots acc = Some (Inr (s, True))"
  shows "\<not> ignore_elections ctx"
  using assms
  by (auto simp: staking_new_def elections_participation_def rbind_eq_Inr_iff
      split: option.splits sum.splits elections_state.splits)

subsection \<open>No wake-up is missed\<close>

text \<open>Whether what the manager waits for is what the contract is in.\<close>

primrec pending_matches :: "elections_state \<Rightarrow> pending_elections_state \<Rightarrow> bool" where
  "pending_matches st (PendingNotStarted time _ _) \<longleftrightarrow> st = NotStarted time"
| "pending_matches st (PendingStarted time _ _) \<longleftrightarrow> (\<exists>start. st = Started start time)"
| "pending_matches st (PendingFinished _) \<longleftrightarrow> st = Finished"

primrec pending_tickets :: "staking \<Rightarrow> pending_elections_state \<Rightarrow> bool" where
  "pending_tickets s (PendingNotStarted _ inner outer) \<longleftrightarrow> inner = outer \<and> inner \<le> elections_start_notify s"
| "pending_tickets s (PendingStarted _ inner outer) \<longleftrightarrow> inner = outer \<and> inner \<le> elections_end_notify s"
| "pending_tickets s (PendingFinished t) \<longleftrightarrow> t \<le> relay_round_started_notify s"

definition manager_fresh :: "staking \<Rightarrow> manager_phase \<Rightarrow> bool" where
  "manager_fresh s phase =
     (case manager_waits phase of
        None \<Rightarrow> True
      | Some (p, c) \<Rightarrow> pending_tickets s p \<and> c \<le> relay_config_updated_notify s
          \<and> ((\<exists>t. p = PendingFinished t) \<longrightarrow> phase = ManagerAwaiting p c)
          \<and> (inner_ready s p \<or> outer_ready s c p \<or> pending_matches (rs_elections_state (current_state s)) p))"

primrec relay_fresh :: "staking \<Rightarrow> relay_task \<Rightarrow> bool" where
  "relay_fresh s RelaySpawned \<longleftrightarrow> True"
| "relay_fresh s (RelayChecking e) \<longleftrightarrow> True"
| "relay_fresh s (RelayWaiting e b c) \<longleftrightarrow>
     b \<le> user_data_balance_changed_notify s \<and> c \<le> relay_config_updated_notify s
     \<and> (b < user_data_balance_changed_notify s \<or> c < relay_config_updated_notify s \<or> \<not> enough_balance s)"
| "relay_fresh s (RelayDelivering e) \<longleftrightarrow> True"

definition sys_fresh :: "staking_system \<Rightarrow> bool" where
  "sys_fresh S \<longleftrightarrow> manager_fresh (sys_staking S) (sys_manager S)
     \<and> (\<forall>t \<in> set (sys_relays S) \<union> set_option (sys_startup S). relay_fresh (sys_staking S) t)"

lemma manager_fresh_event:
  assumes "manager_fresh s phase" "announced s (state, event)" "process_staking_event ctx (state, event) s = (s', tasks)"
  shows "manager_fresh s' phase"
proof (cases "manager_waits phase")
  case (Some pc)
  obtain p c where pc: "pc = (p, c)" by (cases pc)
  have st: "current_state s' = state" using process_staking_event_state [OF assms(3)] by simp
  show ?thesis
    using assms(1,2) process_staking_event_notifies [OF assms(3)] Some
    by (cases p; cases event) (auto simp: manager_fresh_def pc st announced_def split: elections_state.splits)
qed (simp add: manager_fresh_def)

lemma relay_fresh_event:
  assumes "relay_fresh s t" "announced s (state, event)" "process_staking_event ctx (state, event) s = (s', tasks)"
  shows "relay_fresh s' t"
proof (cases t)
  case (RelayWaiting e b c)
  have st: "current_state s' = state" "user_data_balance s' = user_data_balance s"
    using process_staking_event_state [OF assms(3)] by simp_all
  show ?thesis
    using assms(1,2) process_staking_event_notifies [OF assms(3)]
    by (cases event) (auto simp: RelayWaiting st enough_balance_def announced_def split: elections_state.splits)
qed simp_all

text \<open>Changes that touch neither the round's state nor a counter, and deposits.\<close>

lemma manager_fresh_same:
  assumes "manager_fresh s phase" "current_state s' = current_state s"
    "elections_start_notify s' = elections_start_notify s" "elections_end_notify s' = elections_end_notify s"
    "relay_round_started_notify s' = relay_round_started_notify s"
    "relay_config_updated_notify s' = relay_config_updated_notify s"
  shows "manager_fresh s' phase"
proof (cases "manager_waits phase")
  case (Some pc)
  obtain p c where "pc = (p, c)" by (cases pc)
  with assms Some show ?thesis by (cases p) (simp_all add: manager_fresh_def)
qed (simp add: manager_fresh_def)

lemma relay_fresh_user_data:
  assumes "relay_fresh s t" "process_user_data_event ctx event s = (s', shutdown)"
  shows "relay_fresh s' t"
  using assms by (cases t; cases event) (auto simp: process_user_data_event_def enough_balance_def)

lemma relay_step_fresh: "relay_step s t sends (Some t') \<Longrightarrow> relay_fresh s t'"
  by (auto elim: relay_step.cases)

lemma manager_step_fresh:
  assumes "manager_step now s phase sent phase'" "manager_fresh s phase"
  shows "manager_fresh s phase'"
  using assms
  by (cases rule: manager_step.cases)
    (auto simp: manager_fresh_def manager_read_def pending_state_def Let_def split: elections_state.splits)

lemma sys_fresh_step:
  assumes "sys_step env ctx announced S T" "sys_fresh S"
  shows "sys_fresh T"
  using assms(1)
proof cases
  case (step_staking_event input s' tasks)
  obtain state event where input: "input = (state, event)" by (cases input)
  note event = step_staking_event(2,3) [unfolded input]
  have "relay_fresh s' t" if "t \<in> set (sys_relays T) \<union> set_option (sys_startup T)" for t
    using that assms(2) relay_fresh_event [OF _ event]
    by (auto simp: step_staking_event(1) sys_fresh_def spawn_tasks_relays)
  moreover have "manager_fresh s' (sys_manager S)"
    using assms(2) manager_fresh_event [OF _ event] by (simp add: sys_fresh_def)
  ultimately show ?thesis by (simp add: step_staking_event(1) sys_fresh_def)
next
  case (step_user_data event s' shutdown)
  have "manager_fresh s' (sys_manager S)"
    by (rule manager_fresh_same [of "sys_staking S"])
      (use assms(2) step_user_data(2) in \<open>auto simp: sys_fresh_def process_user_data_event_def split: user_data_event.splits\<close>)
  then show ?thesis
    using assms(2) relay_fresh_user_data [OF _ step_user_data(2)] by (auto simp: step_user_data(1) sys_fresh_def)
next
  case (step_startup t sends t')
  then show ?thesis using assms(2) relay_step_fresh by (auto simp: sys_fresh_def)
next
  case (step_started t)
  then show ?thesis using assms(2) by (auto simp: sys_fresh_def manager_fresh_def)
next
  case (step_relay i sends t')
  then show ?thesis
    using assms(2) relay_step_fresh [OF step_relay(3)] set_update_subset_insert [of "sys_relays S" i t']
    by (auto simp: sys_fresh_def)
next
  case (step_relay_ends ts t us)
  then show ?thesis using assms(2) by (auto simp: sys_fresh_def)
next
  case (step_manager sent phase)
  then show ?thesis using assms(2) manager_step_fresh [OF step_manager(2)] by (auto simp: sys_fresh_def)
next
  case (step_participation accounts s' result)
  then obtain p where s': "s' = (sys_staking S)\<lparr>participates_in_round := p\<rparr>"
    using update_participates_fields by blast
  have "manager_fresh s' (sys_manager S)"
    by (rule manager_fresh_same [of "sys_staking S"]) (use assms(2) in \<open>simp_all add: s' sys_fresh_def\<close>)
  moreover have "relay_fresh s' t = relay_fresh (sys_staking S) t" for t
    by (cases t) (simp_all add: s' enough_balance_def)
  ultimately show ?thesis using assms(2) by (simp add: step_participation(1) sys_fresh_def)
qed (use assms(2) in \<open>simp_all add: sys_fresh_def log_send_opt\<close>)

lemma sys_fresh_reach:
  assumes "sys_reach env ctx announced S T" "sys_fresh S"
  shows "sys_fresh T"
  using assms by (induction rule: sys_reach.induct) (auto intro: sys_fresh_step)

lemma sys_fresh_initial: "sys_fresh (initial_system now s should_vote)"
  by (simp add: sys_fresh_def initial_system_def manager_fresh_def)

subsection \<open>The \<open>elected\<close> flag\<close>

datatype staking_input = StakingInput round_state staking_event | UserInput user_data_event

primrec staking_input_step :: "staking_context \<Rightarrow> staking_input \<Rightarrow> staking \<Rightarrow> staking" where
  "staking_input_step ctx (StakingInput state event) s = fst (process_staking_event ctx (state, event) s)"
| "staking_input_step ctx (UserInput event) s = fst (process_user_data_event ctx event s)"

definition resets_elected :: "staking_input \<Rightarrow> bool" where
  "resets_elected i =
     (case i of StakingInput state _ \<Rightarrow> (case rs_elections_state state of NotStarted _ \<Rightarrow> True | _ \<Rightarrow> False) | UserInput _ \<Rightarrow> False)"

definition requests_membership :: "staking_input \<Rightarrow> bool" where
  "requests_membership i = (case i of UserInput (RelayMembershipRequested _) \<Rightarrow> True | _ \<Rightarrow> False)"

lemma elected_step:
  assumes "tristate_valid (elected s)"
  shows "tristate_valid (elected (staking_input_step ctx i s))"
    and "tristate_load (elected (staking_input_step ctx i s)) = Some True \<longleftrightarrow>
      requests_membership i \<or> (\<not> resets_elected i \<and> tristate_load (elected s) = Some True)"
proof -
  have "tristate_valid (elected (staking_input_step ctx i s)) \<and>
    (tristate_load (elected (staking_input_step ctx i s)) = Some True \<longleftrightarrow>
      requests_membership i \<or> (\<not> resets_elected i \<and> tristate_load (elected s) = Some True))"
  proof (cases i)
    case (StakingInput state event)
    then show ?thesis
      using assms
      by (cases event; cases "rs_elections_state state")
        (auto simp: process_staking_event_def set_round_state_def Let_def resets_elected_def requests_membership_def
          split: option.splits)
  next
    case (UserInput event)
    then show ?thesis
      using assms
      by (cases event) (auto simp: process_user_data_event_def resets_elected_def requests_membership_def)
  qed
  then show "tristate_valid (elected (staking_input_step ctx i s))"
    and "tristate_load (elected (staking_input_step ctx i s)) = Some True \<longleftrightarrow>
      requests_membership i \<or> (\<not> resets_elected i \<and> tristate_load (elected s) = Some True)"
    by simp_all
qed

lemma elected_run:
  assumes "tristate_valid (elected s)"
  shows "tristate_valid (elected (fold (staking_input_step ctx) inputs s))
    \<and> (tristate_load (elected (fold (staking_input_step ctx) inputs s)) = Some True \<longleftrightarrow>
        (\<exists>before i after. inputs = before @ i # after \<and> requests_membership i \<and> \<not> list_ex resets_elected after)
        \<or> (tristate_load (elected s) = Some True \<and> \<not> list_ex resets_elected inputs))"
proof (induction inputs rule: rev_induct)
  case (snoc i inputs)
  let ?s = "fold (staking_input_step ctx) inputs s"
  have "(\<exists>before j after. inputs @ [i] = before @ j # after \<and> requests_membership j \<and> \<not> list_ex resets_elected after) \<longleftrightarrow>
      requests_membership i \<or> (\<not> resets_elected i \<and>
        (\<exists>before j after. inputs = before @ j # after \<and> requests_membership j \<and> \<not> list_ex resets_elected after))"
    (is "?new \<longleftrightarrow> ?old")
  proof
    assume ?new
    then obtain before j after where new: "inputs @ [i] = before @ j # after" "requests_membership j"
      "\<not> list_ex resets_elected after" by blast
    then show ?old by (cases after rule: rev_cases) (auto simp: list_ex_iff)
  next
    assume ?old
    then show ?new
    proof
      assume "requests_membership i"
      then show ?new by (intro exI [of _ inputs] exI [of _ i] exI [of _ "[]"]) simp
    next
      assume "\<not> resets_elected i \<and>
        (\<exists>before j after. inputs = before @ j # after \<and> requests_membership j \<and> \<not> list_ex resets_elected after)"
      then obtain before j after where old: "\<not> resets_elected i" "inputs = before @ j # after"
        "requests_membership j" "\<not> list_ex resets_elected after" by blast
      then show ?new
        by (intro exI [of _ before] exI [of _ j] exI [of _ "after @ [i]"]) (simp add: list_ex_iff)
    qed
  qed
  with snoc.IH elected_step [of ?s ctx i] show ?case by (auto simp: assms)
qed (simp add: assms)

subsection \<open>Collected rewards\<close>

lemma saturating_sub_le: "unat (saturating_sub a b) = unat a - unat b"
  by (auto simp: saturating_sub_def word_le_nat_alt unat_sub)

lemma old_rounds_nats: "map unat (old_rounds current) = rev [unat current - 2 ..< Suc (unat current)]"
proof -
  have "n < 2 ^ 32" if "n \<le> unat current" for n
    using that unsigned_less [of current, where ?'a = nat] by simp
  then have "unat (of_nat n :: u32) = n" if "n \<le> unat current" for n
    using that by (simp add: unat_of_nat take_bit_nat_eq_self)
  then show ?thesis
    by (auto simp: old_rounds_def saturating_sub_le rev_map [symmetric] comp_def intro!: map_idI simp del: upt_Suc)
qed

lemma old_rounds_distinct: "distinct (old_rounds current)"
proof -
  have "distinct (map unat (old_rounds current))" by (simp only: old_rounds_nats) simp
  then show ?thesis by (simp add: distinct_map)
qed

lemma old_rounds_set: "r \<in> set (old_rounds current) \<longleftrightarrow> unat current - 2 \<le> unat r \<and> unat r \<le> unat current"
proof -
  have "unat r \<in> set (map unat (old_rounds current)) \<longleftrightarrow> unat current - 2 \<le> unat r \<and> unat r \<le> unat current"
    by (simp only: old_rounds_nats) auto
  moreover have "unat r \<in> set (map unat (old_rounds current)) \<longleftrightarrow> r \<in> set (old_rounds current)"
    by (simp add: image_iff) (metis word_unat_eq_iff)
  ultimately show ?thesis by simp
qed

lemma collect_rewards_ok:
  assumes "collect_rewards collect rounds = (tasks, Inr ())" "distinct rounds"
    "\<And>r task. collect r = Inr (Some task) \<Longrightarrow> fst task = r"
  shows "(task \<in> set tasks \<longleftrightarrow> (\<exists>r \<in> set rounds. collect r = Inr (Some task)))
    \<and> distinct (map fst tasks) \<and> fst ` set tasks \<subseteq> set rounds"
  using assms(1,2)
proof (induction rounds arbitrary: tasks)
  case (Cons r rounds)
  consider "collect r = Inr None" "collect_rewards collect rounds = (tasks, Inr ())"
    | t ts where "collect r = Inr (Some t)" "tasks = t # ts" "collect_rewards collect rounds = (ts, Inr ())"
    using Cons.prems(1) by (auto split: sum.splits option.splits prod.splits)
  then show ?case
  proof cases
    case 1
    with Cons.IH [of tasks] Cons.prems(2) show ?thesis by auto
  next
    case (2 t ts)
    with Cons.IH [of ts] Cons.prems(2) assms(3) [of r t] show ?thesis by auto
  qed
qed simp

lemma try_collect_iff: "try_collect_reward env ctx accounts c r = Inr (Some task) \<longleftrightarrow>
    fst task = r \<and> (\<exists>round_address round_contract. get_relay_round_address env c r = Inr round_address
      \<and> accounts round_address = Inr (Some round_contract)
      \<and> has_unclaimed_reward env round_contract (staker_account ctx) \<noteq> Inr False
      \<and> relay_round_end_time env round_contract = Inr (snd task))"
proof (cases "get_relay_round_address env c r")
  case (Inr round_address)
  then show ?thesis
    by (cases task) (auto simp: try_collect_reward_def split: sum.split option.split)
qed (simp add: try_collect_reward_def)

lemma try_collect_Inl: "(\<exists>x. try_collect_reward env ctx accounts c r = Inr x) \<longleftrightarrow>
    (\<exists>a. get_relay_round_address env c r = Inr a)"
  by (cases "get_relay_round_address env c r") (auto simp: try_collect_reward_def split: sum.split option.split)

lemma collect_rewards_stop:
  assumes "collect_rewards collect rounds = (tasks, result)"
  shows "(result = Inr ()) = (\<forall>r \<in> set rounds. \<exists>x. collect r = Inr x)"
  using assms
proof (induction rounds arbitrary: tasks)
  case (Cons r rounds)
  show ?case
  proof (cases "collect r")
    case (Inr x)
    then obtain ts where "collect_rewards collect rounds = (ts, result)"
      using Cons.prems by (auto split: option.splits prod.splits)
    from Cons.IH [OF this] Inr show ?thesis by auto
  qed (use Cons.prems in auto)
qed simp

subsection \<open>Properties\<close>

text \<open>
  C31: Whatever happens in whatever order (events, deposits, notifications, sleeping tasks, restarts of
  the loop, messages that expire and are sent again, any contract behaviour), every message of the staking part has its reason at the time it is
  sent: elections are started, or ended, only after the time that a state of the contract named for it;
  membership is requested only with a balance that covered the deposit, and never when elections are
  ignored; a reward is claimed at least ten seconds after the round's end.
\<close>

theorem staking_sends_justified:
  assumes "staking_new env ctx confirmed snapshots acc = Some (Inr (s, should_vote))"
    and "sys_reach env ctx allowed (initial_system start s should_vote) S"
    and "(now, m) \<in> set (sys_log S)"
  shows "case m of
      SendStartElection \<Rightarrow> (\<exists>state \<in> snd ` set (sys_history S). \<exists>time.
        rs_elections_state state = NotStarted time \<and> unat time \<le> unat now)
    | SendEndElection \<Rightarrow> (\<exists>state \<in> snd ` set (sys_history S). \<exists>begun time.
        rs_elections_state state = Started begun time \<and> unat time \<le> unat now)
    | SendBecomeRelay \<Rightarrow> \<not> ignore_elections ctx
        \<and> (\<exists>(held, state) \<in> set (sys_history S). min_relay_deposit state \<le> held)
    | SendGetReward r end_time \<Rightarrow> unat end_time + 10 \<le> unat now"
proof -
  have "sys_justified ctx (initial_system start s should_vote)"
    using staking_new_votes assms(1) by (intro sys_justified_initial) auto
  from sys_justified_reach [OF assms(2) this] assms(3) have "send_justified ctx (sys_history S) now m"
    by (auto simp: sys_justified_def)
  then show ?thesis by (simp add: send_justified_def)
qed

text \<open>
  C32: No wake-up of the elections loop is missed: with a contract that announces its changes, whenever
  the loop waits for a state of the elections that is no longer the current one, it can go on and read
  the state again. It is never stuck in an old phase.
\<close>

theorem elections_loop_not_stuck:
  assumes "sys_reach env ctx announced (initial_system start s should_vote) S"
    and "manager_waits (sys_manager S) = Some (p, c)"
    and "\<not> pending_matches (rs_elections_state (current_state (sys_staking S))) p"
  shows "manager_step (sys_clock S) (sys_staking S) (sys_manager S) None ManagerReading"
proof -
  have "manager_fresh (sys_staking S) (sys_manager S)"
    using sys_fresh_reach [OF assms(1) sys_fresh_initial] by (simp add: sys_fresh_def)
  then have tickets: "pending_tickets (sys_staking S) p"
    and finished: "(\<exists>t. p = PendingFinished t) \<longrightarrow> sys_manager S = ManagerAwaiting p c"
    and ready: "inner_ready (sys_staking S) p \<or> outer_ready (sys_staking S) c p"
    using assms(2,3) by (auto simp: manager_fresh_def)
  show ?thesis
  proof (cases "\<exists>t. p = PendingFinished t")
    case True
    with finished ready show ?thesis by (auto intro: manager_step.intros)
  next
    case False
    with tickets ready have "outer_ready (sys_staking S) c p" by (cases p) auto
    with assms(2) show ?thesis by (rule manager_cancelled)
  qed
qed

text \<open>
  No deposit is missed: a vote that waits for balance while the balance covers the deposit can go on,
  and its next check then sends the request.
\<close>

theorem deposit_not_missed:
  assumes "sys_reach env ctx announced (initial_system start s should_vote) S"
    and "RelayWaiting e b c \<in> set (sys_relays S) \<union> set_option (sys_startup S)"
    and "min_relay_deposit (current_state (sys_staking S)) \<le> user_data_balance (sys_staking S)"
  shows "relay_step (sys_staking S) (RelayWaiting e b c) False (Some (RelayChecking e))
    \<and> relay_step (sys_staking S) (RelayChecking e) False (Some (RelayDelivering e))
    \<and> relay_step (sys_staking S) (RelayDelivering e) True (Some (RelayDelivering e))"
proof -
  have "enough_balance (sys_staking S)" using assms(3) by (simp add: enough_balance_def)
  moreover have "relay_fresh (sys_staking S) (RelayWaiting e b c)"
    using sys_fresh_reach [OF assms(1) sys_fresh_initial] assms(2) unfolding sys_fresh_def by blast
  ultimately show ?thesis by (auto intro: relay_step.intros)
qed

text \<open>
  The relay counts as elected exactly when it was at the start, or a request for membership was seen,
  and no event since then showed elections that had not started.
\<close>

theorem elected_exactly:
  assumes "staking_new env ctx confirmed snapshots acc = Some (Inr (s, should_vote))"
  shows "tristate_load (elected (fold (staking_input_step ctx) inputs s)) = Some True \<longleftrightarrow>
    (\<exists>before i after. inputs = before @ i # after \<and> requests_membership i \<and> \<not> list_ex resets_elected after)
    \<or> (tristate_load (elected s) = Some True \<and> \<not> list_ex resets_elected inputs)"
proof -
  have "tristate_valid (elected s)"
    using assms by (auto simp: staking_new_def rbind_eq_Inr_iff staking_object_def split: option.splits sum.splits)
  then show ?thesis by (simp add: elected_run)
qed

text \<open>
  C33: Collecting the unclaimed rewards starts exactly one task for each of the current and the two
  previous rounds whose contract exists, is not known to have nothing for the relay, and tells its end.
\<close>

theorem unclaimed_rewards_exact:
  assumes "collect_all_unclaimed_reward env ctx (Inr accounts) s = (tasks, Inr ())"
    and "accounts (staking_account s) = Inr (Some staking_contract)"
    and "get_relay_rounds_details env staking_contract = Inr details"
  shows "((r, end_time) \<in> set tasks \<longleftrightarrow>
      unat (current_relay_round details) - 2 \<le> unat r \<and> unat r \<le> unat (current_relay_round details)
      \<and> (\<exists>round_address round_contract. get_relay_round_address env staking_contract r = Inr round_address
        \<and> accounts round_address = Inr (Some round_contract)
        \<and> has_unclaimed_reward env round_contract (staker_account ctx) \<noteq> Inr False
        \<and> relay_round_end_time env round_contract = Inr end_time))
    \<and> distinct (map fst tasks)"
proof -
  have "collect_rewards (try_collect_reward env ctx accounts staking_contract)
      (old_rounds (current_relay_round details)) = (tasks, Inr ())"
    using assms by (simp add: collect_all_unclaimed_reward_def)
  from collect_rewards_ok [OF this old_rounds_distinct, of "(r, end_time)"] show ?thesis
    by (auto simp: try_collect_iff old_rounds_set)
qed

text \<open>
  The keys are confirmed without error exactly when the contract holds this relay's keys and each of
  the two is confirmed there or by an event; a key that is not this relay's ends the relay before
  anything is sent, and only what is not confirmed is sent.
\<close>

theorem keys_confirmed_exactly:
  assumes "user_data_get_details env c = Inr details"
    and "deliver (unsigned_message_new user_data_contract_confirm_ton_account account_id) = Some (Inr ())"
    and "get_subscriber (etc_chain_id (network_configuration configuration)) = Some verify"
    and "verify (staker_account ctx) (etc_event_emitter (network_configuration configuration)) = Some (Inr ())"
  shows "(snd (ensure_verified env ctx deliver get_subscriber events account_id configuration c) = Some (Inr ()) \<longleftrightarrow>
      relay_eth_address details = keystore_eth_address ctx \<and> relay_ton_pubkey details = keystore_ton_key ctx
      \<and> (ton_pubkey_confirmed details \<or> list_ex (confirms_ton (keystore_ton_key ctx)) events)
      \<and> (eth_address_confirmed details \<or> list_ex (confirms_eth (keystore_eth_address ctx)) events))
    \<and> fst (ensure_verified env ctx deliver get_subscriber events account_id configuration c) =
      (if relay_eth_address details \<noteq> keystore_eth_address ctx \<or> relay_ton_pubkey details \<noteq> keystore_ton_key ctx then []
       else (if ton_pubkey_confirmed details then []
             else [ConfirmTonAccount (unsigned_message_new user_data_contract_confirm_ton_account account_id)])
         @ (if eth_address_confirmed details then []
            else [VerifyEthAddress (etc_chain_id (network_configuration configuration)) (staker_account ctx)
              (etc_event_emitter (network_configuration configuration))]))"
  using assms by (auto simp: ensure_verified_def Let_def)

text \<open>
  After a round has started, the check of the participation looks for the staking contract's own
  address among the stakers, not for the relay's staker account: the relay is reported as not taking
  part although its account is in the round.
\<close>

theorem participation_misreported:
  assumes "process_staking_event ctx (state, RelayRoundInitialized e) s = (s1, tasks)"
    and "accounts (staking_account s) = Inr (Some staking_contract)"
    and "get_relay_rounds_details env staking_contract = Inr details"
    and "get_relay_round_address env staking_contract (current_relay_round details) = Inr round_address"
    and "accounts round_address = Inr (Some round_contract)"
    and "relay_round_get_details env round_contract = Inr round_details"
    and "staker_account ctx \<in> set (staker_addrs round_details)"
    and "staking_account s \<notin> set (staker_addrs round_details)"
  shows "tristate_load (participates_in_round (fst (update_participates_in_round_status env (Inr accounts) s1))) = Some False"
proof -
  have "staking_account s1 = staking_account s" "participates_in_round s1 = 2"
    using assms(1) by (auto simp: process_staking_event_def set_round_state_def tristate_store_def Let_def
        split: elections_state.splits)
  with assms show ?thesis
    by (simp add: update_participates_in_round_status_def store_if_empty_def tristate_load_def)
qed

text \<open>A relay with account \<open>[2]\<close>, the staking contract \<open>[3]\<close>, round 2 whose elections may start at 0.\<close>

definition demo_staking_context :: staking_context where
  "demo_staking_context = \<lparr>staker_account = [2], ignore_elections = False, keystore_ton_key = [6],
     keystore_eth_address = [5]\<rparr>"

definition demo_round_state :: "elections_state \<Rightarrow> round_state" where
  "demo_round_state st = \<lparr>rs_number = 2, rs_elections_state = st, next_elections_account = [1], min_relay_deposit = 5\<rparr>"

definition demo_staking :: "elections_state \<Rightarrow> staking" where
  "demo_staking st = staking_object 4 (demo_round_state st) True None [3] [1]"

definition demo_accounts :: all_accounts where
  "demo_accounts a = Inr (Some demo_contract)"

lemmas demo_staking_simps = demo_staking_env_def demo_staking_context_def demo_abi_def demo_accounts_def demo_address_def
  call_local_def run_local_def get_relay_config_def get_relay_rounds_details_def get_relay_round_address_def
  get_election_address_def get_user_data_address_def relay_round_get_details_def user_data_get_details_def
  has_unclaimed_reward_def relay_round_end_time_def

lemma demo_staking_new:
  "staking_new demo_staking_env demo_staking_context (Some (Inr ())) [Inr demo_accounts] [3] =
     Some (Inr (demo_staking (NotStarted 0), False))"
  by (simp add: staking_new_def get_round_state_def elections_state_of_def elections_participation_def
      demo_staking_def demo_round_state_def demo_staking_simps)

lemma demo_manager_sleeps:
  "sys_step env ctx allowed (initial_system 0 (demo_staking (NotStarted 0)) False)
     ((initial_system 0 (demo_staking (NotStarted 0)) False)
       \<lparr>sys_manager := ManagerSleeping (PendingNotStarted 0 0 0) 0 0\<rparr>)"
proof -
  let ?S = "initial_system 0 (demo_staking (NotStarted 0)) False"
  have "manager_step (sys_clock ?S) (sys_staking ?S) (sys_manager ?S) None
      (ManagerSleeping (PendingNotStarted 0 0 0) 0 0)"
    using manager_reads [of "sys_clock ?S" "sys_staking ?S"]
    by (simp add: initial_system_def manager_read_def pending_state_def delay_until_def demo_staking_def
        staking_object_def demo_round_state_def)
  from step_manager [OF this, of env ctx allowed] show ?thesis by (simp add: log_opt_def)
qed

lemma sys_reach1: "sys_step env ctx allowed S T \<Longrightarrow> sys_reach env ctx allowed S T"
  by (rule sys_next [OF sys_refl])

theorem staking_sends_justified_witness:
  "\<exists>S :: staking_system. (0, SendStartElection) \<in> set (sys_log S)
     \<and> (\<exists>state \<in> snd ` set (sys_history S). \<exists>time. rs_elections_state state = NotStarted time \<and> unat time \<le> 0)"
proof -
  let ?S = "(initial_system 0 (demo_staking (NotStarted 0)) False)
       \<lparr>sys_manager := ManagerSleeping (PendingNotStarted 0 0 0) 0 0\<rparr>"
  let ?T = "log_opt (Some SendStartElection) (?S\<lparr>sys_manager := ManagerDelivering (PendingNotStarted 0 0 0) 0\<rparr>)"
  have "manager_step (sys_clock ?S) (sys_staking ?S) (sys_manager ?S) (Some SendStartElection)
      (ManagerDelivering (PendingNotStarted 0 0 0) 0)"
    using manager_acts [of 0 "sys_clock ?S" "sys_staking ?S" "PendingNotStarted 0 0 0" 0] by simp
  from step_manager [OF this, of demo_staking_env demo_staking_context "\<lambda>_ _. True"]
  have reach: "sys_reach demo_staking_env demo_staking_context (\<lambda>_ _. True)
      (initial_system 0 (demo_staking (NotStarted 0)) False) ?T"
    by (rule sys_next [OF sys_reach1 [OF demo_manager_sleeps]])
  have log: "(0, SendStartElection) \<in> set (sys_log ?T)" by (simp add: initial_system_def)
  from staking_sends_justified [OF demo_staking_new reach log]
  have "\<exists>state \<in> snd ` set (sys_history ?T). \<exists>time. rs_elections_state state = NotStarted time \<and> unat time \<le> 0"
    by (simp only: staking_send.case unsigned_0)
  with log show ?thesis by blast
qed

theorem elections_loop_not_stuck_witness:
  "manager_step 0 ((demo_staking (Started 0 9))\<lparr>elections_start_notify := 1, elected := 0\<rparr>)
     (ManagerSleeping (PendingNotStarted 0 0 0) 0 0) None ManagerReading"
proof -
  let ?S = "(initial_system 0 (demo_staking (NotStarted 0)) False)
       \<lparr>sys_manager := ManagerSleeping (PendingNotStarted 0 0 0) 0 0\<rparr>"
  let ?input = "(demo_round_state (Started 0 9), ElectionStarted \<lparr>es_round_num = 2, election_start_time = 0,
    election_end_time = 9, election_addr = []\<rparr>)"
  let ?s = "(demo_staking (Started 0 9))\<lparr>elections_start_notify := 1, elected := 0\<rparr>"
  have "announced (sys_staking ?S) ?input"
    by (simp add: announced_def demo_round_state_def initial_system_def demo_staking_def staking_object_def)
  moreover have "process_staking_event demo_staking_context ?input (sys_staking ?S) = (?s, [BecomeRelayNextRound])"
    by (simp add: process_staking_event_def set_round_state_def initial_system_def demo_staking_def staking_object_def
        demo_round_state_def demo_staking_context_def store_if_empty_def tristate_new_def tristate_store_def)
  ultimately have "sys_reach demo_staking_env demo_staking_context announced
      (initial_system 0 (demo_staking (NotStarted 0)) False) (fold spawn_task [BecomeRelayNextRound] (put_staking ?s ?S))"
    by (intro sys_next [OF sys_reach1 [OF demo_manager_sleeps]] step_staking_event)
  from elections_loop_not_stuck [OF this] show ?thesis
    by (simp add: initial_system_def put_staking_def demo_staking_def staking_object_def demo_round_state_def)
qed

theorem deposit_not_missed_witness:
  "relay_step ((demo_staking (Started 0 9))\<lparr>user_data_balance := 7, user_data_balance_changed_notify := 1\<rparr>)
     (RelayWaiting 0 0 0) False (Some (RelayChecking 0))"
proof -
  let ?S = "initial_system 0 (demo_staking (Started 0 9)) True"
  let ?T = "log_opt None (?S\<lparr>sys_startup := Some (RelayWaiting 0 0 0)\<rparr>)"
  let ?s = "(demo_staking (Started 0 9))\<lparr>user_data_balance := 7, user_data_balance_changed_notify := 1\<rparr>"
  have "relay_step (sys_staking ?S) (RelayChecking 0) False (Some (RelayWaiting 0 0 0))"
    using relay_waits [of "sys_staking ?S" 0]
    by (simp add: initial_system_def enough_balance_def demo_staking_def staking_object_def demo_round_state_def)
  moreover have "sys_startup ?S = Some (RelayChecking 0)"
    by (simp add: initial_system_def demo_staking_def staking_object_def)
  ultimately have "sys_step demo_staking_env demo_staking_context announced ?S ?T"
    using step_startup [of ?S "RelayChecking 0" False] by simp
  note first = this
  have "process_user_data_event demo_staking_context (DepositProcessed \<lparr>tokens_deposited = 3, new_balance = 7\<rparr>)
      (sys_staking ?T) = (?s, False)"
    by (simp add: process_user_data_event_def initial_system_def demo_staking_def staking_object_def)
  from step_user_data [OF this, of demo_staking_env announced]
  have reach: "sys_reach demo_staking_env demo_staking_context announced ?S
      ((put_staking ?s ?T)\<lparr>sys_shutdown := sys_shutdown ?T \<or> False\<rparr>)"
    by (rule sys_next [OF sys_reach1 [OF first]])
  from deposit_not_missed [OF reach, of 0 0 0] show ?thesis
    by (simp add: demo_staking_def staking_object_def demo_round_state_def log_opt_def)
qed

theorem elected_exactly_witness:
  "tristate_load (elected (fold (staking_input_step demo_staking_context)
      [UserInput (RelayMembershipRequested \<lparr>mr_round_num = 2, mr_tokens = 9, mr_ton_pubkey = [], mr_eth_address = [], lock_until = 0\<rparr>)]
      (demo_staking (NotStarted 0)))) = Some True"
  by (subst elected_exactly [OF demo_staking_new], rule disjI1, intro exI [of _ "[]"])
    (auto simp: requests_membership_def)

theorem unclaimed_rewards_exact_witness:
  "(1, 2) \<in> set (fst (collect_all_unclaimed_reward demo_staking_env demo_staking_context (Inr demo_accounts)
     (demo_staking Finished)))"
proof -
  let ?r = "collect_all_unclaimed_reward demo_staking_env demo_staking_context (Inr demo_accounts) (demo_staking Finished)"
  have rounds: "old_rounds 2 = [2, 1, 0]" by (simp add: old_rounds_def saturating_sub_def upt_rec)
  have "?r = (fst ?r, Inr ())"
    by (simp add: collect_all_unclaimed_reward_def rounds try_collect_reward_def demo_staking_simps)
  from unclaimed_rewards_exact [OF this, of demo_contract] show ?thesis
    by (simp add: demo_staking_simps)
qed

theorem keys_confirmed_exactly_witness:
  "snd (ensure_verified demo_staking_env demo_staking_context (\<lambda>_. Some (Inr ())) (\<lambda>_. Some (\<lambda>_ _. Some (Inr ())))
      [TonPubkeyConfirmed \<lparr>confirmed_ton_pubkey = [6]\<rparr>] [1] (demo_details \<lparr>etc_chain_id = 1, etc_event_emitter = [5],
        event_blocks_to_confirm = 12, etc_proxy = [], start_block_number = 0, end_block_number = 0\<rparr> [8]) demo_contract) = Some (Inr ())"
proof -
  have "user_data_get_details demo_staking_env demo_contract = Inr \<lparr>ud_token_balance = 4, relay_lock_until = 0,
      ud_current_version = 0, ud_reward_rounds = [], relay_eth_address = [5], eth_address_confirmed = True,
      relay_ton_pubkey = [6], ton_pubkey_confirmed = False, slashed = False, ud_root = [], ud_user = [], ud_dao_root = []\<rparr>"
    by (simp add: demo_staking_simps)
  from keys_confirmed_exactly [OF this, of "\<lambda>_. Some (Inr ())" "[1]" "\<lambda>_. Some (\<lambda>_ _. Some (Inr ()))"
      _ "\<lambda>_ _. Some (Inr ())" demo_staking_context, THEN conjunct1]
  show ?thesis by (simp add: demo_staking_context_def confirms_ton_def)
qed

theorem participation_misreported_witness:
  "tristate_load (participates_in_round (fst (update_participates_in_round_status demo_staking_env (Inr demo_accounts)
     (fst (process_staking_event demo_staking_context (demo_round_state Finished, RelayRoundInitialized \<lparr>ri_round_num = 2,
       ri_round_start_time = 0, ri_round_end_time = 0, ri_round_addr = [], ri_relays_count = 1, ri_duplicate = False\<rparr>)
       (demo_staking Finished)))))) = Some False"
  by (rule participation_misreported [where accounts = demo_accounts and env = demo_staking_env
        and ctx = demo_staking_context and staking_contract = demo_contract and round_contract = demo_contract, OF surjective_pairing])
    (simp_all add: demo_staking_simps demo_staking_def staking_object_def, simp_all)

end
