(* ===== verification/Bridge_Search.thy ===== *)
theory Bridge_Search
  imports Bridge_Config Code_Hash_Index Runtime_Storage
begin

section \<open>Searching for events at the start\<close>

text \<open>
  \<open>Bridge::get_all_events\<close> of \<open>src/engine/bridge/mod.rs\<close>: for each code hash of an event contract, the
  accounts with this code are read from a snapshot of the primary index, in RocksDB's bytewise order of
  the keys from a seek position up to an exclusive upper bound, and those that still need the relay are
  added and updated. The code hashes are searched by concurrent tasks that only add events; here
  they run one after another in the order in which the channel delivers their results.
\<close>

subsection \<open>The metrics\<close>

record bridge_metrics =
  pending_eth_ton_event_count :: usize
  pending_ton_eth_event_count :: usize
  pending_sol_ton_event_count :: usize
  pending_ton_sol_event_count :: usize
  total_active_eth_ton_event_configurations :: usize
  total_active_ton_eth_event_configurations :: usize
  total_active_sol_ton_event_configurations :: usize
  total_active_ton_sol_event_configurations :: usize

definition bridge_metrics_of :: "bridge \<Rightarrow> bridge_metrics" where
  "bridge_metrics_of b = \<lparr>pending_eth_ton_event_count = count (eth_ton_events_state b),
     pending_ton_eth_event_count = count (ton_eth_events_state b),
     pending_sol_ton_event_count = count (sol_ton_events_state b),
     pending_ton_sol_event_count = count (ton_sol_events_state b),
     total_active_eth_ton_event_configurations = total_active_eth_ton b,
     total_active_ton_eth_event_configurations = total_active_ton_eth b,
     total_active_sol_ton_event_configurations = total_active_sol_ton b,
     total_active_ton_sol_event_configurations = total_active_ton_sol b\<rparr>"

subsection \<open>Iterating over the index\<close>

fun insert_key :: "bytes \<Rightarrow> bytes list \<Rightarrow> bytes list" where
  "insert_key k [] = [k]"
| "insert_key k (x # xs) = (if bytes_le k x then k # x # xs else x # insert_key k xs)"

definition iterate_range :: "bytes \<Rightarrow> bytes \<Rightarrow> (bytes, bytes) hashmap \<Rightarrow> bytes list" where
  "iterate_range from upper_bound t =
     foldr insert_key (filter (\<lambda>k. bytes_le from k \<and> bytes_le k upper_bound \<and> k \<noteq> upper_bound) (map fst t)) []"

definition code_hash_keys :: "uint256 \<Rightarrow> db \<Rightarrow> bytes list" where
  "code_hash_keys code_hash snapshot =
     iterate_range (code_hash @ replicate 33 0) (code_hash @ replicate 33 0xff) (code_hashes snapshot)"

subsection \<open>Events\<close>

definition event_configuration_of :: "abi_env \<Rightarrow> event_type \<Rightarrow> existing_contract \<Rightarrow> uint256 res" where
  "event_configuration_of vm kind contract =
     (case kind of
        EthTon \<Rightarrow> rbind (eth_ton_event_init_data_of vm contract) (\<lambda>d. Inr (et_configuration d))
      | TonEth \<Rightarrow> rbind (ton_eth_event_init_data_of vm contract) (\<lambda>d. Inr (te_configuration d))
      | SolTon \<Rightarrow> rbind (sol_ton_event_init_data_of vm contract) (\<lambda>d. Inr (st_configuration d))
      | TonSol \<Rightarrow> rbind (ton_sol_event_init_data_of vm contract) (\<lambda>d. Inr (ts_configuration d)))"

definition unique_event_configurations :: "event_type \<Rightarrow> bridge \<Rightarrow> uint256 list" where
  "unique_event_configurations kind b =
     (case kind of
        EthTon \<Rightarrow> map fst (eth_ton_event_configurations b)
      | TonEth \<Rightarrow> map fst (ton_eth_event_configurations b)
      | SolTon \<Rightarrow> map fst (sol_ton_event_configurations b)
      | TonSol \<Rightarrow> map fst (ton_sol_event_configurations b))"

primrec events_of :: "event_type \<Rightarrow> bridge \<Rightarrow> events_state" where
  "events_of EthTon b = eth_ton_events_state b"
| "events_of TonEth b = ton_eth_events_state b"
| "events_of SolTon b = sol_ton_events_state b"
| "events_of TonSol b = ton_sol_events_state b"

primrec set_events :: "event_type \<Rightarrow> events_state \<Rightarrow> bridge \<Rightarrow> bridge" where
  "set_events EthTon st b = b\<lparr>eth_ton_events_state := st\<rparr>"
| "set_events TonEth st b = b\<lparr>ton_eth_events_state := st\<rparr>"
| "set_events SolTon st b = b\<lparr>sol_ton_events_state := st\<rparr>"
| "set_events TonSol st b = b\<lparr>ton_sol_events_state := st\<rparr>"

text \<open>Whether an event contract found in the index is to be watched.\<close>

definition event_wanted :: "bridge_env \<Rightarrow> event_type \<Rightarrow> uint256 list \<Rightarrow> existing_contract \<Rightarrow> bool" where
  "event_wanted env kind configurations contract =
     (case event_base_process (abi env) contract (ton_public_key env) (kind = TonEth) of
        Inl e \<Rightarrow> False
      | Inr Remove \<Rightarrow> False
      | Inr _ \<Rightarrow>
          (kind \<in> {EthTon, TonEth} \<or> sol_enabled env)
          \<and> (case event_configuration_of (abi env) kind contract of
               Inl e \<Rightarrow> False
             | Inr configuration \<Rightarrow> configuration \<in> set configurations))"

fun iterate_code_hash_events ::
  "bridge_env \<Rightarrow> event_type \<Rightarrow> uint256 list \<Rightarrow> (uint256 \<Rightarrow> existing_contract option res) \<Rightarrow>
     bytes list \<Rightarrow> events_state \<Rightarrow> events_state \<times> bridge_effect list \<times> unit res"
where
  "iterate_code_hash_events env kind configurations get_state [] st = (st, [], Inr ())"
| "iterate_code_hash_events env kind configurations get_state (key # keys) st =
     (if length key \<noteq> CODE_HASHES_KEY_LEN then iterate_code_hash_events env kind configurations get_state keys st
      else let hash = drop 33 key
        in case rbind (get_state hash) (ok_or (AccountNotFound hash)) of
             Inl e \<Rightarrow> (st, [], Inl e)
           | Inr contract \<Rightarrow>
               if event_wanted env kind configurations contract
               then (case add_pending_event hash st of
                       (new, st, subscribed) \<Rightarrow>
                         (case iterate_code_hash_events env kind configurations get_state keys st of
                            (st, effects, result) \<Rightarrow>
                              (st, (if new then subscribed @ [SpawnUpdate kind hash] else []) @ effects, result)))
               else iterate_code_hash_events env kind configurations get_state keys st)"

text \<open>All tasks run; the first error received is the result.\<close>

fun search_code_hashes ::
  "bridge_env \<Rightarrow> (uint256 \<Rightarrow> existing_contract option res) \<Rightarrow> db \<Rightarrow> (uint256 \<times> event_type) list \<Rightarrow> bridge \<Rightarrow>
     bridge_result"
where
  "search_code_hashes env get_state snapshot [] b = (b, [], Inr ())"
| "search_code_hashes env get_state snapshot ((code_hash, kind) # hashes) b =
     (case iterate_code_hash_events env kind (unique_event_configurations kind b) get_state
             (code_hash_keys code_hash snapshot) (events_of kind b) of
        (st, effects, result) \<Rightarrow>
          (case search_code_hashes env get_state snapshot hashes (set_events kind st b) of
             (b, later_effects, later_result) \<Rightarrow>
               (b, effects @ later_effects,
                case result of Inl e \<Rightarrow> Inl (Context ''Failed to find all events'') | Inr _ \<Rightarrow> later_result)))"

definition get_all_events ::
  "bridge_env \<Rightarrow> (uint256 \<Rightarrow> existing_contract option res) \<Rightarrow> db option \<Rightarrow> bridge \<Rightarrow> bridge_result"
where
  "get_all_events env get_state snapshot b =
     (case snapshot of
        None \<Rightarrow> (b, [], Inl StorageNotReady)
      | Some snapshot \<Rightarrow> search_code_hashes env get_state snapshot (event_code_hashes b) b)"

subsection \<open>What the iteration visits\<close>

lemma set_insert_key [simp]: "set (insert_key k xs) = insert k (set xs)"
  by (induction xs) auto

lemma set_foldr_insert_key: "set (foldr insert_key ks []) = set ks"
  by (induction ks) simp_all

lemma code_hash_keys_in:
  assumes "length code_hash = 32" "length k = CODE_HASHES_KEY_LEN"
  shows "k \<in> set (code_hash_keys code_hash snapshot) \<longleftrightarrow>
    k \<in> hm_keys (code_hashes snapshot) \<and> take 32 k = code_hash \<and> drop 32 k \<noteq> replicate 33 0xff"
proof -
  have len: "length (take 32 k) = 32" "length (drop 32 k) = 33"
    using assms(2) by (simp_all add: CODE_HASHES_KEY_LEN_def)
  have k: "k = take 32 k @ drop 32 k" by simp
  have low: "bytes_le (code_hash @ replicate 33 0) k \<longleftrightarrow> be_val code_hash < be_val (take 32 k) \<or> code_hash = take 32 k"
    using bytes_le_append [of code_hash "take 32 k" "replicate 33 0" "drop 32 k"] len assms(1)
    unfolding append_take_drop_id by simp
  have high: "bytes_le k (code_hash @ replicate 33 0xff) \<longleftrightarrow> be_val (take 32 k) < be_val code_hash \<or> take 32 k = code_hash"
    using bytes_le_append [of "take 32 k" code_hash "drop 32 k" "replicate 33 0xff"] len assms(1)
      bytes_le_ones [of "drop 32 k" 33]
    unfolding append_take_drop_id by simp
  have eq: "k = code_hash @ replicate 33 0xff \<longleftrightarrow> take 32 k = code_hash \<and> drop 32 k = replicate 33 0xff"
    using assms(1) len(1) by (metis append_eq_append_conv append_take_drop_id)
  show ?thesis
    unfolding code_hash_keys_def iterate_range_def set_foldr_insert_key
    using low high eq by auto
qed

lemma events_of_set_events [simp]:
  "events_of kind (set_events kind' st b) = (if kind = kind' then st else events_of kind b)"
  by (cases kind; cases kind') simp_all

lemma configurations_set_events [simp]:
  "unique_event_configurations kind (set_events kind' st b) = unique_event_configurations kind b"
  by (cases kind; cases kind') (simp_all add: unique_event_configurations_def)

lemma iterate_events_ok:
  assumes "iterate_code_hash_events env kind configurations get_state keys st = (st', effects, Inr ())"
  shows "(hm_get (pending st') hash \<noteq> None \<longleftrightarrow> hm_get (pending st) hash \<noteq> None
      \<or> (\<exists>key \<in> set keys. length key = CODE_HASHES_KEY_LEN \<and> drop 33 key = hash
          \<and> (\<exists>contract. get_state hash = Inr (Some contract) \<and> event_wanted env kind configurations contract)))
    \<and> (SpawnUpdate kind' hash \<in> set effects \<longleftrightarrow>
        kind' = kind \<and> hm_get (pending st) hash = None \<and> hm_get (pending st') hash \<noteq> None)"
  using assms
proof (induction keys arbitrary: st effects)
  case Nil
  then show ?case by auto
next
  case (Cons key keys)
  show ?case
  proof (cases "length key = CODE_HASHES_KEY_LEN")
    case False
    with Cons show ?thesis by simp
  next
    case True
    let ?hash = "drop 33 key"
    obtain contract where contract: "get_state ?hash = Inr (Some contract)"
      using Cons.prems True by (cases "get_state ?hash") (auto simp: Let_def ok_or_def split: option.splits)
    show ?thesis
    proof (cases "event_wanted env kind configurations contract")
      case False
      with Cons True contract show ?thesis by auto
    next
      case wanted: True
      obtain new st1 sub where add: "add_pending_event ?hash st = (new, st1, sub)" by (cases "add_pending_event ?hash st")
      obtain effects1 where rest: "iterate_code_hash_events env kind configurations get_state keys st1 = (st', effects1, Inr ())"
        and effects: "effects = (if new then sub @ [SpawnUpdate kind ?hash] else []) @ effects1"
        using Cons.prems True contract wanted add by (auto split: prod.splits)
      have st1: "hm_get (pending st1) hash = (if hash = ?hash \<and> hm_get (pending st) ?hash = None
          then Some \<lparr>processing_started = False\<rparr> else hm_get (pending st) hash)"
        using pending_add [of ?hash st hash] add by simp
      have new: "new \<longleftrightarrow> hm_get (pending st) ?hash = None" "SpawnUpdate kind' hash \<notin> set sub"
        using add by (auto simp: add_pending_event_def split: if_splits)
      from Cons.IH [OF rest] show ?thesis
        using True contract wanted st1 new effects by auto
    qed
  qed
qed

definition search_hit ::
  "bridge_env \<Rightarrow> (uint256 \<Rightarrow> existing_contract option res) \<Rightarrow> db \<Rightarrow> bridge \<Rightarrow> uint256 \<times> event_type \<Rightarrow>
     event_type \<Rightarrow> uint256 \<Rightarrow> bool"
where
  "search_hit env get_state snapshot b entry kind hash \<longleftrightarrow> snd entry = kind
     \<and> (\<exists>key \<in> set (code_hash_keys (fst entry) snapshot). length key = CODE_HASHES_KEY_LEN \<and> drop 33 key = hash)
     \<and> (\<exists>contract. get_state hash = Inr (Some contract)
         \<and> event_wanted env kind (unique_event_configurations kind b) contract)"

lemma search_code_hashes_ok:
  assumes "search_code_hashes env get_state snapshot hashes b = (b', effects, Inr ())"
  shows "(hm_get (pending (events_of kind b')) hash \<noteq> None \<longleftrightarrow>
      hm_get (pending (events_of kind b)) hash \<noteq> None
      \<or> (\<exists>entry \<in> set hashes. search_hit env get_state snapshot b entry kind hash))
    \<and> (SpawnUpdate kind hash \<in> set effects \<longleftrightarrow>
        hm_get (pending (events_of kind b)) hash = None \<and> hm_get (pending (events_of kind b')) hash \<noteq> None)"
  using assms
proof (induction hashes arbitrary: b effects)
  case Nil
  then show ?case by auto
next
  case (Cons entry hashes)
  obtain code_hash kind1 where entry: "entry = (code_hash, kind1)" by (cases entry)
  obtain st effects1 effects2
    where first: "iterate_code_hash_events env kind1 (unique_event_configurations kind1 b) get_state
        (code_hash_keys code_hash snapshot) (events_of kind1 b) = (st, effects1, Inr ())"
      and rest: "search_code_hashes env get_state snapshot hashes (set_events kind1 st b) = (b', effects2, Inr ())"
      and effects: "effects = effects1 @ effects2"
    using Cons.prems by (auto simp: entry split: prod.splits sum.splits)
  have hit: "search_hit env get_state snapshot (set_events kind1 st b) e kind hash
      = search_hit env get_state snapshot b e kind hash" for e
    by (simp add: search_hit_def)
  note one = iterate_events_ok [OF first, of hash kind]
  have "(\<exists>key \<in> set (code_hash_keys code_hash snapshot). length key = CODE_HASHES_KEY_LEN \<and> drop 33 key = hash
      \<and> (\<exists>contract. get_state hash = Inr (Some contract)
          \<and> event_wanted env kind1 (unique_event_configurations kind1 b) contract))
    \<longleftrightarrow> search_hit env get_state snapshot b entry kind1 hash"
    by (auto simp: search_hit_def entry)
  moreover have "kind \<noteq> kind1 \<Longrightarrow> \<not> search_hit env get_state snapshot b entry kind hash"
    by (simp add: search_hit_def entry)
  ultimately show ?case
    using one Cons.IH [OF rest] unfolding hit effects
    by (cases "kind = kind1") auto
qed

text \<open>A key of the primary index is a code hash, a workchain and an account: the secondary index tells which.\<close>

lemma search_hit_index:
  assumes "index_ok snapshot" "length code_hash = 32" "length hash = 32"
  shows "(\<exists>key \<in> set (code_hash_keys code_hash snapshot). length key = CODE_HASHES_KEY_LEN \<and> drop 33 key = hash)
    \<longleftrightarrow> (\<exists>wc. hm_get (code_hashes_by_address snapshot) (code_hashes_by_address_id wc hash) = Some code_hash
        \<and> wc # hash \<noteq> replicate 33 0xff)"
    (is "?l \<longleftrightarrow> ?r")
proof
  assume ?l
  then obtain key where key: "key \<in> set (code_hash_keys code_hash snapshot)" "length key = CODE_HASHES_KEY_LEN"
    "drop 33 key = hash" by blast
  have ne: "drop 32 key \<noteq> []" using key(2) by (simp add: CODE_HASHES_KEY_LEN_def)
  then obtain wc where wc: "drop 32 key = wc # hash"
    using key(3) by (cases "drop 32 key") (auto simp: drop_Suc tl_drop [symmetric] numeral_eq_Suc)
  have "take 32 key = code_hash" "key \<in> hm_keys (code_hashes snapshot)" "wc # hash \<noteq> replicate 33 0xff"
    using key(1) code_hash_keys_in [OF assms(2) key(2)] wc by auto
  moreover from this wc have "key = code_hashes_id wc hash code_hash"
    by (metis append_take_drop_id code_hashes_id_def)
  ultimately show ?r using index_okD(5) [OF assms(1,2,3)] by auto
next
  assume ?r
  then obtain wc where wc: "hm_get (code_hashes_by_address snapshot) (code_hashes_by_address_id wc hash) = Some code_hash"
    "wc # hash \<noteq> replicate 33 0xff" by blast
  let ?key = "code_hashes_id wc hash code_hash"
  have "length ?key = CODE_HASHES_KEY_LEN" using assms by (simp add: CODE_HASHES_KEY_LEN_def)
  moreover have "?key \<in> hm_keys (code_hashes snapshot)" using index_okD(5) [OF assms(1,2,3)] wc(1) by simp
  moreover have "take 32 ?key = code_hash" "drop 32 ?key = wc # hash" "drop 33 ?key = hash"
    using assms(2) by (simp_all add: code_hashes_id_def)
  ultimately show ?l using code_hash_keys_in [OF assms(2)] wc(2) by metis
qed

lemma search_exact:
  assumes "get_all_events env get_state (Some snapshot) b = (b', effects, Inr ())"
    and "index_ok snapshot" and "\<forall>(code_hash, _) \<in> set (event_code_hashes b). length code_hash = 32"
    and "length hash = 32"
  shows "(hm_get (pending (events_of kind b')) hash \<noteq> None \<longleftrightarrow>
      hm_get (pending (events_of kind b)) hash \<noteq> None
      \<or> (\<exists>code_hash wc. (code_hash, kind) \<in> set (event_code_hashes b)
          \<and> hm_get (code_hashes_by_address snapshot) (code_hashes_by_address_id wc hash) = Some code_hash
          \<and> wc # hash \<noteq> replicate 33 0xff
          \<and> (\<exists>contract. get_state hash = Inr (Some contract)
              \<and> event_wanted env kind (unique_event_configurations kind b) contract)))
    \<and> (SpawnUpdate kind hash \<in> set effects \<longleftrightarrow>
        hm_get (pending (events_of kind b)) hash = None \<and> hm_get (pending (events_of kind b')) hash \<noteq> None)"
proof -
  have "(\<exists>entry \<in> set (event_code_hashes b). search_hit env get_state snapshot b entry kind hash) \<longleftrightarrow>
      (\<exists>code_hash wc. (code_hash, kind) \<in> set (event_code_hashes b)
          \<and> hm_get (code_hashes_by_address snapshot) (code_hashes_by_address_id wc hash) = Some code_hash
          \<and> wc # hash \<noteq> replicate 33 0xff
          \<and> (\<exists>contract. get_state hash = Inr (Some contract)
              \<and> event_wanted env kind (unique_event_configurations kind b) contract))"
    (is "_ \<longleftrightarrow> ?found")
  proof -
    have hit: "search_hit env get_state snapshot b (code_hash, k) kind hash \<longleftrightarrow> k = kind
        \<and> (\<exists>wc. hm_get (code_hashes_by_address snapshot) (code_hashes_by_address_id wc hash) = Some code_hash
            \<and> wc # hash \<noteq> replicate 33 0xff)
        \<and> (\<exists>contract. get_state hash = Inr (Some contract)
            \<and> event_wanted env kind (unique_event_configurations kind b) contract)"
      if "(code_hash, k) \<in> set (event_code_hashes b)" for code_hash k
    proof -
      have "length code_hash = 32" using assms(3) that by auto
      from search_hit_index [OF assms(2) this assms(4)] show ?thesis
        by (simp only: search_hit_def fst_conv snd_conv)
    qed
    show ?thesis
    proof
      assume "\<exists>entry \<in> set (event_code_hashes b). search_hit env get_state snapshot b entry kind hash"
      then obtain code_hash k where "(code_hash, k) \<in> set (event_code_hashes b)"
        "search_hit env get_state snapshot b (code_hash, k) kind hash" by auto
      with hit show ?found by blast
    next
      assume ?found
      then obtain code_hash where "(code_hash, kind) \<in> set (event_code_hashes b)"
        "search_hit env get_state snapshot b (code_hash, kind) kind hash" using hit by blast
      then show "\<exists>entry \<in> set (event_code_hashes b). search_hit env get_state snapshot b entry kind hash" by blast
    qed
  qed
  with search_code_hashes_ok [of env get_state snapshot "event_code_hashes b" b b' effects kind hash] assms(1)
  show ?thesis by (simp add: get_all_events_def)
qed

text \<open>What makes an event contract wanted, in terms of what it answers and of the known configurations.\<close>

lemma known_configuration:
  "event_configuration_of (abi env) kind contract = Inr configuration \<and> configuration \<in> set (unique_event_configurations kind b)
   \<longleftrightarrow> (case kind of
        EthTon \<Rightarrow> (\<exists>init. eth_ton_event_init_data_of (abi env) contract = Inr init \<and> configuration = et_configuration init
          \<and> hm_get (eth_ton_event_configurations b) (et_configuration init) \<noteq> None)
      | TonEth \<Rightarrow> (\<exists>init. ton_eth_event_init_data_of (abi env) contract = Inr init \<and> configuration = te_configuration init
          \<and> hm_get (ton_eth_event_configurations b) (te_configuration init) \<noteq> None)
      | SolTon \<Rightarrow> (\<exists>init. sol_ton_event_init_data_of (abi env) contract = Inr init \<and> configuration = st_configuration init
          \<and> hm_get (sol_ton_event_configurations b) (st_configuration init) \<noteq> None)
      | TonSol \<Rightarrow> (\<exists>init. ton_sol_event_init_data_of (abi env) contract = Inr init \<and> configuration = ts_configuration init
          \<and> hm_get (ton_sol_event_configurations b) (ts_configuration init) \<noteq> None))"
  by (cases kind) (auto simp: event_configuration_of_def unique_event_configurations_def rbind_eq_Inr_iff map_of_eq_None_iff)

lemma event_wanted_iff:
  "event_wanted env kind (unique_event_configurations kind b) contract \<longleftrightarrow>
    (status (abi env) contract = Inr Initializing
                 \<or> (status (abi env) contract = Inr Pending
                     \<or> status (abi env) contract = Inr Confirmed \<and> kind = TonEth \<and> 100000000 \<le> balance (account contract))
                   \<and> (\<exists>voters. get_voters (abi env) contract EmptyVote = Inr voters \<and> ton_public_key env \<in> set voters)
                   \<and> get_api_version (abi env) contract = Inr 2)
              \<and> (kind \<in> {SolTon, TonSol} \<longrightarrow> sol_enabled env)
              \<and> (case kind of
                   EthTon \<Rightarrow> (\<exists>init. eth_ton_event_init_data_of (abi env) contract = Inr init
                     \<and> hm_get (eth_ton_event_configurations b) (et_configuration init) \<noteq> None)
                 | TonEth \<Rightarrow> (\<exists>init. ton_eth_event_init_data_of (abi env) contract = Inr init
                     \<and> hm_get (ton_eth_event_configurations b) (te_configuration init) \<noteq> None)
                 | SolTon \<Rightarrow> (\<exists>init. sol_ton_event_init_data_of (abi env) contract = Inr init
                     \<and> hm_get (sol_ton_event_configurations b) (st_configuration init) \<noteq> None)
                 | TonSol \<Rightarrow> (\<exists>init. ton_sol_event_init_data_of (abi env) contract = Inr init
                     \<and> hm_get (ton_sol_event_configurations b) (ts_configuration init) \<noteq> None))"
proof -
  have action: "event_base_process (abi env) contract (ton_public_key env) (kind = TonEth) \<in> {Inr Vote, Inr Nop} \<longleftrightarrow>
      status (abi env) contract = Inr Initializing
      \<or> (status (abi env) contract = Inr Pending
          \<or> status (abi env) contract = Inr Confirmed \<and> kind = TonEth \<and> 100000000 \<le> balance (account contract))
        \<and> (\<exists>voters. get_voters (abi env) contract EmptyVote = Inr voters \<and> ton_public_key env \<in> set voters)
        \<and> get_api_version (abi env) contract = Inr 2"
    using event_base_process_Vote event_base_process_Nop by (simp add: insert_iff) blast
  have wanted: "event_wanted env kind (unique_event_configurations kind b) contract \<longleftrightarrow>
      event_base_process (abi env) contract (ton_public_key env) (kind = TonEth) \<in> {Inr Vote, Inr Nop}
      \<and> (kind \<in> {SolTon, TonSol} \<longrightarrow> sol_enabled env)
      \<and> (\<exists>configuration. event_configuration_of (abi env) kind contract = Inr configuration
          \<and> configuration \<in> set (unique_event_configurations kind b))"
    by (cases kind) (auto simp: event_wanted_def split: sum.split event_action.split)
  show ?thesis unfolding wanted action known_configuration by (cases kind) simp_all
qed

subsection \<open>Properties\<close>

text \<open>
  C14: The search at the start finds exactly what is left to do: after it, an event contract is watched
  precisely if it was before, or its code hash, by the index of the snapshot, is that of a registered kind of
  event, its contract is initializing, or is pending (or confirmed, for TON to ETH, with a balance of at least 0.1 TON)
  in the supported version and still lacks this relay's vote, Solana is enabled if the kind needs it, and the
  configuration the contract names is known. Precisely the new ones are updated.
\<close>

theorem startup_search_exact:
  assumes "get_all_events env get_state (Some snapshot) b = (b', effects, Inr ())"
    and "index_ok snapshot" and "\<forall>(code_hash, _) \<in> set (event_code_hashes b). length code_hash = 32"
    and "length hash = 32"
  shows "(hm_get (pending (events_of kind b')) hash \<noteq> None \<longleftrightarrow>
      hm_get (pending (events_of kind b)) hash \<noteq> None
      \<or> (\<exists>code_hash wc. (code_hash, kind) \<in> set (event_code_hashes b)
          \<and> hm_get (code_hashes_by_address snapshot) (code_hashes_by_address_id wc hash) = Some code_hash
          \<and> wc # hash \<noteq> replicate 33 0xff
          \<and> (\<exists>contract. get_state hash = Inr (Some contract)
              \<and> (status (abi env) contract = Inr Initializing
                 \<or> (status (abi env) contract = Inr Pending
                     \<or> status (abi env) contract = Inr Confirmed \<and> kind = TonEth \<and> 100000000 \<le> balance (account contract))
                   \<and> (\<exists>voters. get_voters (abi env) contract EmptyVote = Inr voters \<and> ton_public_key env \<in> set voters)
                   \<and> get_api_version (abi env) contract = Inr 2)
              \<and> (kind \<in> {SolTon, TonSol} \<longrightarrow> sol_enabled env)
              \<and> (case kind of
                   EthTon \<Rightarrow> (\<exists>init. eth_ton_event_init_data_of (abi env) contract = Inr init
                     \<and> hm_get (eth_ton_event_configurations b) (et_configuration init) \<noteq> None)
                 | TonEth \<Rightarrow> (\<exists>init. ton_eth_event_init_data_of (abi env) contract = Inr init
                     \<and> hm_get (ton_eth_event_configurations b) (te_configuration init) \<noteq> None)
                 | SolTon \<Rightarrow> (\<exists>init. sol_ton_event_init_data_of (abi env) contract = Inr init
                     \<and> hm_get (sol_ton_event_configurations b) (st_configuration init) \<noteq> None)
                 | TonSol \<Rightarrow> (\<exists>init. ton_sol_event_init_data_of (abi env) contract = Inr init
                     \<and> hm_get (ton_sol_event_configurations b) (ts_configuration init) \<noteq> None)))))
    \<and> (SpawnUpdate kind hash \<in> set effects \<longleftrightarrow>
        hm_get (pending (events_of kind b)) hash = None \<and> hm_get (pending (events_of kind b')) hash \<noteq> None)"
  by (rule search_exact [OF assms, unfolded event_wanted_iff])

text \<open>
  A confirmed TON to SOL event that still wants this relay's signature is voted on when its
  deployment is seen, but the search at the start passes over it: the search asks for all signatures of
  TON to ETH events only.
\<close>

theorem confirmed_ton_sol_not_searched:
  assumes "status (abi env) contract = Inr Confirmed" and "100000000 \<le> balance (account contract)"
    and "can_vote (abi env) contract (ton_public_key env) = Inr True"
  shows "preprocess_event (abi env) (ton_public_key env) TonSol (Inr contract) acc st = ((st, [SpawnUpdate TonSol acc]), Inr ())
    \<and> \<not> event_wanted env TonSol configurations contract"
  using assms
  by (simp add: preprocess_event_def event_base_process_def MIN_EVENT_BALANCE_def event_wanted_def)

lemma iterate_events_total:
  assumes "\<And>hash. \<exists>contract. get_state hash = Inr (Some contract)"
  shows "snd (snd (iterate_code_hash_events env kind configurations get_state keys st)) = Inr ()"
proof (induction keys arbitrary: st)
  case (Cons key keys)
  obtain contract where "get_state (drop 33 key) = Inr (Some contract)" using assms by blast
  then show ?case
    using Cons.IH by (auto simp: Let_def split: prod.split) (metis snd_conv)+
qed simp

definition demo_search_bridge :: bridge where
  "demo_search_bridge = bridge_new\<lparr>event_code_hashes := [(demo_hash, EthTon)],
     eth_ton_event_configurations := [([4], \<lparr>et_details = demo_details \<lparr>etc_chain_id = 1, etc_event_emitter = [5],
        event_blocks_to_confirm = 12, etc_proxy = [], start_block_number = 0, end_block_number = 0\<rparr> [8],
      mapping_context = mapping_context_default demo_env,
      et_event_abi = \<lparr>get_eth_topic_hash = [], decode_and_map = (\<lambda>_. Inr [])\<rparr>\<rparr>)]\<rparr>"

theorem startup_search_exact_witness:
  "hm_get (pending (events_of EthTon (fst (get_all_events demo_env (\<lambda>_. Inr (Some demo_contract)) (Some demo_db)
     demo_search_bridge)))) demo_left \<noteq> None"
proof -
  let ?r = "get_all_events demo_env (\<lambda>_. Inr (Some demo_contract)) (Some demo_db) demo_search_bridge"
  have "snd (snd ?r) = Inr ()"
    using iterate_events_total [of "\<lambda>_. Inr (Some demo_contract)" demo_env EthTon]
    by (auto simp: get_all_events_def demo_search_bridge_def split: prod.split sum.split)
      (metis snd_conv sum.distinct(1))
  then have run: "?r = (fst ?r, fst (snd ?r), Inr ())" by (metis prod.collapse)
  have "\<forall>(code_hash, _) \<in> set (event_code_hashes demo_search_bridge). length code_hash = 32"
    by (simp add: demo_search_bridge_def)
  note search = startup_search_exact [OF run demo_db_ok this, of demo_left EthTon, THEN conjunct1]
  have "status (abi demo_env) demo_contract = Inr Pending" "get_voters (abi demo_env) demo_contract EmptyVote = Inr [[7]]"
    "get_api_version (abi demo_env) demo_contract = Inr 2" "ton_public_key demo_env = [7]"
    "\<exists>init. eth_ton_event_init_data_of (abi demo_env) demo_contract = Inr init
       \<and> hm_get (eth_ton_event_configurations demo_search_bridge) (et_configuration init) \<noteq> None"
    by (simp_all add: status_def get_voters_def get_api_version_def eth_ton_event_init_data_of_def call_local_def
        call_responsible_def run_local_def demo_search_bridge_def demo_env_def demo_abi_def)
  moreover have "(demo_hash, EthTon) \<in> set (event_code_hashes demo_search_bridge)"
    "hm_get (code_hashes_by_address demo_db) (code_hashes_by_address_id 0 demo_left) = Some demo_hash"
    by (simp_all add: demo_search_bridge_def demo_db_def)
  moreover have "hd (0 # demo_left) \<noteq> hd (replicate 33 (0xff :: u8))" by simp
  then have "0 # demo_left \<noteq> replicate 33 0xff" by metis
  ultimately show ?thesis using search by auto
qed

theorem confirmed_ton_sol_not_searched_witness:
  "\<not> event_wanted (demo_env\<lparr>abi := demo_abi\<lparr>unpack_status := (\<lambda>_. Inr Confirmed)\<rparr>\<rparr>) TonSol [] demo_contract"
  using confirmed_ton_sol_not_searched [of "demo_env\<lparr>abi := demo_abi\<lparr>unpack_status := (\<lambda>_. Inr Confirmed)\<rparr>\<rparr>" demo_contract]
  by (simp add: can_vote_def status_def get_voters_def get_api_version_def call_local_def run_local_def
      demo_env_def demo_abi_def demo_contract_def SUPPORTED_API_VERSION_def)

end
