(* ===== verification/Node_Sync.thy ===== *)
theory Node_Sync
  imports Ton_Subscriber
begin

section \<open>The node's callbacks and the start of the TON subscriber\<close>

text \<open>
  The rest of \<open>src/engine/ton_subscriber/mod.rs\<close>: its metrics, the start that waits for the node's
  synchronisation and for a current masterchain block, the node's callbacks
  (\<open>impl ton_indexer::Subscriber\<close>) and the loop that hands events to a handler, with the snapshot of the
  persistent storage (\<open>src/storage/mod.rs\<close>).
\<close>

subsection \<open>Metrics\<close>

record ton_subscriber_metrics =
  tsm_ready :: bool
  tsm_current_utime :: u32
  tsm_signature_id :: "i32 option"
  tsm_pending_message_count :: usize

definition queue_len :: "messages_queue \<Rightarrow> usize" where
  "queue_len q = entry_count q"

definition ton_subscriber_metrics_of :: "ton_subscriber \<Rightarrow> ton_subscriber_metrics" where
  "ton_subscriber_metrics_of s = \<lparr>tsm_ready = ready s, tsm_current_utime = ts_current_utime s,
     tsm_signature_id = signature_id_load (signature_id s), tsm_pending_message_count = queue_len (ts_messages_queue s)\<rparr>"

subsection \<open>Waiting for the synchronisation\<close>

text \<open>
  \<open>wait_sync\<close> reads the flag, and if it is not set creates a \<open>Notified\<close> future; \<open>engine_status_changed\<close> sets the
  flag and wakes the futures that exist at that moment (\<open>notify_waiters\<close> stores no permit). The four steps of the
  two tasks may interleave.
\<close>

datatype sync_waiter = Entered | SawNotReady | Notified | Returned

record sync_state =
  sync_ready :: bool
  sync_waiter :: sync_waiter

datatype sync_step = LoadReady | CreateNotified | StoreReady | NotifyWaiters

fun wait_sync_step :: "sync_step \<Rightarrow> sync_state \<Rightarrow> sync_state" where
  "wait_sync_step LoadReady s =
     (if sync_waiter s = Entered
      then s\<lparr>sync_waiter := (if sync_ready s then Returned else SawNotReady)\<rparr> else s)"
| "wait_sync_step CreateNotified s =
     (if sync_waiter s = SawNotReady then s\<lparr>sync_waiter := Notified\<rparr> else s)"
| "wait_sync_step StoreReady s = s\<lparr>sync_ready := True\<rparr>"
| "wait_sync_step NotifyWaiters s =
     (if sync_waiter s = Notified then s\<lparr>sync_waiter := Returned\<rparr> else s)"

definition wait_sync :: "sync_step list \<Rightarrow> sync_state" where
  "wait_sync steps = fold wait_sync_step steps \<lparr>sync_ready = False, sync_waiter = Entered\<rparr>"

subsection \<open>The start\<close>

text \<open>
  What happens elsewhere while the start waits for the synchronisation and for the block is given by the
  operations \<open>before\<close> and \<open>after\<close>; \<open>woken\<close> says whether \<open>wait_sync\<close> has returned. \<open>None\<close>: the start is still
  waiting.
\<close>

definition awaiter_result :: "nat \<Rightarrow> (nat \<times> latest_shard_blocks res option) list \<Rightarrow> unit res option" where
  "awaiter_result channel sent =
     (case map_of sent channel of
        None \<Rightarrow> None
      | Some None \<Rightarrow> Some (Inl ChannelClosed)
      | Some (Some r) \<Rightarrow> Some (rbind r (\<lambda>_. Inr ())))"

definition ton_start ::
  "ton_env \<Rightarrow> mc_block res \<Rightarrow> ton_op list \<Rightarrow> bool \<Rightarrow> u64 \<Rightarrow> nat \<Rightarrow> ton_op list \<Rightarrow> ton_subscriber \<Rightarrow>
     ton_subscriber \<times> unit res option"
where
  "ton_start env last_key_block before woken timestamp channel after s =
     (case last_key_block of
        Inl e \<Rightarrow> (s, Some (Inl e))
      | Inr block \<Rightarrow>
          (case update_signature_id env block s of
             (s, Inl e) \<Rightarrow> (s, Some (Inl e))
           | (s, Inr _) \<Rightarrow>
               (case run_ops ton_step before s of
                  (s, _) \<Rightarrow>
                    if \<not> woken then (s, None)
                    else (case wait_shards channel (Some (ucast timestamp)) s of
                            (s, sent) \<Rightarrow>
                              (case run_ops ton_step after s of
                                 (s, sent') \<Rightarrow> (s, awaiter_result channel (sent @ sent')))))))"

subsection \<open>The callbacks of the node\<close>

text \<open>The subscriber with the snapshot of its storage; the environment adds what \<open>reset_accounts\<close> calls.\<close>

record node_view =
  nv_subscriber :: ton_subscriber
  nv_snapshot :: "db option"

record node_env = ton_env +
  ne_lower_bits :: "u64 \<Rightarrow> u64"
  ne_is_full :: "shard_ident \<Rightarrow> bool"
  ne_split_accounts :: "shard_ident \<Rightarrow> state_accounts \<Rightarrow> (state_accounts \<times> state_accounts) res"
  ne_shard_split_depth :: u8

definition load_snapshot :: "node_view \<Rightarrow> db option" where
  "load_snapshot v = nv_snapshot v"

definition update_snapshot :: "node_view \<Rightarrow> node_view" where
  "update_snapshot v = v\<lparr>nv_snapshot := Some (persistent_storage (nv_subscriber v))\<rparr>"

datatype node_call =
    EngineStatusChanged bool \<comment> \<open>\<open>Synced\<close>\<close>
  | ProcessBlock block_context
  | ProcessFullState shard_ident "state_accounts res"
  | ProcessBlocksEdge

fun node_step :: "node_env \<Rightarrow> node_call \<Rightarrow> node_view \<Rightarrow> node_view \<times> unit res" where
  "node_step env (EngineStatusChanged synced) v =
     ((if synced then v\<lparr>nv_subscriber := engine_synced (nv_subscriber v)\<rparr> else v), Inr ())"
| "node_step env (ProcessBlock b) v =
     (case process_block (ton_env.truncate env) b (nv_subscriber v) of (s, out, r) \<Rightarrow> (v\<lparr>nv_subscriber := s\<rparr>, r))"
| "node_step env (ProcessFullState ident accounts) v =
     (case reset_accounts (ne_lower_bits env) (ne_is_full env) (te_split env) (ne_split_accounts env) (te_repr_hash env)
             (ne_shard_split_depth env) ident accounts (persistent_storage (nv_subscriber v)) of
        (d, r) \<Rightarrow> (v\<lparr>nv_subscriber := (nv_subscriber v)\<lparr>persistent_storage := d\<rparr>\<rparr>,
                  with_context ''Failed to update server state'' r))"
| "node_step env ProcessBlocksEdge v = (update_snapshot v, Inr ())"

definition node_run :: "node_env \<Rightarrow> node_call list \<Rightarrow> node_view \<Rightarrow> node_view" where
  "node_run env calls v = fold (\<lambda>call v. fst (node_step env call v)) calls v"

subsection \<open>Listening for events\<close>

text \<open>
  \<open>start_listening_events\<close>: each event comes with whether the service is still alive when it is received. An
  error of the handler is logged, a panic ends the task. Returned are the events handled and those drained.
\<close>

fun listen_events :: "('s \<Rightarrow> 'e \<Rightarrow> 's \<times> unit res) \<Rightarrow> ('e \<times> bool) list \<Rightarrow> 's \<Rightarrow> 's \<times> 'e list \<times> 'e list" where
  "listen_events handler [] s = (s, [], [])"
| "listen_events handler ((event, alive) # events) s =
     (if \<not> alive then (s, [], map fst events)
      else (case handler s event of
              (s, Inl (Panic msg)) \<Rightarrow> (s, [event], [])
            | (s, _) \<Rightarrow> (case listen_events handler events s of (s, handled, drained) \<Rightarrow> (s, event # handled, drained))))"

subsection \<open>The block the start waits for\<close>

text \<open>The awaiter of a channel keeps the time it waits for.\<close>

definition awaiter_at :: "nat \<Rightarrow> u32 \<Rightarrow> ton_subscriber \<Rightarrow> bool" where
  "awaiter_at c since s \<longleftrightarrow> (\<forall>(_, awaiter) \<in> set (mc_block_awaiters s). aw_tx awaiter = Some c \<longrightarrow> aw_since awaiter = Some since)"

lemma set_insert_subset: "set (hm_insert k v m) \<subseteq> insert (k, v) (set m)"
  by (induction m) auto

lemma awaiter_at_step:
  assumes "awaiter_at c since s" "c \<notin># ton_opened op s"
  shows "awaiter_at c since (fst (ton_step op s))"
proof (cases op)
  case (WaitShards c' t)
  with assms set_insert_subset [of "next_awaiter_id s" "\<lparr>aw_since = t, aw_tx = Some c'\<rparr>" "mc_block_awaiters s"]
  show ?thesis by (auto simp: awaiter_at_def wait_shards_def)
next
  case (McBlock env block)
  show ?thesis
    by (cases rule: masterchain_cases [of env block s])
      (use assms McBlock in \<open>auto simp: awaiter_at_def case_prod_beta retain_awaiters_eq\<close>)
next
  case (ShardBlock env block)
  have "mc_block_awaiters (fst (handle_shard_block env block s)) = mc_block_awaiters s"
    by (auto simp: handle_shard_block_def split: sum.split prod.split)
  with assms ShardBlock show ?thesis by (simp add: awaiter_at_def case_prod_beta)
qed (use assms in \<open>simp add: awaiter_at_def engine_synced_def\<close>)

lemma awaiter_answer_step:
  assumes "awaiter_at c since s" "(c, Some r) \<in> set (snd (ton_step op s))"
  shows "\<exists>env block info. op = McBlock env block \<and> mcb_info block = Inr info \<and> since \<le> gen_utime info
    \<and> r = extract_shards env block info"
proof (cases op)
  case (McBlock env block)
  show ?thesis
  proof (cases rule: masterchain_cases [of env block s])
    case kept
    with assms(2) McBlock show ?thesis by (simp add: case_prod_beta)
  next
    case (handled info)
    then have "(c, Some r) \<in> set (snd (retain_awaiters env block info (mc_block_awaiters s)))"
      using assms(2) McBlock by (simp add: case_prod_beta)
    then obtain i awaiter where aw: "(i, awaiter) \<in> set (mc_block_awaiters s)" "aw_tx awaiter = Some c"
        "\<not> must_wait awaiter (gen_utime info)" "r = extract_shards env block info"
      by (auto simp: retain_awaiters_eq split: option.splits)
    with assms(1) have "aw_since awaiter = Some since" by (auto simp: awaiter_at_def)
    with aw handled(1) McBlock show ?thesis by (auto simp: must_wait_def not_less)
  qed
qed (use assms in \<open>auto simp: wait_shards_def case_prod_beta split: option.splits\<close>)

lemma awaiter_answer_run:
  assumes "awaiter_at c since s" "c \<notin># opened_ops ton_step ton_opened ops s" "(c, Some r) \<in> set (snd (run_ops ton_step ops s))"
  shows "\<exists>env block info. McBlock env block \<in> set ops \<and> mcb_info block = Inr info \<and> since \<le> gen_utime info
    \<and> r = extract_shards env block info"
  using assms
proof (induction ops arbitrary: s)
  case (Cons op ops)
  have "(c, Some r) \<in> set (snd (ton_step op s)) \<or> (c, Some r) \<in> set (snd (run_ops ton_step ops (fst (ton_step op s))))"
    using Cons.prems(3) by (auto split: prod.splits)
  then show ?case
  proof
    assume "(c, Some r) \<in> set (snd (ton_step op s))"
    from awaiter_answer_step [OF Cons.prems(1) this] show ?thesis by auto
  next
    assume sent: "(c, Some r) \<in> set (snd (run_ops ton_step ops (fst (ton_step op s))))"
    have "awaiter_at c since (fst (ton_step op s))" using Cons.prems by (intro awaiter_at_step) auto
    from Cons.IH [OF this _ sent] Cons.prems(2) show ?thesis by auto
  qed
qed simp

subsection \<open>The indices under the callbacks\<close>

lemma handlers_keep_storage:
  "persistent_storage (fst (handle_masterchain_block env block s)) = persistent_storage s"
  "persistent_storage (fst (handle_shard_block env block' s)) = persistent_storage s"
proof -
  have "persistent_storage (fst (update_signature_id env block s)) = persistent_storage s" for s
    by (simp add: update_signature_id_def split: sum.split)
  then show "persistent_storage (fst (handle_masterchain_block env block s)) = persistent_storage s"
    by (auto simp: handle_masterchain_block_def Let_def case_prod_beta split: sum.split if_splits)
qed (auto simp: handle_shard_block_def case_prod_beta split: sum.split)

lemma process_block_storage:
  "persistent_storage (fst (process_block env b s)) = persistent_storage s
   \<or> update (te_repr_hash env) (bc_workchain b) (rbind (bc_account_blocks b) (\<lambda>blocks. Inr (storage_transactions blocks)))
       (bc_shard_state b) (persistent_storage s) = Inr (persistent_storage (fst (process_block env b s)))"
proof -
  define first where "first =
    (case bc_shard_state b of
       None \<Rightarrow> (s, \<lparr>message_answers = [], transaction_calls = [], awaiter_answers = []\<rparr>, Inr ())
     | Some _ \<Rightarrow>
         if bc_is_masterchain b
         then (case handle_masterchain_block env (bc_mc_block b) s of
                 (s, answers, r) \<Rightarrow> (s, \<lparr>message_answers = [], transaction_calls = [], awaiter_answers = answers\<rparr>, r))
         else (case handle_shard_block env (bc_shard_block b) s of
                 (s, (answers, calls), r) \<Rightarrow>
                   (s, \<lparr>message_answers = answers, transaction_calls = calls, awaiter_answers = []\<rparr>, r)))"
  obtain s1 out r where f: "first = (s1, out, r)" by (metis prod_cases3)
  have s1: "persistent_storage s1 = persistent_storage s"
    using f by (auto simp: handlers_keep_storage first_def case_prod_beta split: option.splits if_splits)
  show ?thesis
    unfolding process_block_def first_def [symmetric] f
    by (auto simp: s1 case_prod_beta Let_def split: sum.split option.split)
qed

lemma update_accounts_None: "update_accounts rh d w None blocks wb = Inr wb' \<Longrightarrow> wb' = wb"
  by (induction blocks arbitrary: wb) (auto simp: update_account_def res_simps split: prod.splits)

lemma map_fst_storage_transactions [simp]: "map fst (storage_transactions blocks) = map fst blocks"
  by (simp add: storage_transactions_def comp_def case_prod_beta)

lemma update_index_ok:
  assumes "update rh wc (rbind account_blocks (\<lambda>blocks. Inr (storage_transactions blocks))) shard_state d = Inr d'"
    and "index_ok d" and "\<And>c. length (rh c) = 32"
    and "\<And>blocks. account_blocks = Inr blocks \<Longrightarrow> distinct (map fst blocks) \<and> (\<forall>acc \<in> fst ` set blocks. length acc = 32)"
  shows "index_ok d'"
proof (cases "workchain_i8 wc")
  case None
  with assms(1,2) show ?thesis by (simp add: update_def)
next
  case (Some w)
  obtain blocks accounts wb where b: "account_blocks = Inr blocks"
      "(case shard_state of None \<Rightarrow> Inr None | Some accounts \<Rightarrow> rbind accounts (\<lambda>a. Inr (Some a))) = Inr accounts"
      "update_accounts rh d w accounts (storage_transactions blocks) [] = Inr wb" "d' = write_batch_apply wb d"
    using assms(1) Some by (auto simp: update_def rbind_eq_Inr_iff)
  have keys: "fst ` set (storage_transactions blocks) = fst ` set blocks"
    by (metis list.set_map map_fst_storage_transactions)
  show ?thesis
  proof (cases accounts)
    case None
    with b(3,4) update_accounts_None assms(2) show ?thesis by fastforce
  next
    case (Some a)
    note exact = update_accounts_exact [OF b(3) [unfolded Some] _ _ assms(3), THEN conjunct1]
    show ?thesis unfolding b(4) by (rule exact) (use assms(2) assms(4) [OF b(1)] keys in simp_all)
  qed
qed

text \<open>A state that cannot be read or split leaves the shard empty.\<close>

lemma reset_accounts_index:
  assumes "shard_lib prefix_len lower_bits is_full split_shard_ident"
    and "tagged (shard_prefix_with_tag ident) t" "unat depth \<le> t" "index_ok d"
    and "\<And>as. accounts = Inr as \<Longrightarrow> state_functional (set as)
      \<and> (\<forall>acc a. Inr (acc, a) \<in> set as \<longrightarrow> length acc = 32 \<longrightarrow> contains_account prefix_len ident acc)"
    and "\<forall>s a l r. split_accounts s a = Inr (l, r) \<longrightarrow> set l \<union> set r = set a"
    and "\<And>c. length (rh c) = 32"
  shows "index_ok (fst (reset_accounts lower_bits is_full split_shard_ident split_accounts rh depth ident accounts d))"
proof (cases "workchain_i8 (workchain_id ident)")
  case None
  with assms(4) show ?thesis by (simp add: reset_accounts_def)
next
  case (Some wc)
  obtain d' r where run: "reset_accounts lower_bits is_full split_shard_ident split_accounts rh depth ident accounts d = (d', r)"
    by (metis surj_pair)
  show ?thesis
  proof (cases r)
    case (Inl e)
    with run Some have "d' = remove_code_hashes lower_bits is_full ident d"
      by (auto simp: reset_accounts_def Let_def split: sum.splits)
    with run shard_lib.remove_code_hashes_ok [OF assms(1,2,4)] show ?thesis by simp
  next
    case (Inr u)
    with run Some obtain as where as: "accounts = Inr as"
      by (cases accounts) (auto simp: reset_accounts_def Let_def)
    have "reset_accounts lower_bits is_full split_shard_ident split_accounts rh depth ident (Inr as) d = (d', Inr ())"
      using run by (simp add: as Inr)
    from shard_lib.reset_accounts_exact(1) [OF assms(1-4) _ _ assms(6,7) this Some] assms(5) [OF as]
    show ?thesis by (simp add: run)
  qed
qed

text \<open>
  What the node guarantees of its calls: the accounts of a block are the distinct keys of a dictionary, a full
  state is that of a shard that can be split to the configured depth, and holds the shard's accounts.
\<close>

definition node_call_ok :: "node_env \<Rightarrow> node_call \<Rightarrow> bool" where
  "node_call_ok env call =
     (case call of
        ProcessBlock b \<Rightarrow> (\<forall>blocks. bc_account_blocks b = Inr blocks \<longrightarrow>
          distinct (map fst blocks) \<and> (\<forall>acc \<in> fst ` set blocks. length acc = 32))
      | ProcessFullState ident accounts \<Rightarrow>
          (\<exists>t. tagged (shard_prefix_with_tag ident) t \<and> unat (ne_shard_split_depth env) \<le> t)
          \<and> (\<forall>as. accounts = Inr as \<longrightarrow> state_functional (set as)
              \<and> (\<forall>acc a. Inr (acc, a) \<in> set as \<longrightarrow> length acc = 32 \<longrightarrow> contains_account (te_prefix_len env) ident acc))
      | _ \<Rightarrow> True)"

definition node_env_ok :: "node_env \<Rightarrow> bool" where
  "node_env_ok env \<longleftrightarrow> shard_lib (te_prefix_len env) (ne_lower_bits env) (ne_is_full env) (te_split env)
     \<and> (\<forall>s a l r. ne_split_accounts env s a = Inr (l, r) \<longrightarrow> set l \<union> set r = set a)
     \<and> (\<forall>c. length (te_repr_hash env c) = 32)"

lemma node_step_index:
  assumes "node_env_ok env" "node_call_ok env call" "index_ok (persistent_storage (nv_subscriber v))"
  shows "index_ok (persistent_storage (nv_subscriber (fst (node_step env call v))))"
proof (cases call)
  case (ProcessBlock b)
  have te: "te_repr_hash (ton_env.truncate env) = te_repr_hash env" by (simp add: ton_env.truncate_def)
  consider "persistent_storage (fst (process_block (ton_env.truncate env) b (nv_subscriber v))) = persistent_storage (nv_subscriber v)"
    | "update (te_repr_hash env) (bc_workchain b) (rbind (bc_account_blocks b) (\<lambda>blocks. Inr (storage_transactions blocks)))
       (bc_shard_state b) (persistent_storage (nv_subscriber v))
       = Inr (persistent_storage (fst (process_block (ton_env.truncate env) b (nv_subscriber v))))"
    using process_block_storage [of "ton_env.truncate env" b "nv_subscriber v"] unfolding te by blast
  then have "index_ok (persistent_storage (fst (process_block (ton_env.truncate env) b (nv_subscriber v))))"
  proof cases
    case 2
    from update_index_ok [OF this assms(3)] assms(1,2) ProcessBlock show ?thesis
      by (auto simp: node_env_ok_def node_call_ok_def)
  qed (use assms(3) in simp)
  with ProcessBlock show ?thesis by (simp add: case_prod_beta)
next
  case (ProcessFullState ident accounts)
  with assms(2) obtain t where t: "tagged (shard_prefix_with_tag ident) t" "unat (ne_shard_split_depth env) \<le> t"
    by (auto simp: node_call_ok_def)
  from assms(1) have env: "shard_lib (te_prefix_len env) (ne_lower_bits env) (ne_is_full env) (te_split env)"
    by (simp add: node_env_ok_def)
  show ?thesis
    using reset_accounts_index [OF env t assms(3), of accounts "ne_split_accounts env" "te_repr_hash env"] assms(1,2) ProcessFullState
    by (auto simp: node_env_ok_def node_call_ok_def case_prod_beta)
qed (use assms(3) in \<open>auto simp: update_snapshot_def engine_synced_def\<close>)

lemma node_run_simps [simp]:
  "node_run env [] v = v"
  "node_run env (calls @ [call]) v = fst (node_step env call (node_run env calls v))"
  by (simp_all add: node_run_def)

lemma node_run_index:
  assumes "node_env_ok env" "\<forall>call \<in> set calls. node_call_ok env call" "index_ok (persistent_storage (nv_subscriber v))"
  shows "index_ok (persistent_storage (nv_subscriber (node_run env calls v)))"
  using assms(2) by (induction calls rule: rev_induct) (simp_all add: node_step_index [OF assms(1)] assms(3))

lemma node_step_snapshot:
  "nv_snapshot (fst (node_step env call v)) =
     (if call = ProcessBlocksEdge then Some (persistent_storage (nv_subscriber v)) else nv_snapshot v)"
  by (cases call) (simp_all add: update_snapshot_def case_prod_beta)

lemma node_run_snapshot:
  assumes "nv_snapshot v = None"
  shows "case nv_snapshot (node_run env calls v) of
      None \<Rightarrow> ProcessBlocksEdge \<notin> set calls
    | Some d \<Rightarrow> \<exists>before after. calls = before @ ProcessBlocksEdge # after \<and> ProcessBlocksEdge \<notin> set after
        \<and> d = persistent_storage (nv_subscriber (node_run env before v))"
proof (induction calls rule: rev_induct)
  case (snoc call calls)
  show ?case
  proof (cases "call = ProcessBlocksEdge")
    case True
    then have "\<exists>before after. calls @ [call] = before @ ProcessBlocksEdge # after \<and> ProcessBlocksEdge \<notin> set after
        \<and> persistent_storage (nv_subscriber (node_run env calls v)) = persistent_storage (nv_subscriber (node_run env before v))"
      by (intro exI [of _ calls] exI [of _ "[]"]) simp
    then show ?thesis unfolding node_run_simps node_step_snapshot by (simp add: True)
  next
    case False
    show ?thesis
    proof (cases "nv_snapshot (node_run env calls v)")
      case None
      with snoc False show ?thesis by (simp add: node_step_snapshot)
    next
      case (Some d)
      with snoc obtain before after where split: "calls = before @ ProcessBlocksEdge # after" "ProcessBlocksEdge \<notin> set after"
        "d = persistent_storage (nv_subscriber (node_run env before v))" by auto
      have "nv_snapshot (node_run env (calls @ [call]) v) = Some d" using False Some by (simp add: node_step_snapshot)
      moreover have "calls @ [call] = before @ ProcessBlocksEdge # (after @ [call]) \<and> ProcessBlocksEdge \<notin> set (after @ [call])"
        using False split by auto
      ultimately show ?thesis using split(3) by (simp only: option.case) blast
    qed
  qed
qed (simp add: assms)

subsection \<open>Properties\<close>

text \<open>
  C38: The wait for the node's synchronisation ends in every interleaving but one: when the synchronisation is
  announced between the test of the flag and the creation of the future, the wake-up is lost and the relay's
  start waits on, although the flag is set.
\<close>

theorem sync_wakeup_lost_once:
  assumes "steps \<in> shuffles [LoadReady, CreateNotified] [StoreReady, NotifyWaiters]"
  shows "sync_ready (wait_sync steps)
    \<and> (sync_waiter (wait_sync steps) = Returned \<longleftrightarrow> steps \<noteq> [LoadReady, StoreReady, NotifyWaiters, CreateNotified])"
  using assms by (auto simp: wait_sync_def)

text \<open>
  C37: The start of the TON subscriber succeeds only after a masterchain block whose time is not before the
  clock read when the synchronisation ended, and whose shards could be read, whatever the node and other tasks do
  in the meantime.
\<close>

theorem start_sees_current_block:
  assumes "ton_start env (Inr last_block) before True timestamp channel after s = (s', Some (Inr ()))"
    and "update_signature_id env last_block s = (s0, Inr ())"
    and "ts_inv s0" and "channel \<notin># ts_waiting s0 + opened_ops ton_step ton_opened before s0"
    and "channel \<notin># opened_ops ton_step ton_opened after
      (fst (wait_shards channel (Some (ucast timestamp)) (fst (run_ops ton_step before s0))))"
  shows "\<exists>env' block info shards. McBlock env' block \<in> set after \<and> mcb_info block = Inr info
    \<and> ucast timestamp \<le> gen_utime info \<and> extract_shards env' block info = Inr shards"
proof -
  define s1 where "s1 = fst (run_ops ton_step before s0)"
  obtain s2 sent where s2: "wait_shards channel (Some (ucast timestamp)) s1 = (s2, sent)" by (metis surj_pair)
  obtain sent' where run: "run_ops ton_step after s2 = (s', sent')"
    and result: "awaiter_result channel (sent @ sent') = Some (Inr ())"
    using assms(1,2) s2 by (cases "run_ops ton_step after s2") (simp add: ton_start_def s1_def case_prod_beta)
  then obtain shards where "map_of (sent @ sent') channel = Some (Some (Inr shards))"
    by (auto simp: awaiter_result_def res_simps split: option.splits)
  then have "(channel, Some (Inr shards)) \<in> set (sent @ sent')" by (rule map_of_SomeD)
  moreover have "(channel, Some (Inr shards)) \<notin> set sent"
    using s2 by (auto simp: wait_shards_def split: option.splits)
  ultimately have answer: "(channel, Some (Inr shards)) \<in> set (snd (run_ops ton_step after s2))" by (simp add: run)
  have "channel \<notin># ts_waiting s1"
    using shard_awaiters.run_ops_conserves [OF assms(3), of before] assms(4) unfolding s1_def
    by (metis union_iff)
  then have "\<forall>(_, awaiter) \<in> set (mc_block_awaiters s1). aw_tx awaiter \<noteq> Some channel"
    by (force simp: ts_waiting_def senders_def)
  moreover have "set (mc_block_awaiters s2) \<subseteq> insert (next_awaiter_id s1, \<lparr>aw_since = Some (ucast timestamp), aw_tx = Some channel\<rparr>)
      (set (mc_block_awaiters s1))"
  proof -
    have "mc_block_awaiters s2 = hm_insert (next_awaiter_id s1) \<lparr>aw_since = Some (ucast timestamp), aw_tx = Some channel\<rparr>
        (mc_block_awaiters s1)"
      using s2 by (auto simp: wait_shards_def)
    then show ?thesis by (simp only: set_insert_subset)
  qed
  ultimately have "awaiter_at channel (ucast timestamp) s2" by (fastforce simp: awaiter_at_def)
  moreover have "channel \<notin># opened_ops ton_step ton_opened after s2" using assms(5) s2 by (simp add: s1_def)
  ultimately show ?thesis using awaiter_answer_run answer by metis
qed

text \<open>
  C13: Under the node's callbacks in any order and number, blocks and full states that fail included, the two
  indices of the storage stay in agreement, and so does the snapshot, which is the storage of the last edge.
\<close>

theorem snapshot_always_consistent:
  assumes "node_env_ok env" "\<forall>call \<in> set calls. node_call_ok env call" "index_ok (persistent_storage s)"
    and "v = node_run env calls \<lparr>nv_subscriber = s, nv_snapshot = None\<rparr>"
  shows "index_ok (persistent_storage (nv_subscriber v))
    \<and> (case load_snapshot v of
         None \<Rightarrow> ProcessBlocksEdge \<notin> set calls
       | Some d \<Rightarrow> index_ok d \<and> (\<exists>before after. calls = before @ ProcessBlocksEdge # after \<and> ProcessBlocksEdge \<notin> set after
           \<and> d = persistent_storage (nv_subscriber (node_run env before \<lparr>nv_subscriber = s, nv_snapshot = None\<rparr>))))"
proof -
  let ?v = "\<lparr>nv_subscriber = s, nv_snapshot = None\<rparr>"
  have "index_ok (persistent_storage (nv_subscriber (node_run env before ?v)))" if "calls = before @ rest" for before rest
    using node_run_index [OF assms(1), of before ?v] assms(2,3) that by simp
  with node_run_index [OF assms(1,2), of ?v] node_run_snapshot [of ?v calls env] assms(3) show ?thesis
    by (auto simp: assms(4) load_snapshot_def split: option.splits)
qed

subsection \<open>Witnesses\<close>

text \<open>A masterchain block at time 200 without a shard list, and a node whose library functions are the documented ones.\<close>

definition demo_mc_block :: mc_block where
  "demo_mc_block = \<lparr>mcb_meta_gen_utime = 200, mcb_info = Inr demo_ton_info, mcb_custom = Inr None, mcb_global_id = 42\<rparr>"

definition demo_start_env :: ton_env where
  "demo_start_env = demo_ton_env\<lparr>te_ton_feature := True\<rparr>"

definition demo_unsynced :: ton_subscriber where
  "demo_unsynced = ton_subscriber_new 0 messages_queue_new \<lparr>code_hashes = [], code_hashes_by_address = []\<rparr> []"

definition demo_node_env :: node_env where
  "demo_node_env = ton_env.extend (demo_ton_env\<lparr>te_prefix_len := doc_prefix_len, te_split := doc_split, te_repr_hash := demo_repr_hash\<rparr>)
     \<lparr>ne_lower_bits = doc_lower_bits, ne_is_full = doc_is_full, ne_split_accounts = demo_split_accounts, ne_shard_split_depth = 0\<rparr>"

theorem sync_wakeup_lost_once_witness:
  "sync_waiter (wait_sync [LoadReady, CreateNotified, StoreReady, NotifyWaiters]) = Returned
   \<and> sync_waiter (wait_sync [LoadReady, StoreReady, NotifyWaiters, CreateNotified]) \<noteq> Returned"
  using sync_wakeup_lost_once [of "[LoadReady, CreateNotified, StoreReady, NotifyWaiters]"]
    sync_wakeup_lost_once [of "[LoadReady, StoreReady, NotifyWaiters, CreateNotified]"] by simp

theorem start_sees_current_block_witness:
  "\<exists>s'. ton_start demo_start_env (Inr demo_mc_block) [Synced] True 150 7 [McBlock demo_start_env demo_mc_block] demo_unsynced
      = (s', Some (Inr ()))
   \<and> (150 :: u32) \<le> gen_utime demo_ton_info"
proof -
  let ?start = "ton_start demo_start_env (Inr demo_mc_block) [Synced] True 150 7 [McBlock demo_start_env demo_mc_block] demo_unsynced"
  note defs = ton_start_def update_signature_id_def demo_start_env_def demo_ton_env_def demo_mc_block_def demo_unsynced_def
    ton_subscriber_new_def engine_synced_def wait_shards_def handle_masterchain_block_def demo_ton_info_def must_wait_def
    extract_shards_def awaiter_result_def ts_inv_def ts_waiting_def Let_def
  obtain s' where run: "?start = (s', Some (Inr ()))" by (simp add: defs)
  obtain s0 where sig: "update_signature_id demo_start_env demo_mc_block demo_unsynced = (s0, Inr ())" by (simp add: defs)
  then have s0: "s0 = demo_unsynced\<lparr>signature_id := signature_id_store 0 42\<rparr>" by (simp add: defs)
  have inv: "ts_inv s0" "7 \<notin># ts_waiting s0 + opened_ops ton_step ton_opened [Synced] s0"
    "7 \<notin># opened_ops ton_step ton_opened [McBlock demo_start_env demo_mc_block]
      (fst (wait_shards 7 (Some (ucast (150 :: u64))) (fst (run_ops ton_step [Synced] s0))))"
    by (simp_all add: s0 defs)
  from start_sees_current_block [OF run sig inv] run show ?thesis by (auto simp: demo_mc_block_def)
qed

theorem snapshot_always_consistent_witness:
  "\<exists>d. load_snapshot (node_run demo_node_env [ProcessFullState demo_shard (Inr [Inr (demo_left, demo_account [5])]), ProcessBlocksEdge]
       \<lparr>nv_subscriber = demo_unsynced, nv_snapshot = None\<rparr>) = Some d \<and> index_ok d"
proof -
  let ?calls = "[ProcessFullState demo_shard (Inr [Inr (demo_left, demo_account [5])]), ProcessBlocksEdge]"
  let ?v = "node_run demo_node_env ?calls \<lparr>nv_subscriber = demo_unsynced, nv_snapshot = None\<rparr>"
  note env_def = demo_node_env_def demo_ton_env_def ton_env.defs
  have env: "node_env_ok demo_node_env"
    using doc_shards.shard_lib_axioms length_demo_repr_hash
    by (simp add: node_env_ok_def env_def demo_split_accounts_def)
  have calls: "\<forall>call \<in> set ?calls. node_call_ok demo_node_env call"
    using demo_tagged demo_contains(1) by (auto simp: node_call_ok_def env_def state_functional_def)
  have "index_ok (persistent_storage demo_unsynced)"
    by (simp add: demo_unsynced_def ton_subscriber_new_def index_ok_def)
  from snapshot_always_consistent [OF env calls this refl] show ?thesis by (auto split: option.splits)
qed

end
