(* ===== verification/Bridge_Start.thy ===== *)
theory Bridge_Start
  imports Bridge_Search Node_Sync
begin

section \<open>The start of the bridge\<close>

text \<open>
  \<open>Bridge::new\<close> of \<open>src/engine/bridge/mod.rs\<close>: the configurations are loaded, then the events left over are
  searched for. The lemmas say what the loading leaves alone and that the search keeps the invariant.
\<close>

text \<open>
  The listeners that \<open>Bridge::new\<close> starts, by the name they log; those of Solana only with a Solana
  subscriber, otherwise the receiving end of the channel is dropped and what is sent is lost.
\<close>

datatype bridge_listener = BridgeEvents | ConnectorEvents | ConfigurationEvents event_type | ContractEvents event_type

definition bridge_listeners :: "bridge_env \<Rightarrow> (string \<times> bridge_listener) list" where
  "bridge_listeners env =
     [(''BridgeContract'', BridgeEvents), (''ConnectorContract'', ConnectorEvents),
      (''EthEventConfigurationContract'', ConfigurationEvents EthTon),
      (''TonEthEventConfigurationContract'', ConfigurationEvents TonEth)]
     @ (if sol_enabled env
        then [(''SolTonEventConfigurationContract'', ConfigurationEvents SolTon),
              (''TonSolEventConfigurationContract'', ConfigurationEvents TonSol)]
        else [])
     @ [(''EthTonEventContract'', ContractEvents EthTon), (''TonEthEventContract'', ContractEvents TonEth)]
     @ (if sol_enabled env
        then [(''SolTonEventContract'', ContractEvents SolTon), (''TonSolEventContract'', ContractEvents TonSol)]
        else [])"

text \<open>
  \<open>Bridge::new\<close>: the bridge's account is watched, then its configurations are loaded from the shards' states
  and the events left over are searched for in the snapshot.
\<close>

definition bridge_start ::
  "bridge_env \<Rightarrow> u32 \<Rightarrow> (uint256 \<Rightarrow> existing_contract option res) res \<Rightarrow> uint256 \<Rightarrow>
     (uint256 \<Rightarrow> existing_contract option res) \<Rightarrow> db option \<Rightarrow> bridge_result"
where
  "bridge_start env current_utime shard_accounts bridge_account get_state snapshot =
     (case get_all_configurations env current_utime shard_accounts bridge_account bridge_new of
        (b, effects, Inl e) \<Rightarrow> (b, SubscribeAccount bridge_account # effects, Inl e)
      | (b, effects, Inr _) \<Rightarrow>
          (case get_all_events env get_state snapshot b of
             (b, later, r) \<Rightarrow> (b, SubscribeAccount bridge_account # effects @ later, r)))"

subsection \<open>What loading the configurations leaves alone\<close>

definition hashes_sized :: "(uint256, event_type) hashmap \<Rightarrow> bool" where
  "hashes_sized hashes \<longleftrightarrow> (\<forall>c \<in> hm_keys hashes. length c = 32)"

definition loads_only :: "bridge \<Rightarrow> bridge \<Rightarrow> bool" where
  "loads_only b b' \<longleftrightarrow> (\<forall>kind. events_of kind b' = events_of kind b)
     \<and> (hashes_sized (event_code_hashes b) \<longrightarrow> hashes_sized (event_code_hashes b'))"

lemma loads_only_refl [simp]: "loads_only b b"
  by (simp add: loads_only_def)

lemma loads_only_trans [trans]: "loads_only b b' \<Longrightarrow> loads_only b' b'' \<Longrightarrow> loads_only b b''"
  by (auto simp: loads_only_def)

lemma events_of_case:
  "events_of kind b = (case kind of EthTon \<Rightarrow> eth_ton_events_state b | TonEth \<Rightarrow> ton_eth_events_state b
     | SolTon \<Rightarrow> sol_ton_events_state b | TonSol \<Rightarrow> ton_sol_events_state b)"
  by (cases kind) simp_all

lemma events_of_update [simp]:
  "events_of kind (b\<lparr>connectors := cs\<rparr>) = events_of kind b"
  "events_of kind (b\<lparr>event_code_hashes := h\<rparr>) = events_of kind b"
  "events_of kind (b\<lparr>total_active_eth_ton := n\<rparr>) = events_of kind b"
  "events_of kind (b\<lparr>total_active_ton_eth := n\<rparr>) = events_of kind b"
  "events_of kind (b\<lparr>total_active_sol_ton := n\<rparr>) = events_of kind b"
  "events_of kind (b\<lparr>total_active_ton_sol := n\<rparr>) = events_of kind b"
  "events_of kind (b\<lparr>eth_ton_event_configurations := c1\<rparr>) = events_of kind b"
  "events_of kind (b\<lparr>ton_eth_event_configurations := c2\<rparr>) = events_of kind b"
  "events_of kind (b\<lparr>sol_ton_event_configurations := c3\<rparr>) = events_of kind b"
  "events_of kind (b\<lparr>ton_sol_event_configurations := c4\<rparr>) = events_of kind b"
  by (cases kind; simp)+

lemma loads_only_connector: "loads_only b (b\<lparr>connectors := cs\<rparr>)"
  by (simp add: loads_only_def)

lemma keys_add_event_code_hash:
  assumes "add_event_code_hash hash hashes code kind = Inr hashes'"
  shows "hm_keys hashes' \<subseteq> insert (hash code) (hm_keys hashes)"
proof (cases "hm_get hashes (hash code)")
  case None
  with assms have "hashes' = hm_insert (hash code) kind hashes" by (simp add: add_event_code_hash_def)
  then show ?thesis by (simp only: hm_keys_insert)
qed (use assms in \<open>auto simp: add_event_code_hash_def split: if_splits\<close>)

lemma sized_add_event_code_hash:
  assumes "\<And>c. length (hash c) = 32" "add_event_code_hash hash hashes code kind = Inr hashes'" "hashes_sized hashes"
  shows "hashes_sized hashes'"
proof -
  have "length c = 32" if "c \<in> hm_keys hashes'" for c
  proof (cases "c = hash code")
    case False
    have "c \<in> insert (hash code) (hm_keys hashes)"
      using keys_add_event_code_hash [OF assms(2)] that by (rule subsetD)
    with False have "c \<in> hm_keys hashes" by simp
    with assms(3) show ?thesis unfolding hashes_sized_def by (rule bspec)
  qed (simp add: assms(1))
  then show ?thesis by (simp add: hashes_sized_def)
qed

lemma loads_onlyI:
  assumes "\<And>c. length (hash c) = 32" "add_event_code_hash hash (event_code_hashes b) code kind = Inr hashes"
    and "event_code_hashes b' = hashes" "\<And>kind. events_of kind b' = events_of kind b"
  shows "loads_only b b'"
  using sized_add_event_code_hash [OF assms(1,2)] assms(3,4) unfolding loads_only_def by blast

lemma loads_only_hashes:
  assumes "\<And>c. length (hash c) = 32" "add_event_code_hash hash (event_code_hashes b) code kind = Inr hashes"
  shows "loads_only b (b\<lparr>event_code_hashes := hashes\<rparr>)"
    and "loads_only b (b\<lparr>event_code_hashes := hashes, total_active_eth_ton := n, eth_ton_event_configurations := c1\<rparr>)"
    and "loads_only b (b\<lparr>event_code_hashes := hashes, total_active_ton_eth := n, ton_eth_event_configurations := c2\<rparr>)"
    and "loads_only b (b\<lparr>event_code_hashes := hashes, total_active_sol_ton := n, sol_ton_event_configurations := c3\<rparr>)"
    and "loads_only b (b\<lparr>event_code_hashes := hashes, total_active_ton_sol := n, ton_sol_event_configurations := c4\<rparr>)"
  by (rule loads_onlyI [OF assms]; simp)+

lemma add_configuration_loads:
  assumes "\<And>c. length (repr_hash env c) = 32"
  shows "loads_only b (fst (add_eth_ton_event_configuration env acc contract b))"
    and "loads_only b (fst (add_ton_eth_event_configuration env now acc contract b))"
    and "loads_only b (fst (add_sol_ton_event_configuration env now acc contract b))"
    and "loads_only b (fst (add_ton_sol_event_configuration env now acc contract b))"
proof -
  note hashes = loads_only_hashes [OF assms]
  show "loads_only b (fst (add_eth_ton_event_configuration env acc contract b))"
    unfolding add_eth_ton_event_configuration_def
    by (auto simp: Let_def rbind_eq_Inr_iff split: sum.split option.split if_split_asm intro!: hashes)
  show "loads_only b (fst (add_ton_eth_event_configuration env now acc contract b))"
    unfolding add_ton_eth_event_configuration_def
    by (auto simp: Let_def rbind_eq_Inr_iff split: sum.split option.split if_split_asm intro!: hashes)
  show "loads_only b (fst (add_sol_ton_event_configuration env now acc contract b))"
    unfolding add_sol_ton_event_configuration_def
    by (auto simp: Let_def rbind_eq_Inr_iff split: sum.split option.split if_split_asm intro!: hashes)
  show "loads_only b (fst (add_ton_sol_event_configuration env now acc contract b))"
    unfolding add_ton_sol_event_configuration_def
    by (auto simp: Let_def rbind_eq_Inr_iff split: sum.split option.split if_split_asm intro!: hashes)
qed

lemma process_configuration_loads:
  assumes "\<And>c. length (repr_hash env c) = 32"
  shows "loads_only b (fst (process_event_configuration env now connector_account acc contract b))"
  unfolding process_event_configuration_def
  by (auto simp: add_configuration_loads [OF assms] split: sum.split event_type.split)

text \<open>Whatever relation the two steps of the loop establish holds of the whole loop.\<close>

lemma found_cases: "(\<exists>e. x = Inl e) \<or> (\<exists>a. x = Inr (a, None)) \<or> (\<exists>a c. x = Inr (a, Some c))"
  by (cases x) auto

lemma load_connectors_rel:
  assumes refl: "\<And>b. R b b" and trans: "\<And>b b' b''. R b b' \<Longrightarrow> R b' b'' \<Longrightarrow> R b b''"
    and conn: "\<And>b acc. R b (b\<lparr>connectors := hm_insert acc () (connectors b)\<rparr>)"
    and conf: "\<And>b ca acc c. R b (fst (process_event_configuration env now ca acc c b))"
  shows "R b (fst (load_connectors env now find_acc contract nums b))"
proof (induction nums arbitrary: b)
  case (Cons num nums)
  let ?found = "rbind (with_context ''Failed to derive connector address'' (derive_connector_address (abi env) contract num))
    (\<lambda>connector_account. rbind (find_acc connector_account) (\<lambda>c. Inr (connector_account, c)))"
  consider (stop) e where "?found = Inl e" | (none) acc where "?found = Inr (acc, None)"
    | (some) acc c where "?found = Inr (acc, Some c)"
    using found_cases [of ?found] by blast
  then show ?case
  proof cases
    case some
    show ?thesis
    proof (cases "connector_get_details (abi env) c")
      case (Inr details)
      let ?b = "b\<lparr>connectors := hm_insert acc () (connectors b)\<rparr>"
      note skipped = trans [OF conn Cons.IH]
      show ?thesis
      proof (cases "enabled details")
        case True
        show ?thesis
        proof (cases "find_acc (event_configuration details)")
          case found: (Inr found)
          show ?thesis
          proof (cases found)
            case contract: (Some configuration_contract)
            obtain b2 effects r where added:
              "process_event_configuration env now acc (event_configuration details) configuration_contract ?b = (b2, effects, r)"
              by (metis prod_cases3)
            have "R b b2" using trans [OF conn conf [of ?b acc "event_configuration details" configuration_contract]] added
              by simp
            from trans [OF this Cons.IH] show ?thesis
              by (simp add: some Inr Let_def True found contract added case_prod_beta)
          qed (simp add: some Inr Let_def True found case_prod_beta skipped)
        qed (simp add: some Inr Let_def True conn)
      qed (simp add: some Inr Let_def case_prod_beta skipped)
    qed (simp add: some Cons.IH)
  qed (simp_all add: refl Cons.IH)
qed (simp add: refl)

lemma load_connectors_loads:
  assumes "\<And>c. length (repr_hash env c) = 32"
  shows "loads_only b (fst (load_connectors env now find_acc contract nums b))"
  by (rule load_connectors_rel [of loads_only, OF loads_only_refl loads_only_trans loads_only_connector
        process_configuration_loads [OF assms]])

lemma get_all_configurations_loads:
  assumes "\<And>c. length (repr_hash env c) = 32"
  shows "loads_only b (fst (get_all_configurations env now shard_accounts acc b))"
  unfolding get_all_configurations_def
  by (auto simp: load_connectors_loads [OF assms] split: sum.split)

lemma loaded_bridge:
  assumes "\<And>c. length (repr_hash env c) = 32"
    and "get_all_configurations env now shard_accounts acc bridge_new = (b, effects, r)"
  shows "bridge_inv b \<and> codes_registered (repr_hash env) b
    \<and> hashes_sized (event_code_hashes b)
    \<and> (\<forall>kind hash. hm_get (pending (events_of kind b)) hash = None)"
proof -
  have "bridge_inv b \<and> codes_registered (repr_hash env) b"
    using get_all_configurations_extends [of env bridge_new now shard_accounts acc] bridge_new_inv [of "repr_hash env"] assms(2)
    by (simp add: extends_def)
  moreover have loads: "loads_only bridge_new b"
    using get_all_configurations_loads [OF assms(1), of bridge_new now shard_accounts acc] assms(2) by simp
  moreover have "hm_get (pending (events_of kind bridge_new)) hash = None" for kind hash
    by (cases kind) (simp_all add: bridge_new_def)
  moreover have "hashes_sized (event_code_hashes bridge_new)" by (simp add: bridge_new_def hashes_sized_def)
  ultimately show ?thesis by (simp add: loads_only_def)
qed

lemma iterate_events_inv:
  assumes "events_inv st" "iterate_code_hash_events env kind configurations get_state keys st = (st', effects, r)"
  shows "events_inv st'"
  using assms
proof (induction keys arbitrary: st effects)
  case (Cons key keys)
  show ?case
  proof (cases "length key = CODE_HASHES_KEY_LEN")
    case True
    let ?found = "rbind (get_state (drop 33 key)) (ok_or (AccountNotFound (drop 33 key)))"
    show ?thesis
    proof (cases ?found)
      case (Inr contract)
      obtain new st1 sub where add: "add_pending_event (drop 33 key) st = (new, st1, sub)" by (metis prod_cases3)
      have "events_inv st1" using events_inv_add [OF Cons.prems(1), of "drop 33 key"] add by simp
      with Cons.IH Cons.prems Inr True add show ?thesis
        by (cases "event_wanted env kind configurations contract") (auto split: prod.splits)
    qed (use Cons.prems True in simp)
  qed (use Cons in simp)
qed simp

lemma search_inv:
  assumes "bridge_inv b" "search_code_hashes env get_state snapshot hashes b = (b', effects, r)"
  shows "bridge_inv b'"
  using assms
proof (induction hashes arbitrary: b effects r)
  case (Cons entry hashes)
  obtain code_hash kind where entry: "entry = (code_hash, kind)" by (cases entry)
  obtain st effects1 r1 where one: "iterate_code_hash_events env kind (unique_event_configurations kind b) get_state
      (code_hash_keys code_hash snapshot) (events_of kind b) = (st, effects1, r1)" by (metis prod_cases3)
  have "events_inv (events_of kind b)" using Cons.prems(1) by (cases kind) (simp_all add: bridge_inv_def)
  from iterate_events_inv [OF this one] Cons.prems(1) have "bridge_inv (set_events kind st b)"
    by (cases kind) (simp_all add: bridge_inv_def)
  then show ?case
    using Cons.IH Cons.prems(2) one by (auto simp: entry split: prod.splits)
qed simp


subsection \<open>Properties\<close>



subsection \<open>Witnesses\<close>

text \<open>One connector with one ETH to TON configuration, and one event contract left in the index.\<close>

definition demo_start_bridge_env :: bridge_env where
  "demo_start_bridge_env = demo_env\<lparr>repr_hash := demo_repr_hash\<rparr>"

definition demo_left_events :: db where
  "demo_left_events = \<lparr>code_hashes = [(code_hashes_id 0 demo_left (demo_repr_hash [8]), [])],
     code_hashes_by_address = [(code_hashes_by_address_id 0 demo_left, demo_repr_hash [8])]\<rparr>"

definition demo_start_subscriber :: ton_subscriber where
  "demo_start_subscriber = ton_subscriber_new 0 messages_queue_new demo_left_events []"

definition demo_loaded_bridge :: bridge where
  "demo_loaded_bridge = bridge_new\<lparr>connectors := [([1], ())], event_code_hashes := [(demo_repr_hash [8], EthTon)],
     total_active_eth_ton := 1,
     eth_ton_event_configurations := [([4], \<lparr>et_details = demo_details \<lparr>etc_chain_id = 1, etc_event_emitter = [5],
        event_blocks_to_confirm = 12, etc_proxy = [], start_block_number = 0, end_block_number = 0\<rparr> [8],
      mapping_context = \<lparr>check_token_root = True\<rparr>,
      et_event_abi = \<lparr>get_eth_topic_hash = [9], decode_and_map = (\<lambda>b. Inr b)\<rparr>\<rparr>)]\<rparr>"

lemma demo_loaded:
  "get_all_configurations demo_start_bridge_env 100 (Inr (\<lambda>_. Inr (Some demo_contract))) [6] bridge_new =
     (demo_loaded_bridge, [SubscribeAccount [1], SubscribeEth 1 [5] [9] [4], SubscribeAccount [4]], Inr ())"
  by (simp add: get_all_configurations_def connector_counter_def derive_connector_address_def connector_get_details_def
      call_local_def call_responsible_def run_local_def process_event_configuration_def get_type_def
      add_eth_ton_event_configuration_def get_flags_def eth_ton_configuration_details_def add_event_code_hash_def
      demo_start_bridge_env_def demo_env_def demo_abi_def demo_details_def demo_address_def demo_loaded_bridge_def
      bridge_new_def wrap_context_def Let_def)


lemma demo_left_events_ok: "index_ok demo_left_events"
  by (rule index_okI)
    (auto simp: demo_left_events_def hm_wf_def code_hashes_id_inject length_demo_repr_hash CODE_HASHES_KEY_LEN_def
      CODE_HASHES_BY_ADDRESS_KEY_LEN_def split: if_split_asm)

lemma demo_wanted:
  "event_wanted demo_start_bridge_env EthTon (unique_event_configurations EthTon demo_loaded_bridge) demo_contract"
  by (simp add: event_wanted_def event_base_process_def can_vote_def status_def get_voters_def get_api_version_def
      event_configuration_of_def eth_ton_event_init_data_of_def call_local_def call_responsible_def run_local_def
      unique_event_configurations_def demo_loaded_bridge_def demo_start_bridge_env_def demo_env_def demo_abi_def
      SUPPORTED_API_VERSION_def)

lemma demo_left_bound: "0 # demo_left \<noteq> replicate 33 (0xff :: u8)"
proof -
  have "hd (0 # demo_left) \<noteq> hd (replicate 33 (0xff :: u8))" by simp
  then show ?thesis by metis
qed


end
