(* ===== verification/Bridge_Run.thy ===== *)
theory Bridge_Run
  imports Bridge_Update Bridge_Start
begin

section \<open>Every sequence of the bridge's operations\<close>

text \<open>
  All accesses of the tasks of \<open>src/engine/bridge/mod.rs\<close> to the state of the bridge, in any order: the listeners,
  the loading of configurations, the collection of expired ones, checking deployed events, the update tasks and the
  search at the start. An operation is one critical section of the code with what it read before it (contract states,
  times, shards). An update task waits between its accesses: \<open>OpStartProcessing\<close> and \<open>OpRemoveEvent\<close> are the
  two it makes, at any distance from each other, and \<open>OpUpdate\<close> is a whole task with the operations other tasks
  make during each of its waits. Likewise \<open>OpAddEvent\<close> is one addition of the search, \<open>OpGetAllEvents\<close> all of it.
\<close>

primrec update_event :: "event_type \<Rightarrow> update_env \<Rightarrow> update_world \<Rightarrow> uint256 \<Rightarrow> bridge \<Rightarrow> update_result" where
  "update_event EthTon env w acc b = update_eth_ton_event env w acc b"
| "update_event TonEth env w acc b = update_ton_eth_event env w acc b"
| "update_event SolTon env w acc b = update_sol_ton_event env w acc b"
| "update_event TonSol env w acc b = update_ton_sol_event env w acc b"

datatype bridge_op =
    OpBridgeEvent bridge_event
  | OpCheckConnector u32 "uint256 \<Rightarrow> existing_contract res" uint256
  | OpGetAllConfigurations u32 "(uint256 \<Rightarrow> existing_contract option res) res" uint256
  | OpEthTonConfiguration uint256 eth_ton_configuration_event
  | OpTonEthConfiguration uint256 ton_eth_configuration_event
  | OpSolTonConfiguration uint256 sol_ton_configuration_event
  | OpTonSolConfiguration uint256 ton_sol_configuration_event
  | OpEthTonEvent uint256 eth_ton_event event_status
  | OpTonEthEvent uint256 ton_eth_event event_status
  | OpSolTonEvent uint256 sol_ton_event event_status
  | OpTonSolEvent uint256 ton_sol_event event_status
  | OpGc u32 bridge "(u32 \<times> unit res list) res"
  | OpPreprocess event_type "existing_contract res" uint256
  | OpStartProcessing event_type uint256
  | OpRemoveEvent event_type uint256
  | OpUpdate event_type update_world uint256 "nat \<Rightarrow> bridge_op list" \<comment> \<open>what others do while it waits\<close>
  | OpAddEvent event_type uint256
  | OpGetAllEvents "uint256 \<Rightarrow> existing_contract option res" "db option"

primrec bridge_op_apply :: "update_env \<Rightarrow> bridge_op \<Rightarrow> bridge \<Rightarrow> bridge" where
  "bridge_op_apply env (OpBridgeEvent ev) = (\<lambda>b. fst (process_bridge_event ev b))"
| "bridge_op_apply env (OpCheckConnector now wait acc) =
     (\<lambda>b. fst (process_connector_event (bridge_env.truncate env) now wait acc Enable b))"
| "bridge_op_apply env (OpGetAllConfigurations now shards acc) =
     (\<lambda>b. fst (get_all_configurations (bridge_env.truncate env) now shards acc b))"
| "bridge_op_apply env (OpEthTonConfiguration acc ev) =
     (\<lambda>b. fst (process_eth_ton_event_configuration_event acc ev b))"
| "bridge_op_apply env (OpTonEthConfiguration acc ev) =
     (\<lambda>b. fst (process_ton_eth_event_configuration_event acc ev b))"
| "bridge_op_apply env (OpSolTonConfiguration acc ev) =
     (\<lambda>b. fst (process_sol_ton_event_configuration_event acc ev b))"
| "bridge_op_apply env (OpTonSolConfiguration acc ev) =
     (\<lambda>b. fst (process_ton_sol_event_configuration_event acc ev b))"
| "bridge_op_apply env (OpEthTonEvent acc ev es) = (\<lambda>b. b\<lparr>eth_ton_events_state :=
     fst (process_eth_ton_event (ton_public_key env) acc (ev, es) (eth_ton_events_state b))\<rparr>)"
| "bridge_op_apply env (OpTonEthEvent acc ev es) = (\<lambda>b. b\<lparr>ton_eth_events_state :=
     fst (process_ton_eth_event (ton_public_key env) acc (ev, es) (ton_eth_events_state b))\<rparr>)"
| "bridge_op_apply env (OpSolTonEvent acc ev es) = (\<lambda>b. b\<lparr>sol_ton_events_state :=
     fst (process_sol_ton_event (sol_public_key env) acc (ev, es) (sol_ton_events_state b))\<rparr>)"
| "bridge_op_apply env (OpTonSolEvent acc ev es) = (\<lambda>b. b\<lparr>ton_sol_events_state :=
     fst (process_ton_sol_event (ton_public_key env) acc (ev, es) (ton_sol_events_state b))\<rparr>)"
| "bridge_op_apply env (OpGc now seen shards) = (\<lambda>b. gc_round now seen shards b)"
| "bridge_op_apply env (OpPreprocess kind contract acc) = (\<lambda>b. set_events kind
     (fst (fst (preprocess_event (abi env) (ton_public_key env) kind contract acc (events_of kind b)))) b)"
| "bridge_op_apply env (OpStartProcessing kind acc) =
     (\<lambda>b. set_events kind (snd (start_processing acc (events_of kind b))) b)"
| "bridge_op_apply env (OpRemoveEvent kind acc) =
     (\<lambda>b. set_events kind (events_remove acc (events_of kind b)) b)"
| "bridge_op_apply env (OpUpdate kind w acc others) =
     (\<lambda>b. fst (update_event kind env (w\<lparr>during := (\<lambda>n. fold id (map (bridge_op_apply env) (others n)))\<rparr>) acc b))"
| "bridge_op_apply env (OpAddEvent kind acc) =
     (\<lambda>b. set_events kind (fst (snd (add_pending_event acc (events_of kind b)))) b)"
| "bridge_op_apply env (OpGetAllEvents get_state snapshot) =
     (\<lambda>b. fst (get_all_events (bridge_env.truncate env) get_state snapshot b))"

definition bridge_run :: "update_env \<Rightarrow> bridge_op list \<Rightarrow> bridge" where
  "bridge_run env ops = fold (bridge_op_apply env) ops bridge_new"

subsection \<open>What an update task may do\<close>

text \<open>The only changes of an update task are the start of the processing and the removal of its event.\<close>

lemma update_event_preserves:
  assumes "P b" and wait: "\<And>n b. P b \<Longrightarrow> P (during w n b)"
    and start: "\<And>b. P b \<Longrightarrow> P (set_events kind (snd (start_processing acc (events_of kind b))) b)"
    and remove: "\<And>b. P b \<Longrightarrow> P (set_events kind (events_remove acc (events_of kind b)) b)"
  shows "P (fst (update_event kind env w acc b))"
proof -
  have deliver: "P b \<Longrightarrow> P (fst (deliver_vote w events acc message b))" for events message b
    using wait by (simp add: deliver_vote_def split: option.split)
  show ?thesis
  proof (cases kind)
    case EthTon
    have started: "P (b\<lparr>eth_ton_events_state := snd (start_processing acc (eth_ton_events_state b))\<rparr>)"
      using start [OF assms(1)] EthTon by simp
    have remove': "P b \<Longrightarrow> P (b\<lparr>eth_ton_events_state := events_remove acc (eth_ton_events_state b)\<rparr>)" for b
      using remove EthTon by simp
    show ?thesis
      using EthTon started
      by (cases "start_processing acc (eth_ton_events_state b)")
        (auto simp: update_eth_ton_event_def Let_def split: bool.split sum.split event_action.split option.split
          intro!: deliver remove' wait)
  next
    case TonEth
    have started: "P (b\<lparr>ton_eth_events_state := snd (start_processing acc (ton_eth_events_state b))\<rparr>)"
      using start [OF assms(1)] TonEth by simp
    have remove': "P b \<Longrightarrow> P (b\<lparr>ton_eth_events_state := events_remove acc (ton_eth_events_state b)\<rparr>)" for b
      using remove TonEth by simp
    show ?thesis
      using TonEth started
      by (cases "start_processing acc (ton_eth_events_state b)")
        (auto simp: update_ton_eth_event_def Let_def split: bool.split sum.split event_action.split option.split
          intro!: deliver remove' wait)
  next
    case SolTon
    have started: "P (b\<lparr>sol_ton_events_state := snd (start_processing acc (sol_ton_events_state b))\<rparr>)"
      using start [OF assms(1)] SolTon by simp
    have remove': "P b \<Longrightarrow> P (b\<lparr>sol_ton_events_state := events_remove acc (sol_ton_events_state b)\<rparr>)" for b
      using remove SolTon by simp
    show ?thesis
      using SolTon started assms(1)
      by (cases "start_processing acc (sol_ton_events_state b)")
        (auto simp: update_sol_ton_event_def Let_def split: bool.split sum.split event_action.split option.split
          intro!: deliver remove' wait)
  next
    case TonSol
    have started: "P (b\<lparr>ton_sol_events_state := snd (start_processing acc (ton_sol_events_state b))\<rparr>)"
      using start [OF assms(1)] TonSol by simp
    have remove': "P b \<Longrightarrow> P (b\<lparr>ton_sol_events_state := events_remove acc (ton_sol_events_state b)\<rparr>)" for b
      using remove TonSol by simp
    show ?thesis
      using TonSol started assms(1)
      by (cases "start_processing acc (ton_sol_events_state b)")
        (auto simp: update_ton_sol_event_def Let_def case_prod_beta split: bool.split sum.split event_action.split option.split
          intro!: deliver remove' wait)
  qed
qed

subsection \<open>The invariant\<close>

definition bridge_ok :: "update_env \<Rightarrow> bridge \<Rightarrow> bool" where
  "bridge_ok env b \<longleftrightarrow> bridge_inv b \<and> codes_registered (repr_hash env) b"

lemma bridge_ok_events:
  assumes "bridge_ok env b" "events_inv st"
  shows "bridge_ok env (set_events kind st b)"
  using assms by (cases kind) (simp_all add: bridge_ok_def bridge_inv_def codes_registered_def)

lemma events_inv_of: "bridge_ok env b \<Longrightarrow> events_inv (events_of kind b)"
  by (cases kind) (simp_all add: bridge_ok_def bridge_inv_def)

lemma preprocess_inv:
  "events_inv st \<Longrightarrow> events_inv (fst (fst (preprocess_event vm key kind contract acc st)))"
  by (simp add: preprocess_event_def split: sum.split event_action.split)

lemma search_ok:
  "bridge_ok env b \<Longrightarrow> bridge_ok env (fst (search_code_hashes env' get_state snapshot hashes b))"
proof (induction hashes arbitrary: b)
  case (Cons entry hashes)
  obtain code_hash kind where entry: "entry = (code_hash, kind)" by (cases entry)
  obtain st effects result where one: "iterate_code_hash_events env' kind (unique_event_configurations kind b) get_state
      (code_hash_keys code_hash snapshot) (events_of kind b) = (st, effects, result)" by (metis prod_cases3)
  have "events_inv st" by (rule iterate_events_inv [OF events_inv_of [OF Cons.prems] one])
  with Cons.IH [OF bridge_ok_events [OF Cons.prems, of st kind]] one entry show ?case
    by (simp add: case_prod_beta)
qed simp

lemma bridge_op_ok: "bridge_ok env b \<Longrightarrow> bridge_ok env (bridge_op_apply env op b)"
proof (induction op arbitrary: b)
  case (OpBridgeEvent ev)
  then show ?case using bridge_event_extends [of "repr_hash env" b ev] by (simp add: bridge_ok_def extends_def)
next
  case (OpCheckConnector now wait acc)
  then show ?case
    using check_connector_extends [of "bridge_env.truncate env" b now wait acc]
    by (simp add: bridge_ok_def extends_def bridge_env.truncate_def)
next
  case (OpGetAllConfigurations now shards acc)
  then show ?case
    using get_all_configurations_extends [of "bridge_env.truncate env" b now shards acc]
    by (simp add: bridge_ok_def extends_def bridge_env.truncate_def)
next
  case (OpEthTonEvent acc ev es)
  then show ?case using bridge_ok_events [of env b _ EthTon] events_inv_of [of env b EthTon] by (simp add: eth_ton.handle_inv)
next
  case (OpTonEthEvent acc ev es)
  then show ?case using bridge_ok_events [of env b _ TonEth] events_inv_of [of env b TonEth] by (simp add: ton_eth.handle_inv)
next
  case (OpSolTonEvent acc ev es)
  then show ?case using bridge_ok_events [of env b _ SolTon] events_inv_of [of env b SolTon] by (simp add: sol_ton.handle_inv)
next
  case (OpTonSolEvent acc ev es)
  then show ?case using bridge_ok_events [of env b _ TonSol] events_inv_of [of env b TonSol] by (simp add: ton_sol.handle_inv)
next
  case (OpGetAllEvents get_state snapshot)
  then show ?case using search_ok by (simp add: get_all_events_def split: option.split)
next
  case (OpUpdate kind w acc others)
  have waits: "bridge_ok env (fold id (map (bridge_op_apply env) ops) b)"
    if "bridge_ok env b" "\<And>op b. op \<in> set ops \<Longrightarrow> bridge_ok env b \<Longrightarrow> bridge_ok env (bridge_op_apply env op b)" for ops b
    using that by (induction ops arbitrary: b) simp_all
  show ?case
    unfolding bridge_op_apply.simps
  proof (rule update_event_preserves [where P = "bridge_ok env"], goal_cases)
    case (2 n b)
    then show ?case using OpUpdate.IH [of "others n"] by (auto intro!: waits)
  qed (use OpUpdate.prems in \<open>simp_all add: bridge_ok_events events_inv_of\<close>)
qed (simp_all add: bridge_ok_events events_inv_of preprocess_inv, (simp_all add: bridge_ok_def eth_ton_configuration_event_inv
    ton_eth_configuration_event_inv sol_ton_configuration_event_inv ton_sol_configuration_event_inv gc_round_inv)?)

lemma bridge_run_ok: "bridge_ok env (bridge_run env ops)"
proof -
  have "bridge_ok env b \<Longrightarrow> bridge_ok env (fold (bridge_op_apply env) ops b)" for b
    by (induction ops arbitrary: b) (simp_all add: bridge_op_ok)
  then show ?thesis using bridge_new_inv by (simp add: bridge_run_def bridge_ok_def)
qed

lemma counters_exact:
  assumes "bridge_ok env b"
  shows "total_active_eth_ton b = of_nat (card (hm_keys (eth_ton_event_configurations b)))"
    and "total_active_ton_eth b = of_nat (card (hm_keys (ton_eth_event_configurations b)))"
    and "total_active_sol_ton b = of_nat (card (hm_keys (sol_ton_event_configurations b)))"
    and "total_active_ton_sol b = of_nat (card (hm_keys (ton_sol_event_configurations b)))"
    and "events_state.count (events_of kind b) = of_nat (card (hm_keys (pending (events_of kind b))))"
  using assms events_inv_of [OF assms] eth_ton_configurations.counter_card ton_eth_configurations.counter_card
    sol_ton_configurations.counter_card ton_sol_configurations.counter_card events.counter_card
  unfolding bridge_ok_def by blast+

subsection \<open>Properties\<close>

text \<open>
  C1: After any sequence of the bridge's operations from the start, in any order, update tasks and the search at
  the start included, with anything else happening while they wait: no key of a map occurs twice, the activity counters
  are the numbers of configurations of the four directions, the pending counters are the numbers of pending events of
  the four directions, and the code hash of every configuration's event contract is registered for its
  direction, so that the search at start-up covers it.
\<close>

theorem bridge_invariant_always:
  assumes "b = bridge_run env ops"
  shows "bridge_inv b
    \<and> total_active_eth_ton b = of_nat (card (hm_keys (eth_ton_event_configurations b)))
    \<and> total_active_ton_eth b = of_nat (card (hm_keys (ton_eth_event_configurations b)))
    \<and> total_active_sol_ton b = of_nat (card (hm_keys (sol_ton_event_configurations b)))
    \<and> total_active_ton_sol b = of_nat (card (hm_keys (ton_sol_event_configurations b)))
    \<and> (\<forall>kind. distinct (map fst (pending (events_of kind b)))
        \<and> events_state.count (events_of kind b) = of_nat (card (hm_keys (pending (events_of kind b)))))
    \<and> (\<forall>acc c. hm_get (eth_ton_event_configurations b) acc = Some c \<longrightarrow>
        hm_get (event_code_hashes b) (repr_hash env (event_code (basic_configuration (et_details c)))) = Some EthTon)
    \<and> (\<forall>acc c. hm_get (ton_eth_event_configurations b) acc = Some c \<longrightarrow>
        hm_get (event_code_hashes b) (repr_hash env (event_code (basic_configuration (te_details c)))) = Some TonEth)
    \<and> (\<forall>acc c. hm_get (sol_ton_event_configurations b) acc = Some c \<longrightarrow>
        hm_get (event_code_hashes b) (repr_hash env (event_code (basic_configuration (st_details c)))) = Some SolTon)
    \<and> (\<forall>acc c. hm_get (ton_sol_event_configurations b) acc = Some c \<longrightarrow>
        hm_get (event_code_hashes b) (repr_hash env (event_code (basic_configuration (ts_details c)))) = Some TonSol)"
proof -
  have ok: "bridge_ok env b" unfolding assms by (rule bridge_run_ok)
  then have "distinct (map fst (pending (events_of kind b)))" for kind
    using events_inv_of [OF ok, of kind] by (simp add: events_inv_def hm_wf_def)
  with ok counters_exact [OF ok] show ?thesis
    unfolding bridge_ok_def codes_registered_def registered_def by blast
qed

text \<open>
  A run that loads a configuration, adds an event, starts an update task during whose second wait another event is added
  and removed, and that votes for the first one.
\<close>

definition demo_run_env :: update_env where
  "demo_run_env = bridge_env.extend demo_start_bridge_env (bridge_env.more (demo_update_env Pending))"

definition demo_run_ops :: "bridge_op list" where
  "demo_run_ops = [OpGetAllConfigurations 100 (Inr (\<lambda>_. Inr (Some demo_contract))) [6], OpAddEvent EthTon [1],
     OpUpdate EthTon demo_world [1]
       (\<lambda>n. if n = 1 then [OpAddEvent EthTon [2], OpStartProcessing EthTon [2], OpRemoveEvent EthTon [2]] else [])]"

lemma demo_run_env:
  "bridge_env.truncate demo_run_env = demo_start_bridge_env" "abi demo_run_env = demo_abi"
  "ton_public_key demo_run_env = [7]" "eth_subscriber_exists demo_run_env 1" "param_models demo_run_env = (\<lambda>_. [])"
  "repr_hash demo_run_env = demo_repr_hash"
  by (simp_all add: demo_run_env_def bridge_env.truncate_def bridge_env.extend_def demo_start_bridge_env_def demo_env_def
      demo_update_env_def)

definition demo_waiting_bridge :: "bool \<Rightarrow> bridge" where
  "demo_waiting_bridge started = demo_loaded_bridge\<lparr>eth_ton_events_state :=
     \<lparr>pending = [([1], \<lparr>processing_started = started\<rparr>)], count = 1\<rparr>\<rparr>"

lemma demo_waiting:
  "set_events EthTon (fst (snd (add_pending_event [1] (events_of EthTon demo_loaded_bridge)))) demo_loaded_bridge
     = demo_waiting_bridge False"
  "start_processing [1] (eth_ton_events_state (demo_waiting_bridge False)) =
     (True, eth_ton_events_state (demo_waiting_bridge True))"
  "demo_waiting_bridge False\<lparr>eth_ton_events_state := eth_ton_events_state (demo_waiting_bridge True)\<rparr> = demo_waiting_bridge True"
  "fold id (map (bridge_op_apply demo_run_env)
     [OpAddEvent EthTon [2], OpStartProcessing EthTon [2], OpRemoveEvent EthTon [2]]) (demo_waiting_bridge True)
     = demo_waiting_bridge True"
  by (simp_all add: demo_waiting_bridge_def demo_loaded_bridge_def bridge_new_def events_state_new_def add_pending_event_def
      start_processing_def events_remove_def)

lemma demo_contract_vote:
  "event_base_process demo_abi demo_contract [7] False = Inr Vote"
  "\<exists>init. eth_ton_event_init_data_of demo_abi demo_contract = Inr init \<and> et_configuration init = [4]"
  by (simp_all add: event_base_process_def can_vote_def status_def get_voters_def get_api_version_def call_local_def
      call_responsible_def run_local_def SUPPORTED_API_VERSION_def eth_ton_event_init_data_of_def demo_abi_def)

lemma demo_run: "bridge_run demo_run_env demo_run_ops = demo_waiting_bridge True"
proof -
  let ?during = "\<lambda>n. fold id (map (bridge_op_apply demo_run_env)
    (if n = (1::nat) then [OpAddEvent EthTon [2], OpStartProcessing EthTon [2], OpRemoveEvent EthTon [2]] else []))"
  let ?w = "demo_world\<lparr>during := ?during\<rparr>"
  have wait: "during ?w n (demo_waiting_bridge True) = demo_waiting_bridge True" for n
    using demo_waiting(4) by (cases "n = 1") simp_all
  obtain init where init: "eth_ton_event_init_data_of demo_abi demo_contract = Inr init" "et_configuration init = [4]"
    using demo_contract_vote(2) by blast
  obtain c where c: "hm_get (eth_ton_event_configurations (demo_waiting_bridge True)) [4] = Some c"
    "etc_chain_id (network_configuration (et_details c)) = 1"
    by (simp add: demo_waiting_bridge_def demo_loaded_bridge_def demo_details_def)
  have world: "update_world.wait_contract_state ?w [1] = Inr demo_contract" "eth_verify ?w chain vote emitter parsed blocks checks = Inr Exists"
    for chain vote emitter parsed blocks checks by (simp_all add: demo_world_def)
  have "fst (update_eth_ton_event demo_run_env ?w [1] (demo_waiting_bridge False)) = demo_waiting_bridge True"
    unfolding update_eth_ton_event_def demo_waiting(2) prod.case bool.case Let_def demo_waiting(3) wait world
    by (simp add: demo_run_env demo_contract_vote(1) init c wait deliver_vote_def split: sum.split option.split del: update_world.simps)
  then show ?thesis
    using demo_waiting(1) demo_loaded by (simp add: bridge_run_def demo_run_ops_def demo_run_env)
qed

theorem bridge_invariant_always_witness:
  "events_state.count (events_of EthTon (bridge_run demo_run_env demo_run_ops)) = of_nat (card {[1 :: u8]})
    \<and> hm_get (event_code_hashes (bridge_run demo_run_env demo_run_ops)) (demo_repr_hash [8]) = Some EthTon"
proof -
  let ?b = "bridge_run demo_run_env demo_run_ops"
  note always = bridge_invariant_always [OF refl, of demo_run_env demo_run_ops]
  have keys: "hm_keys (pending (events_of EthTon ?b)) = {[1]}" by (simp add: demo_run demo_waiting_bridge_def)
  obtain c where "hm_get (eth_ton_event_configurations ?b) [4] = Some c" "event_code (basic_configuration (et_details c)) = [8]"
    by (simp add: demo_run demo_waiting_bridge_def demo_loaded_bridge_def demo_details_def)
  then show ?thesis using always keys demo_run_env(6) by metis
qed

end
