(* ===== verification/Metrics.thy ===== *)
theory Metrics
  imports Bridge_Search Staking Node_Sync Eth_Subscriber Sol_Subscriber
begin

section \<open>The exported metrics\<close>

text \<open>
  The \<open>Labeled...Metrics\<close> of \<open>src/engine/mod.rs\<close>: the series that one scrape of the exporter writes, each with
  its name, its labels and its value. The text format around them is third-party.
\<close>

record metric =
  metric_name :: string
  metric_labels :: "(string \<times> string) list"
  metric_value :: int

subsection \<open>Numbers in labels\<close>

fun decimal :: "nat \<Rightarrow> string" where
  "decimal n = (if n < 10 then [char_of (48 + n)] else decimal (n div 10) @ [char_of (48 + n mod 10)])"

declare decimal.simps [simp del]

definition LABEL_STAKER :: string where
  "LABEL_STAKER = ''staker''"

definition LABEL_CHAIN_ID :: string where
  "LABEL_CHAIN_ID = ''chain_id''"

definition LABEL_ROUND_NUM :: string where
  "LABEL_ROUND_NUM = ''round_num''"

text \<open>\<open>begin_metric\<close> with the label every series carries, then those given.\<close>

definition series :: "string \<Rightarrow> string \<Rightarrow> (string \<times> string) list \<Rightarrow> int \<Rightarrow> metric" where
  "series staker name labels v =
     \<lparr>metric_name = name, metric_labels = (LABEL_STAKER, staker) # labels, metric_value = v\<rparr>"

subsection \<open>The series of each component\<close>

definition bridge_series :: "string \<Rightarrow> bridge_metrics \<Rightarrow> metric list" where
  "bridge_series staker m =
     [series staker ''bridge_pending_eth_ton_event_count'' [] (uint (pending_eth_ton_event_count m)),
      series staker ''bridge_pending_ton_eth_event_count'' [] (uint (pending_ton_eth_event_count m)),
      series staker ''bridge_pending_sol_ton_event_count'' [] (uint (pending_sol_ton_event_count m)),
      series staker ''bridge_pending_ton_sol_event_count'' [] (uint (pending_ton_sol_event_count m)),
      series staker ''bridge_total_active_eth_ton_event_configurations'' [] (uint (total_active_eth_ton_event_configurations m)),
      series staker ''bridge_total_active_ton_eth_event_configurations'' [] (uint (total_active_ton_eth_event_configurations m)),
      series staker ''bridge_total_active_sol_ton_event_configurations'' [] (uint (total_active_sol_ton_event_configurations m)),
      series staker ''bridge_total_active_ton_sol_event_configurations'' [] (uint (total_active_ton_sol_event_configurations m))]"

definition elections_series :: "string \<Rightarrow> (string \<times> string) list \<Rightarrow> elections_state \<Rightarrow> metric list \<times> int" where
  "elections_series staker labels st =
     (case st of
        NotStarted start_time \<Rightarrow> ([series staker ''staking_elections_start_time'' labels (uint start_time)], 0)
      | Started start_time end_time \<Rightarrow>
          ([series staker ''staking_elections_start_time'' labels (uint start_time),
            series staker ''staking_elections_end_time'' labels (uint end_time)], 1)
      | Finished \<Rightarrow> ([], 2))"

definition staking_series :: "string \<Rightarrow> staking_metrics \<Rightarrow> metric list" where
  "staking_series staker m =
     (let round_num = [(LABEL_ROUND_NUM, decimal (unat (sm_current_relay_round m)))]
      in case elections_series staker round_num (sm_elections_state m) of
           (elections, elections_status) \<Rightarrow>
             [series staker ''staking_user_data_tokens_balance'' round_num (uint (sm_user_data_tokens_balance m)),
              series staker ''staking_current_relay_round'' [] (uint (sm_current_relay_round m))]
             @ elections
             @ [series staker ''staking_elections_status'' round_num elections_status,
                series staker ''staking_ignore_elections'' round_num (of_bool (sm_ignore_elections m))]
             @ (case sm_participates_in_round m of
                  Some b \<Rightarrow> [series staker ''staking_participates_in_round'' round_num (of_bool b)] | None \<Rightarrow> [])
             @ (case sm_elected m of
                  Some b \<Rightarrow> [series staker ''staking_elected'' round_num (of_bool b)] | None \<Rightarrow> []))"

text \<open>What the node reports.\<close>

record indexer_metrics =
  mc_time_diff :: int
  shard_client_time_diff :: int
  last_mc_block_seqno :: u32
  last_shard_client_mc_block_seqno :: u32

definition ton_series :: "string \<Rightarrow> indexer_metrics \<Rightarrow> ton_subscriber_metrics \<Rightarrow> metric list" where
  "ton_series staker im m =
     [series staker ''ton_subscriber_ready'' [] (of_bool (tsm_ready m))]
     @ (if 0 < tsm_current_utime m
        then [series staker ''ton_subscriber_current_utime'' [] (uint (tsm_current_utime m)),
              series staker ''ton_subscriber_time_diff'' [] (mc_time_diff im),
              series staker ''ton_subscriber_shard_client_time_diff'' [] (shard_client_time_diff im),
              series staker ''ton_subscriber_mc_block_seqno'' [] (uint (last_mc_block_seqno im)),
              series staker ''ton_subscriber_shard_client_mc_block_seqno'' [] (uint (last_shard_client_mc_block_seqno im))]
        else [])
     @ [series staker ''ton_subscriber_pending_message_count'' [] (uint (tsm_pending_message_count m))]"

record eth_subscriber_metrics =
  esm_last_processed_block :: u64
  esm_pending_confirmation_count :: usize

definition eth_subscriber_metrics_of :: "eth_subscriber \<Rightarrow> eth_subscriber_metrics" where
  "eth_subscriber_metrics_of s = \<lparr>esm_last_processed_block = last_processed_block s,
     esm_pending_confirmation_count = pending_confirmation_count s\<rparr>"

definition chain_id_str :: "u32 \<Rightarrow> string" where
  "chain_id_str chain_id = decimal (unat chain_id)"

definition eth_series :: "string \<Rightarrow> (u32 \<times> eth_subscriber) list \<Rightarrow> metric list" where
  "eth_series staker subscribers =
     concat (map (\<lambda>(chain_id, s).
       [series staker ''eth_subscriber_last_processed_block'' [(LABEL_CHAIN_ID, chain_id_str chain_id)]
          (uint (esm_last_processed_block (eth_subscriber_metrics_of s))),
        series staker ''eth_subscriber_pending_confirmation_count'' [(LABEL_CHAIN_ID, chain_id_str chain_id)]
          (uint (esm_pending_confirmation_count (eth_subscriber_metrics_of s)))]) subscribers)"

record sol_subscriber_metrics =
  ssm_pending_events_count :: usize

definition sol_subscriber_metrics_of :: "sol_subscriber \<Rightarrow> sol_subscriber_metrics" where
  "sol_subscriber_metrics_of s = \<lparr>ssm_pending_events_count = pending_events_count s\<rparr>"

definition sol_series :: "string \<Rightarrow> sol_subscriber option \<Rightarrow> metric list" where
  "sol_series staker sol =
     (case sol of
        Some s \<Rightarrow> [series staker ''sol_subscriber_pending_events_count'' []
          (uint (ssm_pending_events_count (sol_subscriber_metrics_of s)))]
      | None \<Rightarrow> [])"

text \<open>One scrape: the bridge and staking once they are initialised.\<close>

definition metrics_page ::
  "string \<Rightarrow> (u32 \<times> eth_subscriber) list \<Rightarrow> indexer_metrics \<Rightarrow> ton_subscriber \<Rightarrow> sol_subscriber option \<Rightarrow>
     bridge option \<Rightarrow> (staking_context \<times> staking) option \<Rightarrow> metric list"
where
  "metrics_page staker subscribers im ton sol b st =
     eth_series staker subscribers @ ton_series staker im (ton_subscriber_metrics_of ton) @ sol_series staker sol
     @ (case b of Some b \<Rightarrow> bridge_series staker (bridge_metrics_of b) | None \<Rightarrow> [])
     @ (case st of Some (ctx, s) \<Rightarrow> staking_series staker (staking_metrics_of ctx s) | None \<Rightarrow> [])"

subsection \<open>Labels tell chains apart\<close>

lemma decimal_not_Nil: "decimal n \<noteq> []"
  by (simp add: decimal.simps [of n])

lemma char_of_digit: "i < 10 \<Longrightarrow> j < 10 \<Longrightarrow> char_of (48 + i) = char_of (48 + j :: nat) \<longleftrightarrow> i = j"
  by (simp add: char_of_eq_iff char_of_take_bit_eq take_bit_nat_eq_self)

lemma decimal_inject: "decimal m = decimal n \<longleftrightarrow> m = n"
proof
  show "decimal m = decimal n \<Longrightarrow> m = n"
  proof (induction m arbitrary: n rule: decimal.induct)
    case (1 m)
    show ?case
    proof (cases "m < 10"; cases "n < 10")
      assume "m < 10" "n < 10"
      with 1(2) char_of_digit [of m n] show ?thesis by (simp add: decimal.simps)
    next
      assume "m < 10" "\<not> n < 10"
      with 1(2) decimal_not_Nil [of "n div 10"] show ?thesis
        by (simp add: decimal.simps [of m] decimal.simps [of n])
    next
      assume "\<not> m < 10" "n < 10"
      with 1(2) decimal_not_Nil [of "m div 10"] show ?thesis
        by (simp add: decimal.simps [of m] decimal.simps [of n])
    next
      assume big: "\<not> m < 10" "\<not> n < 10"
      then have "decimal (m div 10) = decimal (n div 10)" "char_of (48 + m mod 10) = char_of (48 + n mod 10 :: nat)"
        using 1(2) by (simp_all add: decimal.simps [of m] decimal.simps [of n])
      with 1(1) [OF big(1)] char_of_digit [of "m mod 10" "n mod 10"] have "m div 10 = n div 10" "m mod 10 = n mod 10" by simp_all
      then show ?thesis by (metis div_mult_mod_eq)
    qed
  qed
qed simp

lemma chain_id_str_inject [simp]: "chain_id_str a = chain_id_str b \<longleftrightarrow> a = b"
  by (simp add: chain_id_str_def decimal_inject unsigned_word_eqI [THEN iffI])

subsection \<open>Properties\<close>

definition metric_key :: "metric \<Rightarrow> string \<times> (string \<times> string) list" where
  "metric_key m = (metric_name m, metric_labels m)"

lemma metric_key_series [simp]: "metric_key (series staker name labels v) = (name, (LABEL_STAKER, staker) # labels)"
  by (simp add: metric_key_def series_def)

lemma distinct_two_each:
  assumes "distinct cs" "a \<noteq> b" "inj f"
  shows "distinct (concat (map (\<lambda>c. [(a, f c), (b, f c)]) cs))"
  using assms(1) by (induction cs) (auto simp: assms(2) inj_eq [OF assms(3)])

lemma eth_series_distinct:
  assumes "hm_wf subscribers"
  shows "distinct (map metric_key (eth_series staker subscribers))"
proof -
  let ?labels = "\<lambda>c. [(LABEL_STAKER, staker), (LABEL_CHAIN_ID, chain_id_str c)]"
  have "map metric_key (eth_series staker subscribers) =
      concat (map (\<lambda>c. [(''eth_subscriber_last_processed_block'', ?labels c),
        (''eth_subscriber_pending_confirmation_count'', ?labels c)]) (map fst subscribers))"
    unfolding eth_series_def map_concat map_map by (rule arg_cong [of _ _ concat], rule map_cong [OF refl]) (simp add: case_prod_beta)
  moreover have "inj ?labels" by (rule injI) simp
  ultimately show ?thesis
    using assms distinct_two_each [of "map fst subscribers" "''eth_subscriber_last_processed_block''"
        "''eth_subscriber_pending_confirmation_count''" ?labels] by (simp add: hm_wf_def)
qed

lemma one_series_each:
  "distinct (map metric_key (ton_series staker im tm))" "distinct (map metric_key (sol_series staker sol))"
  "distinct (map metric_key (bridge_series staker bm))" "distinct (map metric_key (staking_series staker sm))"
proof -
  show "distinct (map metric_key (ton_series staker im tm))"
    by (cases "0 < tsm_current_utime tm") (simp_all add: ton_series_def)
  show "distinct (map metric_key (sol_series staker sol))" by (simp add: sol_series_def split: option.split)
  show "distinct (map metric_key (bridge_series staker bm))" by (simp add: bridge_series_def)
  show "distinct (map metric_key (staking_series staker sm))"
    by (cases "sm_elections_state sm"; cases "sm_participates_in_round sm"; cases "sm_elected sm")
      (simp_all add: staking_series_def elections_series_def Let_def)
qed

text \<open>The names of a component begin with its own prefix.\<close>

lemma series_prefixes:
  "\<forall>m \<in> set (eth_series staker subscribers). take 4 (metric_name m) = ''eth_''"
  "\<forall>m \<in> set (ton_series staker im tm). take 4 (metric_name m) = ''ton_''"
  "\<forall>m \<in> set (sol_series staker sol). take 4 (metric_name m) = ''sol_''"
  "\<forall>m \<in> set (bridge_series staker bm). take 4 (metric_name m) = ''brid''"
  "\<forall>m \<in> set (staking_series staker sm). take 4 (metric_name m) = ''stak''"
proof -
  show "\<forall>m \<in> set (eth_series staker subscribers). take 4 (metric_name m) = ''eth_''"
  proof -
    have "map (\<lambda>m. take 4 (metric_name m)) (eth_series staker subscribers) = replicate (2 * length subscribers) ''eth_''"
      by (induction subscribers) (simp_all add: eth_series_def series_def case_prod_beta)
    then have "set (map (\<lambda>m. take 4 (metric_name m)) (eth_series staker subscribers)) \<subseteq> {''eth_''}"
      by (simp only: set_replicate_conv_if) simp
    then show ?thesis by auto
  qed
  show "\<forall>m \<in> set (ton_series staker im tm). take 4 (metric_name m) = ''ton_''"
    by (cases "0 < tsm_current_utime tm") (simp_all add: ton_series_def series_def)
  show "\<forall>m \<in> set (sol_series staker sol). take 4 (metric_name m) = ''sol_''"
    by (cases sol) (simp_all add: sol_series_def series_def)
  show "\<forall>m \<in> set (bridge_series staker bm). take 4 (metric_name m) = ''brid''"
    by (simp add: bridge_series_def series_def)
  show "\<forall>m \<in> set (staking_series staker sm). take 4 (metric_name m) = ''stak''"
    by (cases "sm_elections_state sm"; cases "sm_participates_in_round sm"; cases "sm_elected sm")
      (simp_all add: staking_series_def elections_series_def series_def Let_def)
qed

lemma metric_keys_append:
  assumes "distinct (map metric_key xs)" "distinct (map metric_key ys)"
    and "\<forall>m \<in> set xs. \<forall>n \<in> set ys. take 4 (metric_name m) \<noteq> take 4 (metric_name n)"
  shows "distinct (map metric_key (xs @ ys))"
proof -
  have "metric_key m \<noteq> metric_key n" if "m \<in> set xs" "n \<in> set ys" for m n
    using bspec [OF bspec [OF assms(3) that(1)] that(2)] by (auto simp: metric_key_def)
  with assms(1,2) show ?thesis by fastforce
qed

text \<open>
  A scrape never writes two series with the same name and labels: the chains are told apart by their
  decimal ids, and of the elections only what belongs to their present state is written.
\<close>

theorem metrics_page_distinct:
  assumes "hm_wf subscribers"
  shows "distinct (map (\<lambda>m. (metric_name m, metric_labels m)) (metrics_page staker subscribers im ton sol b st))"
proof -
  let ?b = "case b of Some b \<Rightarrow> bridge_series staker (bridge_metrics_of b) | None \<Rightarrow> []"
  let ?st = "case st of Some (ctx, s) \<Rightarrow> staking_series staker (staking_metrics_of ctx s) | None \<Rightarrow> []"
  have parts: "distinct (map metric_key ?b)" "distinct (map metric_key ?st)"
    "\<forall>m \<in> set ?b. take 4 (metric_name m) = ''brid''" "\<forall>m \<in> set ?st. take 4 (metric_name m) = ''stak''"
    using one_series_each series_prefixes by (auto split: option.split)
  have "distinct (map metric_key (metrics_page staker subscribers im ton sol b st))"
    unfolding metrics_page_def
    by (intro metric_keys_append eth_series_distinct [OF assms] one_series_each parts(1,2))
      (use parts(3,4) series_prefixes in auto)
  moreover have "metric_key = (\<lambda>m. (metric_name m, metric_labels m))" by (rule ext) (simp add: metric_key_def)
  ultimately show ?thesis by simp
qed

theorem metrics_page_distinct_witness:
  "\<exists>staker. distinct (map (\<lambda>m. (metric_name m, metric_labels m))
     (metrics_page staker [(1, demo_eth), (56, demo_eth)] \<lparr>mc_time_diff = 1, shard_client_time_diff = 2,
        last_mc_block_seqno = 3, last_shard_client_mc_block_seqno = 4\<rparr> demo_ton (Some demo_sol) (Some bridge_new) None))"
  using metrics_page_distinct [of "[(1, demo_eth), (56, demo_eth)]"] by (simp add: hm_wf_def)

end
