(* ===== verification/Rpc_Requests.thy ===== *)
theory Rpc_Requests
  imports Complex_Main Solana
begin

section \<open>Requests to the nodes of other chains\<close>

text \<open>
  How often a request is repeated: the configurations of \<open>src/utils/retry.rs\<close>, the requests of
  \<open>src/engine/sol_subscriber/mod.rs\<close> (\<open>get_account\<close> to \<open>healthcheck\<close>) and those of
  \<open>src/engine/eth_subscriber/mod.rs\<close>. The number of repetitions is computed in \<open>f64\<close>; here it is computed
  in the reals: a \<open>Duration\<close> is its number of seconds. With the arguments of every call (1 s, factor 2,
  600 s, whole seconds below \<open>2 ^ 40\<close>) both give the same, since the quotient that is rounded is an integer or
  at least 1/600 away from one, and the logarithm is far from an integer. The semaphore around a
  request only delays it.
\<close>

subsection \<open>How often\<close>

text \<open>\<open>as u32\<close> on a float: saturating.\<close>

definition real_as_u32 :: "int \<Rightarrow> u32" where
  "real_as_u32 n = of_int (max 0 (min (2 ^ 32 - 1) n))"

definition calculate_times_from_max_delay :: "real \<Rightarrow> real \<Rightarrow> real \<Rightarrow> real \<Rightarrow> u32" where
  "calculate_times_from_max_delay start_delay fraction maximum_delay total_retry_time =
     (let saturation_steps = real_of_int \<lfloor>log 10 ((maximum_delay - start_delay) / start_delay) / log 10 fraction\<rfloor>;
          time_to_saturate = start_delay * (1 - fraction powr saturation_steps) / (1 - fraction);
          remaining_time = total_retry_time - time_to_saturate;
          steps = remaining_time / maximum_delay
      in real_as_u32 \<lceil>steps + saturation_steps\<rceil>)"

text \<open>The number of repetitions of a configuration; its delays are up to \<open>tryhard\<close>.\<close>

definition generate_default_timeout_config :: "u64 \<Rightarrow> u32" where
  "generate_default_timeout_config total_secs = calculate_times_from_max_delay 1 2 600 (real (unat total_secs))"

definition generate_sol_rpc_backoff_config :: "u64 \<Rightarrow> u32" where
  "generate_sol_rpc_backoff_config total_secs = calculate_times_from_max_delay 1 2 600 (real (unat total_secs))"

definition generate_fixed_timeout_config :: "u64 \<Rightarrow> u64 \<Rightarrow> u32 res" where
  "generate_fixed_timeout_config sleep_secs total_secs =
     (if sleep_secs = 0 then Inl (Panic ''attempt to divide by zero'')
      else if unat (total_secs div sleep_secs) < 2 ^ 32 then Inr (ucast (total_secs div sleep_secs))
      else Inl (Panic ''Overflow''))"

subsection \<open>Solana requests\<close>

text \<open>
  The attempts are listed; \<open>None\<close> means that more of them are needed. Each of the five functions repeats
  its own method of the client.
\<close>

definition default_retry :: "u64 \<Rightarrow> ('e + 'a) list \<Rightarrow> ('e + 'a) option" where
  "default_retry secs attempts = retry (\<lambda>_. Delay) (unat (generate_default_timeout_config secs)) attempts"

text \<open>\<open>?\<close> turns the client's error into an \<open>anyhow\<close> one.\<close>

definition as_anyhow :: "client_error + 'a \<Rightarrow> 'a res" where
  "as_anyhow r = (case r of Inl e \<Rightarrow> Inl (Foreign ''Solana client'') | Inr x \<Rightarrow> Inr x)"

record sol_rpc =
  get_account_with_commitment :: "uint256 \<Rightarrow> (client_error + bytes option) list"
  get_transaction_with_config :: "bytes \<Rightarrow> (client_error + bytes) list"
  rpc_latest_blockhash :: "(client_error + uint256) list"
  rpc_block_height :: "(client_error + u64) list"
  rpc_health :: "(client_error + unit) list"

definition get_account :: "sol_rpc \<Rightarrow> uint256 \<Rightarrow> u64 \<Rightarrow> bytes option res option" where
  "get_account client account_pubkey secs =
     map_option as_anyhow (default_retry secs (get_account_with_commitment client account_pubkey))"

definition get_transaction :: "sol_rpc \<Rightarrow> bytes \<Rightarrow> u64 \<Rightarrow> bytes res option" where
  "get_transaction client signature secs =
     map_option as_anyhow (default_retry secs (get_transaction_with_config client signature))"

definition get_latest_blockhash :: "sol_rpc \<Rightarrow> u64 \<Rightarrow> (client_error + uint256) option" where
  "get_latest_blockhash client secs = default_retry secs (rpc_latest_blockhash client)"

definition get_block_height :: "sol_rpc \<Rightarrow> u64 \<Rightarrow> u64 res option" where
  "get_block_height client secs = map_option as_anyhow (default_retry secs (rpc_block_height client))"

definition healthcheck :: "sol_rpc \<Rightarrow> u64 \<Rightarrow> unit res option" where
  "healthcheck client secs = map_option as_anyhow (default_retry secs (rpc_health client))"

subsection \<open>EVM requests\<close>

text \<open>A request under \<open>timeout\<close>: elapsed, or finished with its own result.\<close>

datatype 'a timed = Elapsed | Finished "'a res"

definition get_current_block_number :: "u64 timed \<Rightarrow> u64 res" where
  "get_current_block_number request =
     (case request of Elapsed \<Rightarrow> Inl (Context ''Timeout getting height'') | Finished r \<Rightarrow> r)"

text \<open>The height at the start of \<open>update\<close>: an error of the client is one of the repeated request.\<close>

definition request_height :: "u64 \<Rightarrow> u64 \<Rightarrow> u64 timed list \<Rightarrow> u64 res option" where
  "request_height get_timeout_sec total_secs requests =
     (case generate_fixed_timeout_config get_timeout_sec total_secs of
        Inl e \<Rightarrow> Some (Inl e)
      | Inr repetitions \<Rightarrow> retry (\<lambda>_. Delay) (unat repetitions) (map get_current_block_number requests))"

definition request_logs :: "u64 \<Rightarrow> 'l res list \<Rightarrow> 'l res option" where
  "request_logs total_secs requests = map_option (with_context ''Failed getting eth logs'') (default_retry total_secs requests)"

text \<open>The receipt in \<open>find_event\<close>: only an elapsed timeout fails the repeated future.\<close>

definition request_receipt :: "u64 \<Rightarrow> 'r option timed list \<Rightarrow> 'r option res option" where
  "request_receipt total_secs requests =
     map_option
       (\<lambda>r. case r of Inl e \<Rightarrow> Inl (Context ''Timed out getting receipt'')
            | Inr answer \<Rightarrow> with_context ''Failed getting logs'' answer)
       (default_retry total_secs (map (\<lambda>t. case t of Elapsed \<Rightarrow> Inl () | Finished answer \<Rightarrow> Inr answer) requests))"

text \<open>The relay's balance, without repetitions; the caller polls.\<close>

definition get_balance :: "nat res \<Rightarrow> nat res" where
  "get_balance response = rbind response Inr"

subsection \<open>The number of repetitions\<close>

lemma log_two_599: "\<lfloor>log 10 ((600 - 1) / (1 :: real)) / log 10 2\<rfloor> = 9"
proof -
  have "log 10 (599 :: real) / log 10 2 = log 2 599" by (simp add: log_def)
  moreover have "9 \<le> log 2 (599 :: real)" by (subst le_log_iff) simp_all
  moreover have "log 2 (599 :: real) < 10" by (subst log_less_iff) simp_all
  ultimately show ?thesis by (intro floor_unique) simp_all
qed

lemma default_times_eq:
  "generate_default_timeout_config secs = real_as_u32 (9 + \<lceil>(real (unat secs) - 511) / 600\<rceil>)"
proof -
  have "(2 :: real) powr 9 = 512" by (simp add: powr_numeral)
  moreover have "\<lceil>(real (unat secs) - 511) / 600 + 9\<rceil> = 9 + \<lceil>(real (unat secs) - 511) / 600\<rceil>" by linarith
  ultimately show ?thesis
    unfolding generate_default_timeout_config_def calculate_times_from_max_delay_def
    by (simp only: log_two_599 Let_def) (simp add: add.commute)
qed

lemma unat_real_as_u32: "0 \<le> n \<Longrightarrow> n < 2 ^ 32 \<Longrightarrow> unat (real_as_u32 n) = nat n"
  by (simp add: real_as_u32_def unsigned_of_int take_bit_int_eq_self flip: nat_uint_eq)

text \<open>The documented delays of the exponential back-off: doubling from one second, at most ten minutes.\<close>

definition doubling_delays :: "(nat \<Rightarrow> nat) \<Rightarrow> bool" where
  "doubling_delays delay \<longleftrightarrow> (\<forall>k. delay k = min (2 ^ k) 600)"

lemma sum_doubling: "doubling_delays delay \<Longrightarrow> sum delay {..<9} = 511"
  by (simp add: doubling_delays_def lessThan_nat_numeral lessThan_Suc)

lemma sum_doubling_more:
  assumes "doubling_delays delay"
  shows "sum delay {..<Suc (9 + m)} = 1023 + 600 * m"
proof (induction m)
  case 0
  have "sum delay {..<Suc 9} = 511 + delay 9" using sum_doubling [OF assms] by (simp only: sum.lessThan_Suc)
  with assms show ?case by (simp add: doubling_delays_def)
next
  case (Suc m)
  have "(600 :: nat) \<le> 2 ^ 10" by simp
  also have "(2 :: nat) ^ 10 \<le> 2 ^ Suc (9 + m)" by (rule power_increasing) simp_all
  finally have "delay (Suc (9 + m)) = 600" using assms unfolding doubling_delays_def by (simp only: min_absorb2)
  with Suc show ?case by (simp only: add_Suc_right lessThan_Suc) simp
qed

lemma default_times_waiting:
  assumes "doubling_delays delay" "unat secs < 2 ^ 40"
  shows "unat secs \<le> sum delay {..<unat (generate_default_timeout_config secs)} + 88
    \<and> sum delay {..<unat (generate_default_timeout_config secs)} \<le> unat secs + 511"
proof -
  define s where "s = unat secs"
  define x where "x = (real s - 511) / 600"
  define n where "n = 9 + \<lceil>x\<rceil>"
  have lo: "real_of_int \<lceil>x\<rceil> - 1 < x" "x \<le> real_of_int \<lceil>x\<rceil>" by linarith+
  have "real s < 2 ^ 40" using assms(2) unfolding s_def [symmetric] by (simp only: of_nat_less_numeral_power_cancel_iff)
  then have "- 1 < x" "x < 4294967286" by (simp_all add: x_def)
  then have bounds: "0 \<le> \<lceil>x\<rceil>" "\<lceil>x\<rceil> < 4294967287" using lo by linarith+
  then have times: "unat (generate_default_timeout_config secs) = 9 + nat \<lceil>x\<rceil>"
    using unat_real_as_u32 [of n] unfolding default_times_eq s_def [symmetric] x_def [symmetric] n_def
    by (simp add: nat_add_distrib)
  have "s \<le> sum delay {..<unat (generate_default_timeout_config secs)} + 88
    \<and> sum delay {..<unat (generate_default_timeout_config secs)} \<le> s + 511"
  proof (cases "\<lceil>x\<rceil> = 0")
    case True
    then have "x \<le> 0" using lo by linarith
    then have "s \<le> 511" by (simp add: x_def)
    with True sum_doubling [OF assms(1)] times show ?thesis by simp
  next
    case False
    with bounds(1) have "0 < nat \<lceil>x\<rceil>" by linarith
    then obtain m where m: "nat \<lceil>x\<rceil> = Suc m" using gr0_implies_Suc by blast
    then have "real_of_int \<lceil>x\<rceil> = real m + 1" using bounds(1) by linarith
    then have "real s \<le> 511 + 600 * (real m + 1)" "600 * real m < real s - 511"
      using lo by (simp_all add: x_def field_simps)
    then have "real s \<le> real (1111 + 600 * m)" "real (600 * m + 511) < real s" by simp_all
    then have "s \<le> 1111 + 600 * m" "600 * m + 511 < s" by (simp_all only: of_nat_le_iff of_nat_less_iff)
    moreover have "sum delay {..<unat (generate_default_timeout_config secs)} = 1023 + 600 * m"
      using sum_doubling_more [OF assms(1), of m] times m by simp
    ultimately show ?thesis by simp
  qed
  then show ?thesis by (simp only: s_def)
qed

subsection \<open>Properties\<close>

text \<open>
  C40: A request to a Solana node that fails every time is given up: it was repeated so often that the
  documented back-off waited for the configured time, to within ten minutes (88 seconds less at most,
  511 more), and the error returned is that of the last attempt.
\<close>

theorem request_given_up_in_time:
  assumes "doubling_delays delay" "unat secs < 2 ^ 40" "default_retry secs attempts = Some (Inl e)"
  shows "\<exists>failed rest. attempts = map Inl failed @ Inl e # rest
    \<and> unat secs \<le> sum delay {..<length failed} + 88 \<and> sum delay {..<length failed} \<le> unat secs + 511"
proof -
  from retry_result [OF assms(3) [unfolded default_retry_def]] obtain failed rest
    where "attempts = map Inl failed @ Inl e # rest" "length failed = unat (generate_default_timeout_config secs)"
    by auto
  with default_times_waiting [OF assms(1,2)] show ?thesis by metis
qed

text \<open>
  While the height of an EVM chain is asked for again after any failure, the receipt of an event's
  transaction is asked for again only when the request timed out: an error the node answers with ends the
  verification's request at once, whatever time is configured for repetitions.
\<close>

theorem receipt_error_not_retried:
  assumes "0 < unat secs div unat pause" "unat secs div unat pause < 2 ^ 32"
  shows "request_receipt secs (Finished (Inl e) # requests) = Some (Inl (Context ''Failed getting logs''))
   \<and> request_height pause secs [Finished (Inl e), Finished (Inr height)] = Some (Inr height)"
proof -
  have "pause \<noteq> 0" using assms(1) by (cases "pause = 0") simp_all
  moreover have "unat (ucast (secs div pause) :: u32) = unat secs div unat pause"
    using assms(2) by (simp add: unsigned_ucast_eq unat_div take_bit_nat_eq_self)
  ultimately have "request_height pause secs [Finished (Inl e), Finished (Inr height)] = Some (Inr height)"
    using assms by (cases "unat secs div unat pause")
      (auto simp: request_height_def generate_fixed_timeout_config_def get_current_block_number_def unat_div)
  moreover have "default_retry secs (Inr (Inl e) # attempts) = Some (Inr (Inl e))" for attempts :: "(unit + 'x res) list"
    by (simp add: default_retry_def)
  ultimately show ?thesis by (simp add: request_receipt_def default_retry_def)
qed

lemma demo_times: "unat (generate_default_timeout_config 0) = 9"
  by (simp add: default_times_eq unat_real_as_u32)

theorem request_given_up_in_time_witness:
  "\<exists>failed rest. replicate 10 (Inl ''down'' :: string + unit) = map Inl failed @ Inl ''down'' # rest
    \<and> unat (0 :: u64) \<le> sum (\<lambda>k. min (2 ^ k) 600) {..<length failed} + 88
    \<and> sum (\<lambda>k. min (2 ^ k) 600) {..<length failed} \<le> unat (0 :: u64) + (511 :: nat)"
proof -
  have "default_retry 0 (replicate 10 (Inl ''down'' :: string + unit)) = Some (Inl ''down'')"
    unfolding default_retry_def demo_times by (simp add: numeral_eq_Suc)
  from request_given_up_in_time [OF _ _ this, of "\<lambda>k. min (2 ^ k) 600"] show ?thesis
    by (simp add: doubling_delays_def)
qed

theorem receipt_error_not_retried_witness:
  "request_height 10 60 [Finished (Inl (Foreign ''refused'')), Finished (Inr 7)] = Some (Inr 7)"
  using receipt_error_not_retried [of 60 10 "Foreign ''refused''" "[] :: unit option timed list" 7] by simp

end
