(* ===== verification/Settings.thy ===== *)
theory Settings
  imports Eth_Subscriber Sol_Subscriber Rpc_Requests
begin

section \<open>Settings\<close>

text \<open>
  \<open>src/config\<close>: the settings as read from the file, with the defaults of the fields that may be left
  out, the node configuration built from them, the options of the persistent database
  (\<open>src/storage/mod.rs\<close>) and the file with the state of the address verification. Reading YAML or JSON
  into fields is third-party: a \<open>*_file\<close> record holds a value for each field, optional where the code gives
  a default. Options of the node that the relay only passes on are of the arbitrary type \<open>'o\<close>.
\<close>

definition const_u64 :: "u64 \<Rightarrow> u64" where
  "const_u64 n = n"

definition const_usize :: "usize \<Rightarrow> usize" where
  "const_usize n = n"

text \<open>\<open>serde(default = ...)\<close>: the value of the file, or the default.\<close>

abbreviation or_default :: "'a option \<Rightarrow> 'a \<Rightarrow> 'a" where
  "or_default v d \<equiv> case v of None \<Rightarrow> d | Some x \<Rightarrow> x"

subsection \<open>Networks\<close>

record evm_network_file =
  evf_chain_id :: u32
  evf_endpoint :: string
  evf_get_timeout_sec :: "u64 option"
  evf_blocks_processing_timeout_sec :: "u64 option"
  evf_pool_size :: "usize option"
  evf_poll_interval_sec :: "u64 option"
  evf_max_block_range :: "u64 option option"
  evf_maximum_failed_responses_time_sec :: "u64 option"

record evm_network =
  evm_chain_id :: u32
  evm_endpoint :: string
  evm_get_timeout_sec :: u64
  evm_blocks_processing_timeout_sec :: u64
  evm_pool_size :: usize
  evm_poll_interval_sec :: u64
  evm_max_block_range :: "u64 option"
  evm_maximum_failed_responses_time_sec :: u64

definition evm_network_of :: "evm_network_file \<Rightarrow> evm_network" where
  "evm_network_of f = \<lparr>evm_chain_id = evf_chain_id f, evm_endpoint = evf_endpoint f,
     evm_get_timeout_sec = or_default (evf_get_timeout_sec f) (const_u64 10),
     evm_blocks_processing_timeout_sec = or_default (evf_blocks_processing_timeout_sec f) (const_u64 120),
     evm_pool_size = or_default (evf_pool_size f) (const_usize 10),
     evm_poll_interval_sec = or_default (evf_poll_interval_sec f) (const_u64 60),
     evm_max_block_range = or_default (evf_max_block_range f) None,
     evm_maximum_failed_responses_time_sec = or_default (evf_maximum_failed_responses_time_sec f) (const_u64 604800)\<rparr>"

record sol_network_file =
  snf_endpoints :: "string list"
  snf_connection_timeout_sec :: "u64 option"
  snf_pool_size :: "usize option"
  snf_poll_interval_sec :: "u64 option"
  snf_maximum_failed_responses_time_sec :: "u64 option"
  snf_poll_proposals_interval_sec :: "u64 option"
  snf_poll_deposits_timeout_sec :: "u64 option"
  snf_poll_deposits_interval_sec :: "u64 option"
  snf_poll_signature_status_interval_sec :: "u64 option"

record sol_network =
  sn_endpoints :: "string list"
  sn_connection_timeout_sec :: u64
  sn_pool_size :: usize
  sn_poll_interval_sec :: u64
  sn_maximum_failed_responses_time_sec :: u64
  sn_poll_proposals_interval_sec :: u64
  sn_poll_deposits_timeout_sec :: u64
  sn_poll_deposits_interval_sec :: u64
  sn_poll_signature_status_interval_sec :: u64

definition sol_network_of :: "sol_network_file \<Rightarrow> sol_network" where
  "sol_network_of f = \<lparr>sn_endpoints = snf_endpoints f,
     sn_connection_timeout_sec = or_default (snf_connection_timeout_sec f) (const_u64 60),
     sn_pool_size = or_default (snf_pool_size f) (const_usize 10),
     sn_poll_interval_sec = or_default (snf_poll_interval_sec f) (const_u64 30),
     sn_maximum_failed_responses_time_sec = or_default (snf_maximum_failed_responses_time_sec f) (const_u64 604800),
     sn_poll_proposals_interval_sec = or_default (snf_poll_proposals_interval_sec f) (const_u64 3600),
     sn_poll_deposits_timeout_sec = or_default (snf_poll_deposits_timeout_sec f) (const_u64 120),
     sn_poll_deposits_interval_sec = or_default (snf_poll_deposits_interval_sec f) (const_u64 5),
     sn_poll_signature_status_interval_sec = or_default (snf_poll_signature_status_interval_sec f) (const_u64 5)\<rparr>"

text \<open>What the subscribers keep of their settings.\<close>

definition eth_config_of :: "evm_network \<Rightarrow> eth_config" where
  "eth_config_of n = \<lparr>max_block_range = evm_max_block_range n\<rparr>"

definition sol_config_of :: "sol_network \<Rightarrow> sol_config" where
  "sol_config_of n = \<lparr>endpoints = sn_endpoints n, poll_proposals_interval_sec = sn_poll_proposals_interval_sec n,
     poll_deposits_timeout_sec = sn_poll_deposits_timeout_sec n,
     sol_retry_times = unat (generate_sol_rpc_backoff_config (sn_maximum_failed_responses_time_sec n))\<rparr>"

subsection \<open>The persistent database\<close>

record db_options =
  max_memory_usage :: usize
  min_caches_capacity :: usize
  min_compaction_memory_budget :: usize

definition db_options_default :: db_options where
  "db_options_default = \<lparr>max_memory_usage = push_bit 30 2, min_caches_capacity = push_bit 20 64,
     min_compaction_memory_budget = push_bit 30 1\<rparr>"

text \<open>Of the options each single field may be left out.\<close>

record db_options_file =
  dof_max_memory_usage :: "usize option"
  dof_min_caches_capacity :: "usize option"
  dof_min_compaction_memory_budget :: "usize option"

definition db_options_of :: "db_options_file \<Rightarrow> db_options" where
  "db_options_of f = \<lparr>max_memory_usage = or_default (dof_max_memory_usage f) (max_memory_usage db_options_default),
     min_caches_capacity = or_default (dof_min_caches_capacity f) (min_caches_capacity db_options_default),
     min_compaction_memory_budget =
       or_default (dof_min_compaction_memory_budget f) (min_compaction_memory_budget db_options_default)\<rparr>"

record persistent_storage_file =
  psf_persistent_db_path :: string
  psf_persistent_db_options :: "db_options_file option"
  psf_shard_split_depth :: "u8 option"

record persistent_storage_config =
  persistent_db_path :: string
  persistent_db_options :: db_options
  storage_split_depth :: u8

definition persistent_storage_config_of :: "persistent_storage_file \<Rightarrow> persistent_storage_config" where
  "persistent_storage_config_of f = \<lparr>persistent_db_path = psf_persistent_db_path f,
     persistent_db_options = (case psf_persistent_db_options f of None \<Rightarrow> db_options_default | Some opts \<Rightarrow> db_options_of opts),
     storage_split_depth = or_default (psf_shard_split_depth f) 0\<rparr>"

record open_options =
  caches_capacity :: usize
  compaction_memory_budget :: usize
  max_open_files :: i32
  max_background_jobs :: i32
  parallelism :: i32

text \<open>
  \<open>PersistentStorage::new\<close> up to the call that opens the database: \<open>fd_limit\<close> is the raised limit on open
  files if there is one, else the current soft limit is asked for, 256 if that fails.
\<close>

definition fd_limit :: "u64 option \<Rightarrow> u64 res \<Rightarrow> u64" where
  "fd_limit raised current = (case raised of Some limit \<Rightarrow> limit | None \<Rightarrow> (case current of Inr limit \<Rightarrow> limit | Inl e \<Rightarrow> 256))"

definition storage_open_options :: "u64 \<Rightarrow> i32 \<Rightarrow> db_options \<Rightarrow> open_options" where
  "storage_open_options limit cpus opts =
     \<lparr>caches_capacity = max (max_memory_usage opts div 3) (min_caches_capacity opts),
      compaction_memory_budget = max (max_memory_usage opts - max_memory_usage opts div 3) (min_compaction_memory_budget opts),
      max_open_files = ucast limit,
      max_background_jobs = (if sint (cpus div 2) < 2 then 2 else cpus div 2),
      parallelism = cpus\<rparr>"

subsection \<open>The node\<close>

record 'o node_options =
  no_db_options :: 'o
  no_shard_state_cache_options :: "'o option"
  no_adnl_options :: 'o
  no_rldp_options :: 'o
  no_dht_options :: 'o
  no_overlay_shard_options :: 'o
  no_neighbours_options :: 'o

record 'o node_config =
  adnl_public_ip :: "u32 option"
  adnl_port :: u16
  db_path :: string
  temp_keys_path :: string
  parallel_archive_downloads :: usize
  states_gc_enabled :: bool
  blocks_gc_enabled :: bool
  node_options :: "'o node_options"

definition node_config_default :: "'o \<Rightarrow> 'o node_config" where
  "node_config_default default_options = \<lparr>adnl_public_ip = None, adnl_port = 30303, db_path = ''db'',
     temp_keys_path = ''adnl-keys.json'', parallel_archive_downloads = 16, states_gc_enabled = True,
     blocks_gc_enabled = True,
     node_options = \<lparr>no_db_options = default_options, no_shard_state_cache_options = Some default_options,
       no_adnl_options = default_options, no_rldp_options = default_options, no_dht_options = default_options,
       no_overlay_shard_options = default_options, no_neighbours_options = default_options\<rparr>\<rparr>"

record 'o node_config_file =
  ncf_adnl_public_ip :: "u32 option option"
  ncf_adnl_port :: "u16 option"
  ncf_db_path :: "string option"
  ncf_temp_keys_path :: "string option"
  ncf_parallel_archive_downloads :: "usize option"
  ncf_states_gc_enabled :: "bool option"
  ncf_blocks_gc_enabled :: "bool option"
  ncf_db_options :: "'o option"
  ncf_shard_state_cache_options :: "'o option option"
  ncf_adnl_options :: "'o option"
  ncf_rldp_options :: "'o option"
  ncf_dht_options :: "'o option"
  ncf_overlay_shard_options :: "'o option"
  ncf_neighbours_options :: "'o option"

definition node_config_of :: "'o \<Rightarrow> 'o node_config_file \<Rightarrow> 'o node_config" where
  "node_config_of default_options f =
     (let d = node_config_default default_options
      in \<lparr>adnl_public_ip = or_default (ncf_adnl_public_ip f) (adnl_public_ip d),
          adnl_port = or_default (ncf_adnl_port f) (adnl_port d),
          db_path = or_default (ncf_db_path f) (db_path d),
          temp_keys_path = or_default (ncf_temp_keys_path f) (temp_keys_path d),
          parallel_archive_downloads = or_default (ncf_parallel_archive_downloads f) (parallel_archive_downloads d),
          states_gc_enabled = or_default (ncf_states_gc_enabled f) (states_gc_enabled d),
          blocks_gc_enabled = or_default (ncf_blocks_gc_enabled f) (blocks_gc_enabled d),
          node_options = \<lparr>no_db_options = or_default (ncf_db_options f) (no_db_options (node_options d)),
            no_shard_state_cache_options =
              or_default (ncf_shard_state_cache_options f) (no_shard_state_cache_options (node_options d)),
            no_adnl_options = or_default (ncf_adnl_options f) (no_adnl_options (node_options d)),
            no_rldp_options = or_default (ncf_rldp_options f) (no_rldp_options (node_options d)),
            no_dht_options = or_default (ncf_dht_options f) (no_dht_options (node_options d)),
            no_overlay_shard_options = or_default (ncf_overlay_shard_options f) (no_overlay_shard_options (node_options d)),
            no_neighbours_options = or_default (ncf_neighbours_options f) (no_neighbours_options (node_options d))\<rparr>\<rparr>)"

record state_gc_options =
  offset_sec :: u64
  interval_sec :: u64

datatype blocks_gc_kind = BeforePreviousKeyBlock | BeforePreviousPersistentState

record blocks_gc_options =
  gc_kind :: blocks_gc_kind
  enable_for_sync :: bool

record 'o indexer_config =
  ic_ip_address :: "u32 \<times> u16"
  ic_adnl_keys :: bytes
  ic_rocks_db_path :: string
  ic_file_db_path :: string
  ic_state_gc_options :: "state_gc_options option"
  ic_blocks_gc_options :: "blocks_gc_options option"
  ic_shard_state_cache_options :: "'o option"
  ic_db_options :: 'o
  ic_parallel_archive_downloads :: usize
  ic_adnl_options :: 'o
  ic_rldp_options :: 'o
  ic_dht_options :: 'o
  ic_neighbours_options :: 'o
  ic_overlay_shard_options :: 'o

text \<open>
  What the host provides: its address, the keys file, the directory, a random offset below an hour;
  \<open>force_compression\<close> sets the field of that name in the options of a third-party type.
\<close>

record 'o node_host =
  resolve_public_ip :: "u32 option \<Rightarrow> u32 res"
  load_node_keys :: "string \<Rightarrow> bytes res"
  create_dir_all :: "string \<Rightarrow> unit res"
  gen_range_3600 :: u64
  join_path :: "string \<Rightarrow> string \<Rightarrow> string"
  force_compression :: "'o \<Rightarrow> 'o"

definition build_indexer_config :: "'o node_host \<Rightarrow> 'o node_config \<Rightarrow> 'o indexer_config res" where
  "build_indexer_config host c =
     rbind (resolve_public_ip host (adnl_public_ip c)) (\<lambda>ip_address.
     rbind (with_context ''Failed to load temp keys'' (load_node_keys host (temp_keys_path c))) (\<lambda>adnl_keys.
     rbind (create_dir_all host (db_path c)) (\<lambda>_.
       Inr \<lparr>ic_ip_address = (ip_address, adnl_port c), ic_adnl_keys = adnl_keys,
         ic_rocks_db_path = join_path host (db_path c) ''rocksdb'',
         ic_file_db_path = join_path host (db_path c) ''files'',
         ic_state_gc_options = (if states_gc_enabled c
           then Some \<lparr>offset_sec = gen_range_3600 host, interval_sec = 3600\<rparr> else None),
         ic_blocks_gc_options = (if blocks_gc_enabled c
           then Some \<lparr>gc_kind = BeforePreviousKeyBlock, enable_for_sync = True\<rparr> else None),
         ic_shard_state_cache_options = None,
         ic_db_options = no_db_options (node_options c),
         ic_parallel_archive_downloads = parallel_archive_downloads c,
         ic_adnl_options = no_adnl_options (node_options c),
         ic_rldp_options = force_compression host (no_rldp_options (node_options c)),
         ic_dht_options = no_dht_options (node_options c),
         ic_neighbours_options = no_neighbours_options (node_options c),
         ic_overlay_shard_options = force_compression host (no_overlay_shard_options (node_options c))\<rparr>)))"

subsection \<open>The whole\<close>

definition address_verification_default :: address_verification_config where
  "address_verification_default = \<lparr>min_balance_gwei = 50000000, gas_price_gwei = 300\<rparr>"

definition verification_state_path_default :: string where
  "verification_state_path_default = ''verification-state.json''"

record address_verification_file =
  avf_min_balance_gwei :: "u64 option"
  avf_gas_price_gwei :: "u64 option"
  avf_state_path :: "string option"

definition address_verification_of :: "address_verification_file option \<Rightarrow> address_verification_config \<times> string" where
  "address_verification_of f =
     (case f of
        None \<Rightarrow> (address_verification_default, verification_state_path_default)
      | Some f \<Rightarrow>
          (\<lparr>min_balance_gwei = or_default (avf_min_balance_gwei f) (min_balance_gwei address_verification_default),
            gas_price_gwei = or_default (avf_gas_price_gwei f) (gas_price_gwei address_verification_default)\<rparr>,
           or_default (avf_state_path f) verification_state_path_default))"

record bridge_settings_file =
  bsf_keys_path :: string
  bsf_bridge_address :: msg_address
  bsf_ignore_elections :: "bool option"
  bsf_evm_networks :: "evm_network_file list"
  bsf_sol_network :: "sol_network_file option option"
  bsf_address_verification :: "address_verification_file option"
  bsf_shard_split_depth :: "u8 option"
  bsf_token_meta_base_url :: string
  bsf_jrpc_endpoints :: "string list"

record bridge_settings =
  bs_keys_path :: string
  bs_bridge_address :: msg_address
  bs_ignore_elections :: bool
  bs_evm_networks :: "evm_network list"
  bs_sol_network :: "sol_network option"
  bs_address_verification :: address_verification_config
  bs_verification_state_path :: string
  bs_shard_split_depth :: u8
  bs_token_meta_base_url :: string
  bs_jrpc_endpoints :: "string list"

definition bridge_settings_of :: "bridge_settings_file \<Rightarrow> bridge_settings" where
  "bridge_settings_of f = \<lparr>bs_keys_path = bsf_keys_path f, bs_bridge_address = bsf_bridge_address f,
     bs_ignore_elections = or_default (bsf_ignore_elections f) False,
     bs_evm_networks = map evm_network_of (bsf_evm_networks f),
     bs_sol_network = map_option sol_network_of (or_default (bsf_sol_network f) None),
     bs_address_verification = fst (address_verification_of (bsf_address_verification f)),
     bs_verification_state_path = snd (address_verification_of (bsf_address_verification f)),
     bs_shard_split_depth = or_default (bsf_shard_split_depth f) 0,
     bs_token_meta_base_url = bsf_token_meta_base_url f,
     bs_jrpc_endpoints = bsf_jrpc_endpoints f\<rparr>"

record ('o, 'm) app_config =
  master_password :: string
  staker_address :: msg_address
  bridge_settings :: bridge_settings
  node_settings :: "'o node_config"
  storage_config :: persistent_storage_config
  metrics_settings :: "'m option"

record ('o, 'm) app_config_file =
  acf_master_password :: string
  acf_staker_address :: msg_address
  acf_bridge_settings :: bridge_settings_file
  acf_node_settings :: "'o node_config_file option"
  acf_storage :: persistent_storage_file
  acf_metrics_settings :: "'m option option"

definition app_config_of :: "'o \<Rightarrow> ('o, 'm) app_config_file \<Rightarrow> ('o, 'm) app_config" where
  "app_config_of default_options f = \<lparr>master_password = acf_master_password f, staker_address = acf_staker_address f,
     bridge_settings = bridge_settings_of (acf_bridge_settings f),
     node_settings = (case acf_node_settings f of
        None \<Rightarrow> node_config_default default_options | Some n \<Rightarrow> node_config_of default_options n),
     storage_config = persistent_storage_config_of (acf_storage f),
     metrics_settings = or_default (acf_metrics_settings f) None\<rparr>"

text \<open>The commands that need only the password read \<open>BriefAppConfig\<close> from the same file.\<close>

definition brief_app_config_of :: "string option option \<Rightarrow> string option" where
  "brief_app_config_of f = or_default f None"

subsection \<open>The file of the address verification\<close>

text \<open>
  \<open>save\<close> opens the file without truncating it: what is written replaces the beginning. \<open>to_json\<close> and
  \<open>from_json\<close> are the third-party serialisation of the state.
\<close>

definition overwrite :: "string \<Rightarrow> string \<Rightarrow> string" where
  "overwrite written old = written @ drop (length written) old"

definition save_verification_state ::
  "(address_verification_state \<Rightarrow> string) \<Rightarrow> unit res \<Rightarrow> address_verification_state \<Rightarrow> string option \<Rightarrow> string option \<times> unit res"
where
  "save_verification_state to_json opened st file =
     (case opened of
        Inl e \<Rightarrow> (file, Inl e)
      | Inr _ \<Rightarrow> (Some (overwrite (to_json st) (or_default file '''')), Inr ()))"

definition try_load_verification_state ::
  "(string \<Rightarrow> address_verification_state res) \<Rightarrow> string option \<Rightarrow> address_verification_state option res"
where
  "try_load_verification_state from_json file =
     (case file of
        Some text \<Rightarrow> rbind (from_json text) (\<lambda>st. Inr (Some st))
      | None \<Rightarrow> Inr None)"

subsection \<open>Properties\<close>

text \<open>
  The state of the address verification survives a restart: what was saved is what is loaded, also
  over the file of an earlier attempt, although the file is not truncated, because all states have texts of the
  same length.
\<close>

theorem saved_state_is_loaded:
  assumes "\<And>s. length (av_transaction_hash s) = 32 \<Longrightarrow> length (av_address s) = 20 \<Longrightarrow>
      from_json (to_json s) = Inr s \<and> length (to_json s) = n"
    and "length (av_transaction_hash st) = 32" "length (av_address st) = 20"
    and "file = None \<or> (\<exists>earlier. file = Some (to_json earlier) \<and>
      length (av_transaction_hash earlier) = 32 \<and> length (av_address earlier) = 20)"
  shows "try_load_verification_state from_json (fst (save_verification_state to_json (Inr ()) st file)) = Inr (Some st)"
  using assms(1) [OF assms(2,3)] assms(1) assms(4)
  by (auto simp: try_load_verification_state_def save_verification_state_def overwrite_def split: option.split)

text \<open>
  The setting for the cache of shard states never reaches the node: whatever it is, the node runs
  with the same configuration, without that cache.
\<close>

theorem shard_state_cache_never_used:
  "build_indexer_config host (c\<lparr>node_options := (node_options c)\<lparr>no_shard_state_cache_options := x\<rparr>\<rparr>)
     = build_indexer_config host c
   \<and> (case build_indexer_config host (node_config_default d) of Inl _ \<Rightarrow> True
        | Inr ic \<Rightarrow> no_shard_state_cache_options (node_options (node_config_default d)) = Some d
            \<and> ic_shard_state_cache_options ic = None)"
  by (auto simp: build_indexer_config_def node_config_default_def res_simps split: sum.split)

lemma memory_split_default:
  "let opts = storage_open_options limit cpus db_options_default in
   unat (caches_capacity opts) + unat (compaction_memory_budget opts) = 2 ^ 31"
  by (simp add: storage_open_options_def db_options_default_def Let_def max_def word_le_nat_alt)

definition demo_to_json :: "address_verification_state \<Rightarrow> string" where
  "demo_to_json st = map (\<lambda>b. char_of (unat b)) (av_transaction_hash st @ av_address st)"

definition demo_from_json :: "string \<Rightarrow> address_verification_state res" where
  "demo_from_json text =
     (if length text = 52
      then Inr \<lparr>av_transaction_hash = map of_char (take 32 text), av_address = map of_char (drop 32 text)\<rparr>
      else Inl (Foreign ''trailing characters''))"

lemma demo_json:
  assumes "length (av_transaction_hash s) = 32" "length (av_address s) = 20"
  shows "demo_from_json (demo_to_json s) = Inr s \<and> length (demo_to_json s) = 52"
proof -
  have "(of_char (char_of (unat b)) :: u8) = b" for b :: u8
  proof -
    have "unat b < 2 ^ 8" using unsigned_less [of b] by simp
    then have "(of_char (char_of (unat b)) :: nat) = unat b" by (simp add: take_bit_nat_eq_self)
    then have "(of_nat (of_char (char_of (unat b)) :: nat) :: u8) = b" by simp
    then show ?thesis by (simp only: of_nat_of_char)
  qed
  then have "map ((of_char :: char \<Rightarrow> u8) \<circ> (\<lambda>b. char_of (unat b))) xs = xs" for xs :: bytes
    by (simp add: map_idI)
  with assms show ?thesis by (simp add: demo_to_json_def demo_from_json_def)
qed

theorem saved_state_is_loaded_witness:
  "try_load_verification_state demo_from_json
     (fst (save_verification_state demo_to_json (Inr ()) \<lparr>av_transaction_hash = replicate 32 1, av_address = replicate 20 2\<rparr>
       (Some (demo_to_json \<lparr>av_transaction_hash = replicate 32 3, av_address = replicate 20 4\<rparr>))))
   = Inr (Some \<lparr>av_transaction_hash = replicate 32 1, av_address = replicate 20 2\<rparr>)"
proof (rule saved_state_is_loaded [where n = 52])
  show "Some (demo_to_json \<lparr>av_transaction_hash = replicate 32 3, av_address = replicate 20 4\<rparr>) = None
    \<or> (\<exists>earlier. Some (demo_to_json \<lparr>av_transaction_hash = replicate 32 3, av_address = replicate 20 4\<rparr>) = Some (demo_to_json earlier)
        \<and> length (av_transaction_hash earlier) = 32 \<and> length (av_address earlier) = 20)"
    by (intro disjI2 exI [of _ "\<lparr>av_transaction_hash = replicate 32 3, av_address = replicate 20 4\<rparr>"]) simp
qed (simp_all add: demo_json)

end
