(* ===== verification/Stored_Keys.thy ===== *)
theory Stored_Keys
  imports Prelude
begin

section \<open>Keys\<close>

text \<open>
  The encrypted keys of \<open>src/config/stored_keys.rs\<close>, what \<open>KeyStore::new\<close> of
  \<open>src/engine/keystore/mod.rs\<close> makes of them, the address of \<open>src/utils/eth_address.rs\<close> and the commands
  \<open>generate\<close> and \<open>export\<close> of \<open>src/main.rs\<close>. Cryptography is third-party: the fields of \<open>key_env\<close>. A
  \<open>str\<close> is the list of its UTF-8 bytes, as characters. Random values and what the user types are arguments.
\<close>

record key_env =
  symmetric_key_from_password :: "string \<Rightarrow> bytes \<Rightarrow> bytes"
  aead_encrypt :: "bytes \<Rightarrow> bytes \<Rightarrow> bytes \<Rightarrow> bytes res" \<comment> \<open>key, nonce, data\<close>
  decrypt_secure_str :: "bytes \<Rightarrow> bytes \<Rightarrow> bytes \<Rightarrow> string res"
  seed_from_phrase :: "string \<Rightarrow> bytes res" \<comment> \<open>bip39\<close>
  bip32_derive :: "bytes \<Rightarrow> string \<Rightarrow> bytes option"
  secp256k1_secret :: "bytes \<Rightarrow> bytes res"
  secp256k1_public :: "bytes \<Rightarrow> bytes" \<comment> \<open>uncompressed\<close>
  ed25519_secret :: "bytes \<Rightarrow> bytes res"
  ed25519_public :: "bytes \<Rightarrow> bytes"
  solana_keypair :: "bytes \<Rightarrow> bytes res" \<comment> \<open>its public key\<close>
  key_keccak256 :: "bytes \<Rightarrow> bytes"
  hex_encode :: "bytes \<Rightarrow> string"

definition as_bytes :: "string \<Rightarrow> bytes" where
  "as_bytes s = map of_char s"

subsection \<open>Phrases and what is derived from them\<close>

definition derive_secret_from_phrase :: "key_env \<Rightarrow> string \<Rightarrow> string \<Rightarrow> bytes res" where
  "derive_secret_from_phrase env phrase path =
     rbind (seed_from_phrase env phrase) (\<lambda>seed_bytes.
       ok_or (Foreign ''Failed to derive key from mnemonic'') (bip32_derive env seed_bytes path))"

definition compute_eth_address :: "key_env \<Rightarrow> bytes \<Rightarrow> eth_address" where
  "compute_eth_address env public_key = drop (32 - 20) (key_keccak256 env (drop 1 public_key))"

definition eth_address_string :: "key_env \<Rightarrow> eth_address \<Rightarrow> string" where
  "eth_address_string env address = ''0x'' @ hex_encode env address"

text \<open>A phrase with the address or public key derived from it.\<close>

record unencrypted_data =
  key_phrase :: string
  key_path :: string
  key_derived :: bytes

definition eth_from_phrase :: "key_env \<Rightarrow> string \<Rightarrow> string \<Rightarrow> unencrypted_data res" where
  "eth_from_phrase env phrase path =
     rbind (derive_secret_from_phrase env phrase path) (\<lambda>secret.
     rbind (secp256k1_secret env secret) (\<lambda>secret_key.
       Inr \<lparr>key_phrase = phrase, key_path = path,
         key_derived = compute_eth_address env (secp256k1_public env secret_key)\<rparr>))"

definition ton_from_phrase :: "key_env \<Rightarrow> string \<Rightarrow> string \<Rightarrow> unencrypted_data res" where
  "ton_from_phrase env phrase path =
     rbind (derive_secret_from_phrase env phrase path) (\<lambda>secret.
     rbind (ed25519_secret env secret) (\<lambda>secret_key.
       Inr \<lparr>key_phrase = phrase, key_path = path, key_derived = ed25519_public env secret_key\<rparr>))"

definition ETH_DEFAULT_PATH :: string where
  "ETH_DEFAULT_PATH = ''m/44'' @ [CHR 0x27] @ ''/60'' @ [CHR 0x27] @ ''/0'' @ [CHR 0x27] @ ''/0/0''"

definition TON_DEFAULT_PATH :: string where
  "TON_DEFAULT_PATH = ''m/44'' @ [CHR 0x27] @ ''/396'' @ [CHR 0x27] @ ''/0'' @ [CHR 0x27] @ ''/0/0''"

text \<open>\<open>generate\<close>, for a fresh mnemonic of twelve words.\<close>

definition eth_generate :: "key_env \<Rightarrow> string \<Rightarrow> unencrypted_data res" where
  "eth_generate env mnemonic = eth_from_phrase env mnemonic ETH_DEFAULT_PATH"

definition ton_generate :: "key_env \<Rightarrow> string \<Rightarrow> unencrypted_data res" where
  "ton_generate env mnemonic = ton_from_phrase env mnemonic TON_DEFAULT_PATH"

definition eth_as_printable :: "key_env \<Rightarrow> unencrypted_data \<Rightarrow> (string \<times> string) list" where
  "eth_as_printable env d = [(''phrase'', key_phrase d), (''path'', key_path d),
     (''address'', eth_address_string env (key_derived d))]"

definition ton_as_printable :: "key_env \<Rightarrow> unencrypted_data \<Rightarrow> (string \<times> string) list" where
  "ton_as_printable env d = [(''phrase'', key_phrase d), (''path'', key_path d),
     (''public_key'', hex_encode env (key_derived d))]"

subsection \<open>Encrypted parts\<close>

record stored_keys_part =
  encrypted_seed_phrase :: bytes
  encrypted_derivation_path :: bytes
  part_nonce :: bytes

definition encrypt_part :: "key_env \<Rightarrow> bytes \<Rightarrow> bytes \<Rightarrow> unencrypted_data \<Rightarrow> stored_keys_part res" where
  "encrypt_part env key nonce d =
     rbind (aead_encrypt env key nonce (as_bytes (key_phrase d))) (\<lambda>seed_phrase.
     rbind (aead_encrypt env key nonce (as_bytes (key_path d))) (\<lambda>derivation_path.
       Inr \<lparr>encrypted_seed_phrase = seed_phrase, encrypted_derivation_path = derivation_path, part_nonce = nonce\<rparr>))"

definition decrypt_part ::
  "key_env \<Rightarrow> (string \<Rightarrow> string \<Rightarrow> unencrypted_data res) \<Rightarrow> bytes \<Rightarrow> stored_keys_part \<Rightarrow> unencrypted_data res"
where
  "decrypt_part env from_phrase key part =
     rbind (decrypt_secure_str env key (part_nonce part) (encrypted_seed_phrase part)) (\<lambda>phrase.
     rbind (decrypt_secure_str env key (part_nonce part) (encrypted_derivation_path part)) (\<lambda>path.
       from_phrase phrase path))"

definition decrypt_secret_key :: "key_env \<Rightarrow> bytes \<Rightarrow> stored_keys_part \<Rightarrow> bytes res" where
  "decrypt_secret_key env key part =
     rbind (decrypt_secure_str env key (part_nonce part) (encrypted_seed_phrase part)) (\<lambda>phrase.
     rbind (decrypt_secure_str env key (part_nonce part) (encrypted_derivation_path part)) (\<lambda>path.
       derive_secret_from_phrase env phrase path))"

subsection \<open>The key file\<close>

record stored_keys_data =
  stored_salt :: bytes
  stored_eth :: stored_keys_part
  stored_ton :: stored_keys_part

text \<open>The salt of 20 and the nonces of 12 random bytes.\<close>

record key_randomness =
  rng_salt :: bytes
  rng_eth_nonce :: bytes
  rng_ton_nonce :: bytes

definition stored_keys_new ::
  "key_env \<Rightarrow> key_randomness \<Rightarrow> string \<Rightarrow> unencrypted_data \<Rightarrow> unencrypted_data \<Rightarrow> stored_keys_data res"
where
  "stored_keys_new env rng password eth ton =
     (let key = symmetric_key_from_password env password (rng_salt rng)
      in rbind (encrypt_part env key (rng_eth_nonce rng) eth) (\<lambda>eth.
         rbind (encrypt_part env key (rng_ton_nonce rng) ton) (\<lambda>ton.
           Inr \<lparr>stored_salt = rng_salt rng, stored_eth = eth, stored_ton = ton\<rparr>)))"

definition stored_keys_decrypt ::
  "key_env \<Rightarrow> string \<Rightarrow> stored_keys_data \<Rightarrow> (unencrypted_data \<times> unencrypted_data) res"
where
  "stored_keys_decrypt env password data =
     (let key = symmetric_key_from_password env password (stored_salt data)
      in rbind (decrypt_part env (eth_from_phrase env) key (stored_eth data)) (\<lambda>eth.
         rbind (decrypt_part env (ton_from_phrase env) key (stored_ton data)) (\<lambda>ton. Inr (eth, ton))))"

definition decrypt_only_keys :: "key_env \<Rightarrow> string \<Rightarrow> stored_keys_data \<Rightarrow> (bytes \<times> bytes) res" where
  "decrypt_only_keys env password data =
     (let key = symmetric_key_from_password env password (stored_salt data)
      in rbind (decrypt_secret_key env key (stored_eth data)) (\<lambda>eth.
         rbind (decrypt_secret_key env key (stored_ton data)) (\<lambda>ton. Inr (eth, ton))))"

subsection \<open>\<open>KeyStore::new\<close>\<close>

record keystore =
  ks_eth_secret_key :: bytes
  ks_eth_address :: eth_address
  ks_ton_secret_key :: bytes
  ks_ton_public_key :: uint256
  ks_sol_public_key :: uint256

text \<open>
  The file: \<open>None\<close> when it does not exist, otherwise what loading it gives. Besides the result, what is
  written: new keys are saved (\<open>saved\<close> is the result of writing) before they are used.
\<close>

definition open_keys ::
  "key_env \<Rightarrow> key_randomness \<Rightarrow> string \<times> string \<Rightarrow> stored_keys_data res option \<Rightarrow> unit res \<Rightarrow> string \<Rightarrow>
     stored_keys_data option \<times> stored_keys_data res"
where
  "open_keys env rng mnemonics file saved password =
     (case file of
        Some loaded \<Rightarrow> (None, loaded)
      | None \<Rightarrow>
          (case rbind (eth_generate env (fst mnemonics)) (\<lambda>eth.
                rbind (ton_generate env (snd mnemonics)) (\<lambda>ton. stored_keys_new env rng password eth ton)) of
             Inl e \<Rightarrow> (None, Inl e)
           | Inr data \<Rightarrow> (Some data, rbind saved (\<lambda>_. Inr data))))"

definition keystore_of :: "key_env \<Rightarrow> bytes \<times> bytes \<Rightarrow> keystore res" where
  "keystore_of env secrets =
     rbind (secp256k1_secret env (fst secrets)) (\<lambda>eth_secret_key.
     rbind (ed25519_secret env (snd secrets)) (\<lambda>secret.
     rbind (solana_keypair env secret) (\<lambda>sol_public.
       Inr \<lparr>ks_eth_secret_key = eth_secret_key,
         ks_eth_address = compute_eth_address env (secp256k1_public env eth_secret_key),
         ks_ton_secret_key = secret, ks_ton_public_key = ed25519_public env secret,
         ks_sol_public_key = sol_public\<rparr>)))"

definition keystore_new ::
  "key_env \<Rightarrow> key_randomness \<Rightarrow> string \<times> string \<Rightarrow> stored_keys_data res option \<Rightarrow> unit res \<Rightarrow> string \<Rightarrow>
     stored_keys_data option \<times> keystore res"
where
  "keystore_new env rng mnemonics file saved password =
     (case open_keys env rng mnemonics file saved password of
        (written, opened) \<Rightarrow>
          (written, rbind opened (\<lambda>data. rbind (decrypt_only_keys env password data) (keystore_of env))))"

subsection \<open>Commands\<close>

text \<open>The configured password unless it is missing or empty; otherwise the user is asked.\<close>

definition ask_password :: "string option \<Rightarrow> string res \<Rightarrow> string res" where
  "ask_password master_password typed =
     (case master_password of Some password \<Rightarrow> if password \<noteq> '''' then Inr password else typed | None \<Rightarrow> typed)"

definition command_password :: "bool \<Rightarrow> string option \<Rightarrow> string res \<Rightarrow> string res" where
  "command_password empty_password master_password typed =
     (if empty_password then Inr '''' else ask_password master_password typed)"

text \<open>
  \<open>CmdGenerate::execute\<close>: what is printed (TON, then ETH) and what is written. \<open>overwrite\<close> is \<open>None\<close> when
  there is no file, otherwise the user's answer; \<open>input\<close> gives the phrases and paths of an import.
\<close>

record generate_input =
  gen_overwrite :: "bool res option"
  gen_import :: "(string \<times> string \<times> string \<times> string) option" \<comment> \<open>TON phrase and path, ETH phrase and path\<close>
  gen_mnemonics :: "string \<times> string" \<comment> \<open>ETH, TON\<close>
  gen_rng :: key_randomness
  gen_typed_password :: "string res"
  gen_saved :: "unit res"

definition generate_data :: "key_env \<Rightarrow> generate_input \<Rightarrow> (unencrypted_data \<times> unencrypted_data) res" where
  "generate_data env input =
     (case gen_import input of
        Some (ton_phrase, ton_path, eth_phrase, eth_path) \<Rightarrow>
          rbind (ton_from_phrase env ton_phrase ton_path) (\<lambda>ton.
          rbind (eth_from_phrase env eth_phrase eth_path) (\<lambda>eth. Inr (eth, ton)))
      | None \<Rightarrow>
          rbind (eth_generate env (fst (gen_mnemonics input))) (\<lambda>eth.
          rbind (ton_generate env (snd (gen_mnemonics input))) (\<lambda>ton. Inr (eth, ton))))"

type_synonym printed = "(string \<times> string) list"

definition cmd_generate ::
  "key_env \<Rightarrow> bool \<Rightarrow> string option \<Rightarrow> generate_input \<Rightarrow> printed list \<times> stored_keys_data option \<times> unit res"
where
  "cmd_generate env empty_password master_password input =
     (case gen_overwrite input of
        Some (Inl e) \<Rightarrow> ([], None, Inl e)
      | Some (Inr False) \<Rightarrow> ([], None, Inr ())
      | _ \<Rightarrow>
          (case generate_data env input of
             Inl e \<Rightarrow> ([], None, Inl e)
           | Inr (eth, ton) \<Rightarrow>
               (let out = [ton_as_printable env ton, eth_as_printable env eth]
                in case command_password empty_password master_password (gen_typed_password input) of
                     Inl e \<Rightarrow> (out, None, Inl e)
                   | Inr password \<Rightarrow>
                       (case with_context ''Failed to generate encrypted keys data''
                               (stored_keys_new env (gen_rng input) password eth ton) of
                          Inl e \<Rightarrow> (out, None, Inl e)
                        | Inr data \<Rightarrow> (out, Some data, with_context ''Failed to save encrypted keys data'' (gen_saved input))))))"

definition cmd_export ::
  "key_env \<Rightarrow> bool \<Rightarrow> string option \<Rightarrow> string res \<Rightarrow> stored_keys_data res \<Rightarrow> (printed \<times> printed) res"
where
  "cmd_export env empty_password master_password typed loaded =
     rbind (with_context ''Failed to load encrypted keys data'' loaded) (\<lambda>data.
     rbind (command_password empty_password master_password typed) (\<lambda>password.
     rbind (with_context ''Failed to decrypt keys data'' (stored_keys_decrypt env password data)) (\<lambda>(eth, ton).
       Inr (eth_as_printable env eth, ton_as_printable env ton))))"

subsection \<open>Decrypting gives back what was encrypted\<close>

text \<open>The documented laws of the cipher: decryption inverts encryption, and ChaCha20 adds a key stream.\<close>

definition aead_ok :: "key_env \<Rightarrow> bool" where
  "aead_ok env \<longleftrightarrow> (\<forall>key nonce s c. aead_encrypt env key nonce (as_bytes s) = Inr c \<longrightarrow>
     decrypt_secure_str env key nonce c = Inr s)"

definition stream_cipher :: "key_env \<Rightarrow> (bytes \<Rightarrow> bytes \<Rightarrow> nat \<Rightarrow> u8) \<Rightarrow> (bytes \<Rightarrow> bytes \<Rightarrow> bytes \<Rightarrow> bytes) \<Rightarrow> bool" where
  "stream_cipher env key_stream tag \<longleftrightarrow> (\<forall>key nonce data. aead_encrypt env key nonce data =
     Inr (map2 (XOR) data (map (key_stream key nonce) [0..<length data]) @ tag key nonce data))"

lemma length_as_bytes [simp]: "length (as_bytes s) = length s"
  by (simp add: as_bytes_def)

text \<open>The trait \<open>FromPhraseAndPath\<close>: data that keeps the phrase and path it was made from.\<close>

locale from_phrase_and_path =
  fixes env :: key_env and from_phrase :: "string \<Rightarrow> string \<Rightarrow> unencrypted_data res"
  assumes keeps_phrase: "from_phrase phrase path = Inr d \<Longrightarrow> key_phrase d = phrase \<and> key_path d = path"
begin

lemma decrypt_encrypted:
  assumes "aead_ok env" "from_phrase phrase path = Inr d" "encrypt_part env key nonce d = Inr part"
  shows "decrypt_part env from_phrase key part = Inr d"
  using assms keeps_phrase [OF assms(2)]
  by (auto simp: encrypt_part_def decrypt_part_def aead_ok_def rbind_eq_Inr_iff)

lemma decrypt_encrypted_secret:
  assumes "aead_ok env" "from_phrase phrase path = Inr d" "encrypt_part env key nonce d = Inr part"
  shows "decrypt_secret_key env key part = derive_secret_from_phrase env phrase path"
  using assms keeps_phrase [OF assms(2)]
  by (auto simp: encrypt_part_def decrypt_secret_key_def aead_ok_def rbind_eq_Inr_iff)

end

interpretation eth_keys: from_phrase_and_path env "eth_from_phrase env" for env
  by unfold_locales (auto simp: eth_from_phrase_def rbind_eq_Inr_iff)

interpretation ton_keys: from_phrase_and_path env "ton_from_phrase env" for env
  by unfold_locales (auto simp: ton_from_phrase_def rbind_eq_Inr_iff)

text \<open>Data that was derived from phrases, the only way the code makes any.\<close>

lemma stored_keys_roundtrip:
  assumes "aead_ok env" "eth_from_phrase env p d = Inr eth" "ton_from_phrase env p' d' = Inr ton"
    "stored_keys_new env rng password eth ton = Inr data"
  shows "stored_keys_decrypt env password data = Inr (eth, ton)"
proof -
  let ?key = "symmetric_key_from_password env password (rng_salt rng)"
  obtain e t where parts: "encrypt_part env ?key (rng_eth_nonce rng) eth = Inr e"
      "encrypt_part env ?key (rng_ton_nonce rng) ton = Inr t"
    and data: "data = \<lparr>stored_salt = rng_salt rng, stored_eth = e, stored_ton = t\<rparr>"
    using assms(4) by (auto simp: stored_keys_new_def Let_def rbind_eq_Inr_iff)
  show ?thesis
    using eth_keys.decrypt_encrypted [OF assms(1,2) parts(1)] ton_keys.decrypt_encrypted [OF assms(1,3) parts(2)]
    by (simp add: stored_keys_decrypt_def data Let_def)
qed

lemma only_keys_roundtrip:
  assumes "aead_ok env" "eth_from_phrase env p d = Inr eth" "ton_from_phrase env p' d' = Inr ton"
    "stored_keys_new env rng password eth ton = Inr data"
  shows "decrypt_only_keys env password data =
    rbind (derive_secret_from_phrase env p d) (\<lambda>eth. rbind (derive_secret_from_phrase env p' d') (\<lambda>ton. Inr (eth, ton)))"
proof -
  let ?key = "symmetric_key_from_password env password (rng_salt rng)"
  obtain e t where parts: "encrypt_part env ?key (rng_eth_nonce rng) eth = Inr e"
      "encrypt_part env ?key (rng_ton_nonce rng) ton = Inr t"
    and data: "data = \<lparr>stored_salt = rng_salt rng, stored_eth = e, stored_ton = t\<rparr>"
    using assms(4) by (auto simp: stored_keys_new_def Let_def rbind_eq_Inr_iff)
  show ?thesis
    using eth_keys.decrypt_encrypted_secret [OF assms(1,2) parts(1)]
      ton_keys.decrypt_encrypted_secret [OF assms(1,3) parts(2)]
    by (simp add: decrypt_only_keys_def data Let_def)
qed

text \<open>The keys the relay signs with are those of the phrases.\<close>

lemma keystore_of_phrases:
  assumes "eth_from_phrase env p d = Inr eth" "ton_from_phrase env p' d' = Inr ton"
    "rbind (rbind (derive_secret_from_phrase env p d) (\<lambda>eth.
        rbind (derive_secret_from_phrase env p' d') (\<lambda>ton. Inr (eth, ton)))) (keystore_of env) = Inr ks"
  shows "ks_eth_address ks = key_derived eth \<and> ks_ton_public_key ks = key_derived ton"
  using assms by (auto simp: eth_from_phrase_def ton_from_phrase_def keystore_of_def rbind_eq_Inr_iff)

lemma generate_data_phrases:
  assumes "generate_data env input = Inr (eth, ton)"
  shows "\<exists>p d p' d'. eth_from_phrase env p d = Inr eth \<and> ton_from_phrase env p' d' = Inr ton"
  using assms
  by (auto simp: generate_data_def eth_generate_def ton_generate_def rbind_eq_Inr_iff split: option.splits; blast)

lemma cmd_generate_written:
  assumes "cmd_generate env empty_password master_password input = (out, Some data, r)"
  shows "\<exists>eth ton password. generate_data env input = Inr (eth, ton)
    \<and> command_password empty_password master_password (gen_typed_password input) = Inr password
    \<and> stored_keys_new env (gen_rng input) password eth ton = Inr data
    \<and> out = [ton_as_printable env ton, eth_as_printable env eth]"
  using assms
  by (auto simp: cmd_generate_def Let_def with_context_def split: option.splits sum.splits bool.splits)

lemma take_map2_xor:
  fixes xs ys :: bytes
  assumes "n \<le> length xs" "n \<le> length ys"
  shows "map2 (XOR) (map2 (XOR) (take n (map2 (XOR) xs (map f [0..<length xs]) @ us))
      (take n (map2 (XOR) ys (map f [0..<length ys]) @ vs))) (take n ys) = take n xs"
proof (rule nth_equalityI)
  fix i assume "i < length (map2 (XOR) (map2 (XOR) (take n (map2 (XOR) xs (map f [0..<length xs]) @ us))
      (take n (map2 (XOR) ys (map f [0..<length ys]) @ vs))) (take n ys))"
  with assms show "map2 (XOR) (map2 (XOR) (take n (map2 (XOR) xs (map f [0..<length xs]) @ us))
      (take n (map2 (XOR) ys (map f [0..<length ys]) @ vs))) (take n ys) ! i = take n xs ! i"
    by (simp add: nth_append) (metis (no_types) xor.assoc xor.commute xor_self_eq xor.right_neutral)
qed (use assms in simp)

subsection \<open>Properties\<close>

text \<open>
  C34: What \<open>generate\<close> printed is what \<open>export\<close> prints with the same password, and it is the identity
  the relay then works under: the address it signs Ethereum data with and the public key it votes with are
  the printed ones.
\<close>

theorem printed_keys_are_used:
  assumes "aead_ok env"
    and "cmd_generate env empty_password master_password input = (out, Some data, Inr ())"
    and "command_password empty_password master_password (gen_typed_password input) = Inr password"
    and "command_password empty_password' master_password' typed' = Inr password"
  shows "\<exists>eth ton. out = [ton_as_printable env ton, eth_as_printable env eth]
    \<and> cmd_export env empty_password' master_password' typed' (Inr data) = Inr (eth_as_printable env eth, ton_as_printable env ton)
    \<and> (\<forall>rng mnemonics saved ks. keystore_new env rng mnemonics (Some (Inr data)) saved password = (None, Inr ks) \<longrightarrow>
        ks_eth_address ks = key_derived eth \<and> ks_ton_public_key ks = key_derived ton)"
proof -
  obtain eth ton where gen: "generate_data env input = Inr (eth, ton)"
    and new: "stored_keys_new env (gen_rng input) password eth ton = Inr data"
    and out: "out = [ton_as_printable env ton, eth_as_printable env eth]"
    using cmd_generate_written [OF assms(2)] assms(3) by auto
  obtain p d p' d' where phrases: "eth_from_phrase env p d = Inr eth" "ton_from_phrase env p' d' = Inr ton"
    using generate_data_phrases [OF gen] by blast
  have "cmd_export env empty_password' master_password' typed' (Inr data)
      = Inr (eth_as_printable env eth, ton_as_printable env ton)"
    using stored_keys_roundtrip [OF assms(1) phrases new] assms(4) by (simp add: cmd_export_def)
  moreover have "ks_eth_address ks = key_derived eth \<and> ks_ton_public_key ks = key_derived ton"
    if "keystore_new env rng mnemonics (Some (Inr data)) saved password = (None, Inr ks)" for rng mnemonics saved ks
    using that keystore_of_phrases [OF phrases] only_keys_roundtrip [OF assms(1) phrases new]
    by (simp add: keystore_new_def open_keys_def)
  ultimately show ?thesis using out by blast
qed

text \<open>
  C35: The phrase and the derivation path are encrypted with the same nonce, so the two ciphertexts of the
  file alone reveal, to anyone who knows the path (usually the default one), as many bytes of the seed phrase
  as the path has.
\<close>

theorem nonce_reuse_leaks_phrase:
  assumes "stream_cipher env key_stream tag"
    and "stored_keys_new env rng password eth ton = Inr data"
    and "length (key_path eth) \<le> length (key_phrase eth)"
  shows "(let n = length (key_path eth)
    in map2 (XOR) (map2 (XOR) (take n (encrypted_seed_phrase (stored_eth data)))
         (take n (encrypted_derivation_path (stored_eth data)))) (as_bytes (key_path eth))
       = take n (as_bytes (key_phrase eth)))"
  using assms
    take_map2_xor [of "length (key_path eth)" "as_bytes (key_phrase eth)" "as_bytes (key_path eth)"]
  by (auto simp: stored_keys_new_def encrypt_part_def stream_cipher_def Let_def rbind_eq_Inr_iff)

text \<open>A cipher that adds 7 to every byte, with a tag of one byte, and keys that are their phrases.\<close>

definition demo_key_env :: key_env where
  "demo_key_env = \<lparr>symmetric_key_from_password = (\<lambda>_ _. []),
     aead_encrypt = (\<lambda>_ _ data. Inr (map2 (XOR) data (map (\<lambda>_. 7) [0..<length data]) @ [1])),
     decrypt_secure_str = (\<lambda>_ _ c. Inr (map (\<lambda>x. char_of (unat (x XOR 7))) (butlast c))),
     seed_from_phrase = (\<lambda>s. Inr (as_bytes s)), bip32_derive = (\<lambda>seed _. Some seed),
     secp256k1_secret = Inr, secp256k1_public = (\<lambda>x. x), ed25519_secret = Inr, ed25519_public = (\<lambda>x. x),
     solana_keypair = Inr, key_keccak256 = (\<lambda>x. x), hex_encode = (\<lambda>_. [])\<rparr>"

lemma demo_stream: "stream_cipher demo_key_env (\<lambda>_ _ _. 7) (\<lambda>_ _ _. [1])"
  by (simp add: stream_cipher_def demo_key_env_def)

lemma char_of_as_byte: "char_of (unat (of_char c :: u8)) = c"
proof -
  have "unat (of_char c :: u8) = unat (of_nat (of_char c) :: u8)" by (simp only: of_nat_of_char)
  also have "\<dots> = of_char c" by (simp add: unat_of_nat take_bit_nat_eq_self)
  finally show ?thesis by simp
qed

lemma demo_aead: "aead_ok demo_key_env"
proof -
  have "map (\<lambda>x. char_of (unat (x XOR 7))) (map2 (XOR) (as_bytes s) (map (\<lambda>_. 7) [0..<length s])) = s" for s
    by (rule nth_equalityI) (simp_all add: as_bytes_def xor.assoc char_of_as_byte)
  then show ?thesis by (auto simp: aead_ok_def demo_key_env_def)
qed

definition demo_generate :: generate_input where
  "demo_generate = \<lparr>gen_overwrite = None, gen_import = Some (''ab'', ''m'', ''cd'', ''m''), gen_mnemonics = ('''', ''''),
     gen_rng = \<lparr>rng_salt = [], rng_eth_nonce = [], rng_ton_nonce = []\<rparr>, gen_typed_password = Inr ''p'', gen_saved = Inr ()\<rparr>"

definition demo_eth_data :: unencrypted_data where
  "demo_eth_data = \<lparr>key_phrase = ''cd'', key_path = ''m'', key_derived = []\<rparr>"

definition demo_ton_data :: unencrypted_data where
  "demo_ton_data = \<lparr>key_phrase = ''ab'', key_path = ''m'', key_derived = as_bytes ''ab''\<rparr>"

theorem printed_keys_are_used_witness:
  "\<exists>data. fst (snd (cmd_generate demo_key_env False None demo_generate)) = Some data
     \<and> (\<exists>printed. cmd_export demo_key_env False (Some ''p'') (Inr '''') (Inr data) = Inr printed)"
proof -
  let ?g = "cmd_generate demo_key_env False None demo_generate"
  obtain data where data: "fst (snd ?g) = Some data" "snd (snd ?g) = Inr ()"
    by (simp add: cmd_generate_def generate_data_def ton_from_phrase_def eth_from_phrase_def derive_secret_from_phrase_def
        stored_keys_new_def encrypt_part_def command_password_def ask_password_def demo_generate_def demo_key_env_def)
  then have "?g = (fst ?g, Some data, Inr ())" by (metis prod.collapse)
  from printed_keys_are_used [OF demo_aead this, of "''p''" False "Some ''p''" "Inr ''''"] data(1)
  show ?thesis by (auto simp: command_password_def ask_password_def demo_generate_def)
qed

theorem nonce_reuse_leaks_phrase_witness:
  "map2 (XOR) (map2 (XOR) (take 1 (as_bytes ''d'')) (take 1 (as_bytes ''j''))) (as_bytes ''m'') = as_bytes ''c''"
proof -
  let ?data = "\<lparr>stored_salt = [], stored_eth = \<lparr>encrypted_seed_phrase = [0x64, 0x63, 1], encrypted_derivation_path = [0x6a, 1],
      part_nonce = []\<rparr>, stored_ton = \<lparr>encrypted_seed_phrase = [0x66, 0x65, 1], encrypted_derivation_path = [0x6a, 1], part_nonce = []\<rparr>\<rparr>"
  have "stored_keys_new demo_key_env \<lparr>rng_salt = [], rng_eth_nonce = [], rng_ton_nonce = []\<rparr> ''p'' demo_eth_data demo_ton_data
      = Inr ?data"
    by (simp add: stored_keys_new_def encrypt_part_def demo_key_env_def demo_eth_data_def demo_ton_data_def as_bytes_def of_char_def upt_rec)
  from nonce_reuse_leaks_phrase [OF demo_stream this] show ?thesis
    by (simp add: demo_eth_data_def as_bytes_def of_char_def)
qed

end
