(* ===== verification/Memory_Cache.thy ===== *)
theory Memory_Cache
  imports Prelude
begin

section \<open>The memory cache and the token metadata client\<close>

text \<open>
  \<open>src/utils/memory_cache.rs\<close> and its one user, \<open>src/engine/ton_meta/tokens.rs\<close>. The clock is an
  argument of every operation, the answer of the HTTP server one of \<open>get_token_meta\<close>. A duration is the
  whole seconds that \<open>as_secs\<close> gives; the sum of two \<open>u64\<close> wraps, as in a release build.
\<close>

datatype cache_item_policy = AbsoluteExpiration u64 | NoExpiration

record 'v cache_item =
  item_value :: 'v
  item_policy :: cache_item_policy
  item_created :: u64

type_synonym ('k, 'v) memory_cache = "('k, 'v cache_item) hashmap"

definition cache_item_new :: "'v \<Rightarrow> cache_item_policy \<Rightarrow> u64 \<Rightarrow> 'v cache_item" where
  "cache_item_new v p t = \<lparr>item_value = v, item_policy = p, item_created = t\<rparr>"

definition item_is_valid :: "u64 \<Rightarrow> 'v cache_item \<Rightarrow> bool" where
  "item_is_valid now item =
     (case item_policy item of
        NoExpiration \<Rightarrow> True
      | AbsoluteExpiration duration \<Rightarrow> item_created item + duration > now)"

definition cache_new :: "('k, 'v) memory_cache" where
  "cache_new = []"

definition cache_from_iter :: "u64 \<Rightarrow> ('k \<times> 'v \<times> cache_item_policy) list \<Rightarrow> ('k, 'v) memory_cache" where
  "cache_from_iter now items = fold (\<lambda>(k, v, p). hm_insert k (cache_item_new v p now)) items []"

definition drop_expired :: "u64 \<Rightarrow> ('k, 'v) memory_cache \<Rightarrow> ('k, 'v) memory_cache" where
  "drop_expired now cache = hm_retain (\<lambda>_. item_is_valid now) cache"

definition cache_add :: "u64 \<Rightarrow> 'k \<Rightarrow> 'v \<Rightarrow> cache_item_policy \<Rightarrow> ('k, 'v) memory_cache \<Rightarrow> ('k, 'v) memory_cache" where
  "cache_add now k v p cache = drop_expired now (hm_insert k (cache_item_new v p now) cache)"

definition cache_get :: "u64 \<Rightarrow> 'k \<Rightarrow> ('k, 'v) memory_cache \<Rightarrow> ('k, 'v) memory_cache \<times> 'v option" where
  "cache_get now k cache =
     (let cache = (case hm_get cache k of
                     Some item \<Rightarrow> if \<not> item_is_valid now item then hm_remove k cache else cache
                   | None \<Rightarrow> cache)
      in (cache, map_option item_value (hm_get cache k)))"

subsection \<open>\<open>from_cache_or_recache!\<close> and the client\<close>

text \<open>The fallback is evaluated only on a miss; its error (\<open>?\<close>) leaves the cache alone.\<close>

definition from_cache_or_recache ::
  "u64 \<Rightarrow> 'k \<Rightarrow> 'v res \<Rightarrow> cache_item_policy \<Rightarrow> ('k, 'v) memory_cache \<Rightarrow> ('k, 'v) memory_cache \<times> bool \<times> 'v res"
where
  "from_cache_or_recache now k fallback p cache =
     (case cache_get now k cache of
        (cache, Some v) \<Rightarrow> (cache, False, Inr v)
      | (cache, None) \<Rightarrow>
          (case fallback of
             Inl e \<Rightarrow> (cache, True, Inl e)
           | Inr v \<Rightarrow> (cache_add now k v p cache, True, Inr v)))"

record token_meta_info =
  info_name :: string
  info_symbol :: string
  info_decimals :: u8

record token_meta_client =
  base_url :: string
  meta_cache :: "(string, token_meta_info) memory_cache"

definition token_meta_client_new :: "string \<Rightarrow> token_meta_client" where
  "token_meta_client_new url = \<lparr>base_url = url, meta_cache = cache_new\<rparr>"

text \<open>The server is asked with the URL; the request and the parsing fail with different contexts.\<close>

definition get_token_meta ::
  "(string \<Rightarrow> 'b res) \<Rightarrow> ('b \<Rightarrow> token_meta_info res) \<Rightarrow> u64 \<Rightarrow> string \<Rightarrow> token_meta_client \<Rightarrow>
     token_meta_client \<times> bool \<times> token_meta_info res"
where
  "get_token_meta http_get json now address client =
     (let fallback =
        rbind (with_context ''failed to get token meta'' (http_get (base_url client @ ''/token/'' @ address)))
          (\<lambda>body. with_context ''token meta response parsing failed'' (json body))
      in case from_cache_or_recache now address fallback NoExpiration (meta_cache client) of
           (cache, requested, r) \<Rightarrow> (client\<lparr>meta_cache := cache\<rparr>, requested, r))"

subsection \<open>The contract of a cache\<close>

text \<open>
  The specification keeps every addition, newest first, and answers with the newest one of the key
  as long as it is valid. The implementation removes what has expired, at any time, and yet gives the same
  answers, provided the clock does not go back.
\<close>

type_synonym ('k, 'v) cache_log = "('k \<times> 'v cache_item) list"

definition log_get :: "u64 \<Rightarrow> 'k \<Rightarrow> ('k, 'v) cache_log \<Rightarrow> 'v option" where
  "log_get now k l = map_option item_value (option_filter (item_is_valid now) (map_of l k))"

datatype ('k, 'v) cache_op = CacheAdd 'k 'v cache_item_policy | CacheGet 'k | CacheDropExpired

fun cache_step :: "u64 \<Rightarrow> ('k, 'v) cache_op \<Rightarrow> ('k, 'v) memory_cache \<Rightarrow> ('k, 'v) memory_cache \<times> 'v option" where
  "cache_step now (CacheAdd k v p) m = (cache_add now k v p m, None)"
| "cache_step now (CacheGet k) m = cache_get now k m"
| "cache_step now CacheDropExpired m = (drop_expired now m, None)"

fun log_step :: "u64 \<Rightarrow> ('k, 'v) cache_op \<Rightarrow> ('k, 'v) cache_log \<Rightarrow> ('k, 'v) cache_log \<times> 'v option" where
  "log_step now (CacheAdd k v p) l = ((k, cache_item_new v p now) # l, None)"
| "log_step now (CacheGet k) l = (l, log_get now k l)"
| "log_step now CacheDropExpired l = (l, None)"

fun cache_run :: "(u64 \<times> ('k, 'v) cache_op) list \<Rightarrow> ('k, 'v) memory_cache \<Rightarrow> 'v option list" where
  "cache_run [] m = []"
| "cache_run ((now, op) # ops) m = (case cache_step now op m of (m, a) \<Rightarrow> a # cache_run ops m)"

fun log_run :: "(u64 \<times> ('k, 'v) cache_op) list \<Rightarrow> ('k, 'v) cache_log \<Rightarrow> 'v option list" where
  "log_run [] l = []"
| "log_run ((now, op) # ops) l = (case log_step now op l of (l, a) \<Rightarrow> a # log_run ops l)"

text \<open>The simulation: at the time \<open>now\<close> the two agree on what is valid.\<close>

definition cache_simulates :: "u64 \<Rightarrow> ('k, 'v) memory_cache \<Rightarrow> ('k, 'v) cache_log \<Rightarrow> bool" where
  "cache_simulates now m l \<longleftrightarrow> hm_wf m \<and>
     (\<forall>k. option_filter (item_is_valid now) (hm_get m k) = option_filter (item_is_valid now) (map_of l k))"

lemma item_is_valid_mono: "item_is_valid later item \<Longrightarrow> now \<le> later \<Longrightarrow> item_is_valid now item"
  by (auto simp: item_is_valid_def split: cache_item_policy.splits)

lemma option_filter_valid_later:
  "now \<le> later \<Longrightarrow> option_filter (item_is_valid later) x = option_filter (item_is_valid later) (option_filter (item_is_valid now) x)"
  using item_is_valid_mono by (cases x) auto

lemma cache_simulates_later: "cache_simulates now m l \<Longrightarrow> now \<le> later \<Longrightarrow> cache_simulates later m l"
  unfolding cache_simulates_def by (metis option_filter_valid_later)

lemma cache_simulates_drop: "cache_simulates now m l \<Longrightarrow> cache_simulates now (drop_expired now m) l"
  by (auto simp: cache_simulates_def drop_expired_def hm_get_retain_value option_filter_def split: option.split)

lemma cache_simulates_add:
  assumes "cache_simulates now m l"
  shows "cache_simulates now (cache_add now k v p m) ((k, cache_item_new v p now) # l)"
  unfolding cache_add_def
  by (rule cache_simulates_drop) (use assms in \<open>auto simp: cache_simulates_def hm_get_insert\<close>)

lemma cache_get_answer:
  "snd (cache_get now k m) = map_option item_value (option_filter (item_is_valid now) (hm_get m k))"
  by (auto simp: cache_get_def hm_get_remove Let_def option_filter_def split: option.split)

lemma cache_simulates_get:
  assumes "cache_simulates now m l"
  shows "cache_simulates now (fst (cache_get now k m)) l \<and> snd (cache_get now k m) = log_get now k l"
proof -
  have "option_filter (item_is_valid now) (hm_get (fst (cache_get now k m)) k') = option_filter (item_is_valid now) (hm_get m k')"
    for k' by (auto simp: cache_get_def hm_get_remove Let_def option_filter_def split: option.split)
  moreover have "hm_wf (fst (cache_get now k m))"
    using assms by (auto simp: cache_simulates_def cache_get_def Let_def split: option.split)
  ultimately show ?thesis
    using assms by (simp add: cache_simulates_def cache_get_answer log_get_def)
qed

lemma cache_simulates_step:
  assumes "cache_simulates now m l"
  shows "cache_simulates now (fst (cache_step now op m)) (fst (log_step now op l))
    \<and> snd (cache_step now op m) = snd (log_step now op l)"
  using assms by (cases op) (simp_all add: cache_simulates_add cache_simulates_get cache_simulates_drop)

lemma cache_run_simulates:
  assumes "cache_simulates now m l" "sorted (map (unat \<circ> fst) ops)" "\<forall>(t, _) \<in> set ops. now \<le> t"
  shows "cache_run ops m = log_run ops l"
  using assms
proof (induction ops arbitrary: now m l)
  case (Cons e ops)
  obtain t op where e: "e = (t, op)" by (cases e)
  from Cons.prems e have "cache_simulates t m l" by (auto intro: cache_simulates_later)
  note step = cache_simulates_step [OF this, of op]
  have "\<forall>(t', _) \<in> set ops. t \<le> t'" using Cons.prems(2) by (auto simp: e word_le_nat_alt)
  with Cons.IH [of t "fst (cache_step t op m)" "fst (log_step t op l)"] step Cons.prems(2)
  show ?case by (simp add: e split: prod.split) (metis fst_conv snd_conv)
qed simp

subsection \<open>Properties\<close>

text \<open>
  C36: The cache refines its specification: along every sequence of additions, lookups and clean-ups
  under a clock that does not go back, each lookup answers with the newest addition of the key as long as
  it has not expired, although expired entries are dropped at any operation.
\<close>

theorem cache_refines_log:
  assumes "sorted (map (unat \<circ> fst) ops)"
  shows "cache_run ops cache_new = log_run ops []"
  by (rule cache_run_simulates [of 0, OF _ assms]) (auto simp: cache_simulates_def cache_new_def)

text \<open>What the client keeps: distinct addresses, and nothing that expires.\<close>

definition meta_client_inv :: "token_meta_client \<Rightarrow> bool" where
  "meta_client_inv client \<longleftrightarrow> hm_wf (meta_cache client) \<and> (\<forall>(k, item) \<in> set (meta_cache client). item_policy item = NoExpiration)"

lemma no_expiration_valid: "item_policy item = NoExpiration \<Longrightarrow> item_is_valid now item"
  by (simp add: item_is_valid_def)

lemma drop_expired_id: "\<forall>(k, item) \<in> set m. item_policy item = NoExpiration \<Longrightarrow> drop_expired now m = m"
  by (auto simp: drop_expired_def hm_retain_def no_expiration_valid filter_id_conv)

lemma cache_add_no_expiration:
  assumes "hm_wf m" "\<forall>(k, item) \<in> set m. item_policy item = NoExpiration"
  shows "cache_add now k v NoExpiration m = hm_insert k (cache_item_new v NoExpiration now) m
    \<and> hm_wf (cache_add now k v NoExpiration m)
    \<and> (\<forall>(k', item) \<in> set (cache_add now k v NoExpiration m). item_policy item = NoExpiration)"
proof -
  have all: "\<forall>(k', item) \<in> set (hm_insert k (cache_item_new v NoExpiration now) m). item_policy item = NoExpiration"
    using assms(2) by (induction m) (auto simp: cache_item_new_def split: if_splits)
  with assms(1) drop_expired_id [OF all] show ?thesis by (simp add: cache_add_def)
qed

lemma meta_lookup:
  assumes "meta_client_inv client" "hm_get (meta_cache client) address = Some item"
  shows "get_token_meta http_get json now address client = (client, False, Inr (item_value item))"
proof -
  have "(address, item) \<in> set (meta_cache client)" using assms(2) by (rule hm_get_in_set)
  then have "item_is_valid now item" using assms(1) by (auto simp: meta_client_inv_def no_expiration_valid)
  with assms(2) show ?thesis
    by (simp add: get_token_meta_def from_cache_or_recache_def cache_get_def Let_def)
qed

text \<open>
  A token's metadata is requested from the server once: after an answer, every later lookup of the
  same address gives it without a request, whatever the server would say.
\<close>

theorem token_meta_requested_once:
  assumes "meta_client_inv client"
    and "get_token_meta http_get json now address client = (client', requested, Inr meta)"
  shows "meta_client_inv client' \<and> get_token_meta http_get' json' later address client' = (client', False, Inr meta)"
proof (cases "hm_get (meta_cache client) address")
  case (Some item)
  with assms meta_lookup [OF assms(1) Some, of http_get json now] meta_lookup [OF assms(1) Some, of http_get' json' later]
  show ?thesis by simp
next
  case None
  let ?m = "meta_cache client"
  note inv = assms(1) [unfolded meta_client_inv_def, THEN conjunct1] assms(1) [unfolded meta_client_inv_def, THEN conjunct2]
  note add = cache_add_no_expiration [OF inv, of now address meta]
  have client': "client' = client\<lparr>meta_cache := cache_add now address meta NoExpiration ?m\<rparr>"
    using assms(2) None
    by (auto simp: get_token_meta_def from_cache_or_recache_def cache_get_def Let_def split: sum.splits)
  then have inv': "meta_client_inv client'" using add inv(1) by (simp add: meta_client_inv_def)
  have "hm_get (meta_cache client') address = Some (cache_item_new meta NoExpiration now)"
    using add by (simp add: client' hm_get_insert)
  from meta_lookup [OF inv' this] inv' show ?thesis by (simp add: cache_item_new_def)
qed

theorem cache_refines_log_witness:
  "cache_run [(1, CacheAdd ''k'' (5 :: nat) (AbsoluteExpiration 2)), (2, CacheGet ''k''), (3, CacheGet ''k'')] cache_new
     = [None, Some 5, None]"
proof -
  have "sorted (map (unat \<circ> fst) [(1 :: u64, CacheAdd ''k'' (5 :: nat) (AbsoluteExpiration 2)), (2, CacheGet ''k''), (3, CacheGet ''k'')])"
    by simp
  from cache_refines_log [OF this] show ?thesis
    by (simp add: log_get_def item_is_valid_def cache_item_new_def)
qed

theorem token_meta_requested_once_witness:
  "let client = fst (get_token_meta (\<lambda>_. Inr ()) (\<lambda>_. Inr \<lparr>info_name = ''T'', info_symbol = ''T'', info_decimals = 6\<rparr>)
       1 ''0:1'' (token_meta_client_new ''u''))
   in get_token_meta (\<lambda>_. Inl (Foreign ''down'') :: unit res) (\<lambda>_. Inl (Foreign ''down'')) 9 ''0:1'' client
     = (client, False, Inr \<lparr>info_name = ''T'', info_symbol = ''T'', info_decimals = 6\<rparr>)"
proof -
  let ?meta = "\<lparr>info_name = ''T'', info_symbol = ''T'', info_decimals = 6\<rparr>"
  let ?r = "get_token_meta (\<lambda>_. Inr ()) (\<lambda>_. Inr ?meta) 1 ''0:1'' (token_meta_client_new ''u'')"
  have "meta_client_inv (token_meta_client_new ''u'')" by (simp add: meta_client_inv_def token_meta_client_new_def cache_new_def)
  moreover have "?r = (fst ?r, True, Inr ?meta)"
    by (simp add: get_token_meta_def from_cache_or_recache_def cache_get_def token_meta_client_new_def cache_new_def)
  ultimately show ?thesis
    using token_meta_requested_once [of "token_meta_client_new ''u''" "\<lambda>_. Inr ()" "\<lambda>_. Inr ?meta" 1 "''0:1''" "fst ?r" True ?meta
        "\<lambda>_. Inl (Foreign ''down'') :: unit res" "\<lambda>_. Inl (Foreign ''down'')" 9]
    by (simp add: Let_def)
qed

end
