(* ===== verification/Engine.thy ===== *)
theory Engine
  imports Metrics Settings Stored_Keys Memory_Cache Bridge_Start
begin

section \<open>The engine\<close>

text \<open>
  \<open>src/engine/mod.rs\<close>: how the components are created from the settings and started, the registry of EVM
  subscribers (\<open>EthSubscriberRegistry\<close> of \<open>src/engine/eth_subscriber/mod.rs\<close>), and the process around the engine
  (\<open>Relay\<close> of \<open>src/main.rs\<close>). What the host and the other processes answer is a record.
\<close>

subsection \<open>The registry of EVM subscribers\<close>

text \<open>The map of last block numbers is shared by the subscribers; each writes its own chain's entry.\<close>

record eth_registry =
  reg_subscribers :: "(u32, evm_network \<times> eth_subscriber) hashmap"
  reg_last_block_numbers :: "(u32, u64) hashmap"

record evm_host =
  new_transport :: "string \<Rightarrow> unit res"
  block_number_request :: "string \<Rightarrow> u64 timed"

text \<open>A subscriber asks for the height once; it is its last processed block.\<close>

definition eth_subscriber_create ::
  "evm_host \<Rightarrow> evm_network \<Rightarrow> (u32, u64) hashmap \<Rightarrow> (u32, u64) hashmap \<times> eth_subscriber res"
where
  "eth_subscriber_create host n nums =
     (case rbind (new_transport host (evm_endpoint n)) (\<lambda>_. get_current_block_number (block_number_request host (evm_endpoint n))) of
        Inl e \<Rightarrow> (nums, Inl e)
      | Inr height \<Rightarrow> (hm_insert (evm_chain_id n) height nums, Inr (eth_subscriber_new (eth_config_of n) height)))"

definition registry_new_subscriber :: "evm_host \<Rightarrow> evm_network \<Rightarrow> eth_registry \<Rightarrow> eth_registry res" where
  "registry_new_subscriber host n reg =
     (case eth_subscriber_create host n (reg_last_block_numbers reg) of
        (nums, Inl e) \<Rightarrow> Inl (Context ''Failed to create EVM subscriber for chain id'')
      | (nums, Inr s) \<Rightarrow>
          Inr \<lparr>reg_subscribers = hm_insert (evm_chain_id n) (n, s) (reg_subscribers reg), reg_last_block_numbers = nums\<rparr>)"

fun registry_add :: "evm_host \<Rightarrow> evm_network list \<Rightarrow> eth_registry \<Rightarrow> eth_registry res" where
  "registry_add host [] reg = Inr reg"
| "registry_add host (n # networks) reg = rbind (registry_new_subscriber host n reg) (registry_add host networks)"

definition eth_registry_new :: "evm_host \<Rightarrow> evm_network list \<Rightarrow> eth_registry res" where
  "eth_registry_new host networks = registry_add host networks \<lparr>reg_subscribers = [], reg_last_block_numbers = []\<rparr>"

definition get_subscriber :: "eth_registry \<Rightarrow> u32 \<Rightarrow> eth_subscriber option" where
  "get_subscriber reg chain_id = map_option snd (hm_get (reg_subscribers reg) chain_id)"

definition get_last_block_number :: "eth_registry \<Rightarrow> u32 \<Rightarrow> u64 res" where
  "get_last_block_number reg chain_id = ok_or UnknownChainId (hm_get (reg_last_block_numbers reg) chain_id)"

text \<open>The chains whose subscribers are started, and the metrics read.\<close>

definition registry_start :: "eth_registry \<Rightarrow> u32 list" where
  "registry_start reg = map fst (reg_subscribers reg)"

definition registry_subscribers :: "eth_registry \<Rightarrow> (u32 \<times> eth_subscriber) list" where
  "registry_subscribers reg = map (\<lambda>(c, n, s). (c, s)) (reg_subscribers reg)"

subsection \<open>Polling\<close>

text \<open>
  The task of a subscriber (EVM or Solana): it updates as long as the subscriber is there; errors are logged, a
  panic ends the task. Each entry of the list is one turn, \<open>None\<close> once the subscriber is gone.
\<close>

fun poll_loop :: "('w \<Rightarrow> 's \<Rightarrow> 's \<times> 'a list \<times> unit res) \<Rightarrow> 'w option list \<Rightarrow> 's \<Rightarrow> 's \<times> 'a list" where
  "poll_loop turn [] s = (s, [])"
| "poll_loop turn (None # turns) s = (s, [])"
| "poll_loop turn (Some w # turns) s =
     (case turn w s of
        (s, sent, Inl (Panic msg)) \<Rightarrow> (s, sent)
      | (s, sent, _) \<Rightarrow> (case poll_loop turn turns s of (s, later) \<Rightarrow> (s, sent @ later)))"

definition eth_start :: "eth_world option list \<Rightarrow> eth_subscriber \<Rightarrow> eth_subscriber \<times> (nat \<times> verification_status option) list" where
  "eth_start = poll_loop eth_update"

definition sol_start :: "sol_world option list \<Rightarrow> sol_subscriber \<Rightarrow> sol_subscriber \<times> (nat \<times> verification_status option) list" where
  "sol_start = poll_loop sol_update"

subsection \<open>The context\<close>

record engine_context =
  ec_staker_account :: uint256
  ec_staker_account_str :: string
  ec_settings :: bridge_settings
  ec_keystore :: keystore
  ec_node :: node_view
  ec_eth_subscribers :: eth_registry
  ec_sol_subscriber :: "sol_subscriber option"
  ec_tokens_meta_client :: token_meta_client
  ec_shard_split_depth :: u8

record 'o engine_host =
  eh_key_env :: key_env
  eh_key_rng :: key_randomness
  eh_mnemonics :: "string \<times> string"
  eh_keys_file :: "string \<Rightarrow> stored_keys_data res option"
  eh_keys_saved :: "unit res"
  eh_fd_raised :: "u64 option"
  eh_fd_current :: "u64 res"
  eh_cpus :: i32
  eh_open_db :: "string \<Rightarrow> open_options \<Rightarrow> db res"
  eh_node :: "'o node_host"
  eh_new_node :: "'o indexer_config \<Rightarrow> unit res"
  eh_evm :: evm_host
  eh_block_height :: "string \<Rightarrow> u64 res"
  eh_address_string :: "msg_address \<Rightarrow> string"
  eh_awaiter_id :: usize
  eh_round_robin :: usize

definition persistent_storage_new :: "'o engine_host \<Rightarrow> persistent_storage_config \<Rightarrow> (db \<times> u8) res" where
  "persistent_storage_new host c =
     rbind (eh_open_db host (persistent_db_path c)
        (storage_open_options (fd_limit (eh_fd_raised host) (eh_fd_current host)) (eh_cpus host) (persistent_db_options c)))
       (\<lambda>d. Inr (d, storage_split_depth c))"

definition sol_subscriber_of :: "'o engine_host \<Rightarrow> sol_network option \<Rightarrow> sol_subscriber option res" where
  "sol_subscriber_of host n =
     (case n of
        Some c \<Rightarrow> rbind (with_context ''Failed to create Solana subscriber''
            (sol_subscriber_new (eh_block_height host) (eh_round_robin host) (sol_config_of c))) (\<lambda>s. Inr (Some s))
      | None \<Rightarrow> Inr None)"

definition engine_context_new :: "'o engine_host \<Rightarrow> ('o, 'm) app_config \<Rightarrow> engine_context res" where
  "engine_context_new host c =
     (let settings = bridge_settings c
      in rbind (with_context ''Failed to create keystore''
            (snd (keystore_new (eh_key_env host) (eh_key_rng host) (eh_mnemonics host)
               (eh_keys_file host (bs_keys_path settings)) (eh_keys_saved host) (master_password c)))) (\<lambda>keystore.
         rbind (persistent_storage_new host (storage_config c)) (\<lambda>(d, depth).
         rbind (with_context ''Failed to build node config'' (build_indexer_config (eh_node host) (node_settings c))) (\<lambda>ic.
         rbind (with_context ''Failed to start TON node'' (eh_new_node host ic)) (\<lambda>_.
         rbind (with_context ''Failed to create EVM networks registry''
            (eth_registry_new (eh_evm host) (bs_evm_networks settings))) (\<lambda>registry.
         rbind (sol_subscriber_of host (bs_sol_network settings)) (\<lambda>sol.
           Inr \<lparr>ec_staker_account = addr_hash (staker_address c),
             ec_staker_account_str = eh_address_string host (staker_address c),
             ec_settings = settings, ec_keystore = keystore,
             ec_node = \<lparr>nv_subscriber = ton_subscriber_new (eh_awaiter_id host) messages_queue_new d [], nv_snapshot = None\<rparr>,
             ec_eth_subscribers = registry, ec_sol_subscriber = sol,
             ec_tokens_meta_client = token_meta_client_new (bs_token_meta_base_url settings),
             ec_shard_split_depth = depth\<rparr>)))))))"

subsection \<open>The start\<close>

text \<open>\<open>get_all_shard_accounts\<close>: the shards of the next masterchain block, each read from the node.\<close>

fun read_shard_accounts ::
  "(block_id_ext \<Rightarrow> shard_accounts res res) \<Rightarrow> (shard_ident \<times> block_id_ext) list \<Rightarrow>
     (shard_ident, shard_accounts) hashmap \<Rightarrow> (shard_ident, shard_accounts) hashmap res"
where
  "read_shard_accounts wait_state [] shard_accounts = Inr shard_accounts"
| "read_shard_accounts wait_state ((shard_ident, block_id) # blocks) shard_accounts =
     rbind (wait_state block_id) (\<lambda>shard.
     rbind shard (\<lambda>items. read_shard_accounts wait_state blocks (hm_insert shard_ident items shard_accounts)))"

definition get_all_shard_accounts ::
  "(block_id_ext \<Rightarrow> shard_accounts res res) \<Rightarrow> latest_shard_blocks res \<Rightarrow> (shard_ident, shard_accounts) hashmap res"
where
  "get_all_shard_accounts wait_state shards =
     rbind shards (\<lambda>latest. read_shard_accounts wait_state (lsb_block_ids latest) [])"

text \<open>\<open>initialize_staking\<close>: the staking contract is the one the bridge contract names. \<open>None\<close>: still waiting.\<close>

definition initialize_staking ::
  "abi_env \<Rightarrow> shard_account option res list \<Rightarrow> (uint256 \<Rightarrow> 's res option) \<Rightarrow> (uint256 \<times> 's) res option"
where
  "initialize_staking abi_lib polls new =
     (case Ton_Subscriber.get_contract_state polls of
        None \<Rightarrow> None
      | Some (Inl e) \<Rightarrow> Some (Inl e)
      | Some (Inr None) \<Rightarrow> Some (Inl BridgeAccountNotFound)
      | Some (Inr (Some contract)) \<Rightarrow>
          (case with_context ''Failed to get bridge details'' (bridge_get_details abi_lib contract) of
             Inl e \<Rightarrow> Some (Inl e)
           | Inr details \<Rightarrow>
               map_option (\<lambda>r. rbind (with_context ''Failed to init staking'' r) (\<lambda>s. Inr (bd_staking details, s)))
                 (new (bd_staking details))))"

text \<open>
  \<open>Engine::start\<close>: what has been started, in order, and the result. The arguments are what the components
  answer: the node and the TON subscriber, \<open>Bridge::new\<close> for an account, the staking for the same account.
\<close>

datatype start_step = NodeSynced | BridgeInitialized uint256 | StakingInitialized uint256 | EthStarted "u32 list" | SolStarted

definition engine_start ::
  "engine_context \<Rightarrow> unit res \<Rightarrow> unit res option \<Rightarrow> (uint256 \<Rightarrow> bridge_result option) \<Rightarrow>
     (uint256 \<Rightarrow> (uint256 \<times> 's) res option) \<Rightarrow> start_step list \<times> unit res option"
where
  "engine_start ctx node_started ton_started bridge_res staking_res =
     (case node_started of
        Inl e \<Rightarrow> ([], Some (Inl e))
      | Inr _ \<Rightarrow>
      (case ton_started of
        None \<Rightarrow> ([], None)
      | Some (Inl e) \<Rightarrow> ([], Some (Inl e))
      | Some (Inr _) \<Rightarrow>
         (let bridge_account = addr_hash (bs_bridge_address (ec_settings ctx))
          in case bridge_res bridge_account of
               None \<Rightarrow> ([NodeSynced], None)
             | Some (b, effects, Inl e) \<Rightarrow> ([NodeSynced], Some (Inl (Context ''Failed to init bridge'')))
             | Some (b, effects, Inr _) \<Rightarrow>
                 (case staking_res bridge_account of
                    None \<Rightarrow> ([NodeSynced, BridgeInitialized bridge_account], None)
                  | Some (Inl e) \<Rightarrow> ([NodeSynced, BridgeInitialized bridge_account], Some (Inl e))
                  | Some (Inr (staking_acc, s)) \<Rightarrow>
                      ([NodeSynced, BridgeInitialized bridge_account, StakingInitialized staking_acc,
                        EthStarted (registry_start (ec_eth_subscribers ctx))]
                       @ (if ec_sol_subscriber ctx = None then [] else [SolStarted]), Some (Inr ()))))))"

subsection \<open>The process\<close>

record 'e relay =
  relay_config_path :: string
  relay_engine :: "'e option"

definition create_relay :: "(string \<Rightarrow> 'c res) \<Rightarrow> string \<Rightarrow> ('e relay \<times> 'c) res" where
  "create_relay read_config path =
     rbind (read_config path) (\<lambda>c. Inr (\<lparr>relay_config_path = path, relay_engine = None\<rparr>, c))"

text \<open>\<open>init\<close>: the engine is kept before it is started.\<close>

definition relay_init :: "'e res \<Rightarrow> ('e \<Rightarrow> unit res) \<Rightarrow> 'e relay \<Rightarrow> 'e relay \<times> unit res" where
  "relay_init new start r =
     (case with_context ''Failed to create engine'' new of
        Inl e \<Rightarrow> (r, Inl e)
      | Inr engine \<Rightarrow> (r\<lparr>relay_engine := Some engine\<rparr>, with_context ''Failed to start engine'' (start engine)))"

text \<open>\<open>reload\<close>: the new metrics settings, if there is an engine.\<close>

definition update_metrics_config :: "('m option \<Rightarrow> unit res) \<Rightarrow> 'm option \<Rightarrow> unit res" where
  "update_metrics_config exporter_reload c = with_context ''Failed to update metrics exporter config'' (exporter_reload c)"

definition relay_reload ::
  "(string \<Rightarrow> ('o, 'm) app_config res) \<Rightarrow> ('e \<Rightarrow> 'm option \<Rightarrow> unit res) \<Rightarrow> 'e relay \<Rightarrow> unit res"
where
  "relay_reload read_config exporter_reload r =
     rbind (read_config (relay_config_path r)) (\<lambda>c.
       case relay_engine r of
         Some engine \<Rightarrow> update_metrics_config (exporter_reload engine) (metrics_settings c)
       | None \<Rightarrow> Inr ())"

text \<open>Reloads on SIGHUP: a failure is logged, and the next signal is waited for.\<close>

fun listen_reloads :: "(string \<Rightarrow> ('o, 'm) app_config res) list \<Rightarrow> ('e \<Rightarrow> 'm option \<Rightarrow> unit res) \<Rightarrow> 'e relay \<Rightarrow> unit res list" where
  "listen_reloads [] exporter_reload r = []"
| "listen_reloads (read_config # signals) exporter_reload r =
     relay_reload read_config exporter_reload r # listen_reloads signals exporter_reload r"

text \<open>The signals that end the process, and the race between them and the engine.\<close>

definition termination_signals :: "nat list" where
  "termination_signals = [2, 15, 3, 6, 20]"

fun any_signal :: "nat list \<Rightarrow> nat list \<Rightarrow> nat option" where
  "any_signal signals [] = None"
| "any_signal signals (s # arrivals) = (if s \<in> set signals then Some s else any_signal signals arrivals)"

datatype run_event = SignalArrives nat | EngineEnds "unit res"

fun run_select :: "run_event list \<Rightarrow> unit res option" where
  "run_select [] = None"
| "run_select (EngineEnds r # events) = Some r"
| "run_select (SignalArrives s # events) =
     (if any_signal termination_signals [s] \<noteq> None then Some (Inr ()) else run_select events)"

definition cmd_run :: "('e relay \<times> 'c) res \<Rightarrow> unit res \<Rightarrow> run_event list \<Rightarrow> unit res option" where
  "cmd_run created global_config events =
     (case created of
        Inl e \<Rightarrow> Some (Inl e)
      | Inr _ \<Rightarrow>
          (case with_context ''Failed to open global config'' global_config of
             Inl e \<Rightarrow> Some (Inl e)
           | Inr _ \<Rightarrow> run_select events))"


subsection \<open>Properties\<close>

lemma new_subscriber_get:
  assumes "registry_new_subscriber host n reg = Inr reg'"
  shows "\<exists>height. get_current_block_number (block_number_request host (evm_endpoint n)) = Inr height
    \<and> reg_subscribers reg' = hm_insert (evm_chain_id n) (n, eth_subscriber_new (eth_config_of n) height) (reg_subscribers reg)
    \<and> reg_last_block_numbers reg' = hm_insert (evm_chain_id n) height (reg_last_block_numbers reg)"
  using assms
  by (auto simp: registry_new_subscriber_def eth_subscriber_create_def rbind_eq_Inr_iff split: prod.splits sum.splits)

lemma registry_add_append:
  "registry_add host (networks @ [n]) reg = rbind (registry_add host networks reg) (registry_new_subscriber host n)"
proof (induction networks arbitrary: reg)
  case Nil
  show ?case by (cases "registry_new_subscriber host n reg") simp_all
next
  case (Cons m networks)
  show ?case by (cases "registry_new_subscriber host m reg") (simp_all add: Cons.IH)
qed

text \<open>
  C39: The registry that the engine creates has exactly the chains of the settings, each once; when
  a chain is configured twice the last entry counts, and its subscriber starts at the height that its own endpoint
  reported. A chain id that is not configured has no subscriber and no height.
\<close>

theorem registry_exact:
  assumes "eth_registry_new host networks = Inr reg"
  shows "set (registry_start reg) = evm_chain_id ` set networks \<and> distinct (registry_start reg)
    \<and> (case find (\<lambda>n. evm_chain_id n = chain_id) (rev networks) of
         None \<Rightarrow> get_subscriber reg chain_id = None \<and> get_last_block_number reg chain_id = Inl UnknownChainId
       | Some n \<Rightarrow> \<exists>height. get_current_block_number (block_number_request host (evm_endpoint n)) = Inr height
           \<and> get_subscriber reg chain_id = Some (eth_subscriber_new (eth_config_of n) height)
           \<and> get_last_block_number reg chain_id = Inr height)"
  using assms unfolding eth_registry_new_def
proof (induction networks arbitrary: reg rule: rev_induct)
  case Nil
  then show ?case by (auto simp: registry_start_def get_subscriber_def get_last_block_number_def ok_or_def)
next
  case (snoc n networks)
  then obtain reg1 where reg1: "registry_add host networks \<lparr>reg_subscribers = [], reg_last_block_numbers = []\<rparr> = Inr reg1"
      "registry_new_subscriber host n reg1 = Inr reg"
    by (auto simp: registry_add_append rbind_eq_Inr_iff)
  note IH = snoc.IH [OF reg1(1)]
  obtain height where new: "get_current_block_number (block_number_request host (evm_endpoint n)) = Inr height"
      "reg_subscribers reg = hm_insert (evm_chain_id n) (n, eth_subscriber_new (eth_config_of n) height) (reg_subscribers reg1)"
      "reg_last_block_numbers reg = hm_insert (evm_chain_id n) height (reg_last_block_numbers reg1)"
    using new_subscriber_get [OF reg1(2)] by blast
  have "set (registry_start reg) = insert (evm_chain_id n) (set (registry_start reg1))"
    unfolding registry_start_def new(2) list.set_map by (rule hm_keys_insert)
  moreover have "distinct (registry_start reg)"
    using hm_wf_insert [of "reg_subscribers reg1"] IH new(2) by (simp add: registry_start_def hm_wf_def)
  moreover have "get_subscriber reg chain_id = (if evm_chain_id n = chain_id
      then Some (eth_subscriber_new (eth_config_of n) height) else get_subscriber reg1 chain_id)"
    "get_last_block_number reg chain_id = (if evm_chain_id n = chain_id then Inr height else get_last_block_number reg1 chain_id)"
    by (auto simp: get_subscriber_def get_last_block_number_def new(2,3) hm_get_insert ok_or_def)
  ultimately show ?case using IH new(1) by (cases "evm_chain_id n = chain_id") (simp_all split: option.splits)
qed

text \<open>
  The split depth under the bridge's settings (10 in the README's example) has no effect: the engine's
  context is the same for every value of it, up to the stored settings themselves, and the depth in use is that of
  the storage's settings.
\<close>

theorem split_depth_ignored:
  assumes "engine_context_new host c = Inr ctx"
  shows "ec_shard_split_depth ctx = storage_split_depth (storage_config c)
    \<and> engine_context_new host (c\<lparr>bridge_settings := bridge_settings c\<lparr>bs_shard_split_depth := depth\<rparr>\<rparr>) =
        Inr (ctx\<lparr>ec_settings := bridge_settings c\<lparr>bs_shard_split_depth := depth\<rparr>\<rparr>)"
  using assms
  by (auto simp: engine_context_new_def persistent_storage_new_def rbind_eq_Inr_iff Let_def)

text \<open>
  No subscriber polls an EVM chain before the node is synchronised, the bridge is
  initialised and the staking is, for the contract that the bridge contract names; then the start succeeds, and
  exactly the registered chains are polled.
\<close>

theorem subscribers_start_last:
  assumes "engine_start ctx node_started ton_started bridge_res
      (\<lambda>acc. initialize_staking abi_lib (polls acc) new) = (steps, r)"
    and "EthStarted chain_ids \<in> set steps"
  shows "\<exists>bridge_account b effects contract details s.
      bridge_account = addr_hash (bs_bridge_address (ec_settings ctx))
      \<and> node_started = Inr () \<and> ton_started = Some (Inr ()) \<and> bridge_res bridge_account = Some (b, effects, Inr ())
      \<and> Ton_Subscriber.get_contract_state (polls bridge_account) = Some (Inr (Some contract))
      \<and> bridge_get_details abi_lib contract = Inr details \<and> new (bd_staking details) = Some (Inr s)
      \<and> chain_ids = registry_start (ec_eth_subscribers ctx) \<and> r = Some (Inr ())
      \<and> steps = [NodeSynced, BridgeInitialized bridge_account, StakingInitialized (bd_staking details), EthStarted chain_ids]
          @ (if ec_sol_subscriber ctx = None then [] else [SolStarted])"
  using assms
  by (auto simp: engine_start_def initialize_staking_def Let_def rbind_eq_Inr_iff
      split: sum.splits option.splits prod.splits if_splits)


subsection \<open>Witnesses\<close>

text \<open>A chain that is configured twice, the README's split depth of 10, and a host that answers everything.\<close>

definition demo_network :: "u64 \<Rightarrow> evm_network" where
  "demo_network secs = \<lparr>evm_chain_id = 1, evm_endpoint = ''e'', evm_get_timeout_sec = secs,
     evm_blocks_processing_timeout_sec = 120, evm_pool_size = 10, evm_poll_interval_sec = 60, evm_max_block_range = None,
     evm_maximum_failed_responses_time_sec = 600\<rparr>"

definition demo_evm_host :: evm_host where
  "demo_evm_host = \<lparr>new_transport = (\<lambda>_. Inr ()), block_number_request = (\<lambda>_. Finished (Inr 5))\<rparr>"

definition demo_engine_host :: "unit engine_host" where
  "demo_engine_host = \<lparr>eh_key_env = demo_key_env, eh_key_rng = \<lparr>rng_salt = [], rng_eth_nonce = [], rng_ton_nonce = []\<rparr>,
     eh_mnemonics = (''ab'', ''cd''), eh_keys_file = (\<lambda>_. None), eh_keys_saved = Inr (), eh_fd_raised = Some 1024,
     eh_fd_current = Inr 256, eh_cpus = 4, eh_open_db = (\<lambda>_ _. Inr demo_left_events),
     eh_node = \<lparr>resolve_public_ip = (\<lambda>_. Inr 1), load_node_keys = (\<lambda>_. Inr []), create_dir_all = (\<lambda>_. Inr ()),
       gen_range_3600 = 7, join_path = (@), force_compression = id\<rparr>,
     eh_new_node = (\<lambda>_. Inr ()), eh_evm = demo_evm_host, eh_block_height = (\<lambda>_. Inr 1), eh_address_string = (\<lambda>_. ''''),
     eh_awaiter_id = 0, eh_round_robin = 0\<rparr>"

definition demo_app_config :: "(unit, unit) app_config" where
  "demo_app_config = \<lparr>master_password = ''p'', staker_address = demo_address,
     bridge_settings = \<lparr>bs_keys_path = ''keys.json'', bs_bridge_address = demo_address, bs_ignore_elections = False,
       bs_evm_networks = [demo_network 10, demo_network 20], bs_sol_network = None,
       bs_address_verification = address_verification_default, bs_verification_state_path = verification_state_path_default,
       bs_shard_split_depth = 10, bs_token_meta_base_url = '''', bs_jrpc_endpoints = []\<rparr>,
     node_settings = node_config_default (),
     storage_config = \<lparr>persistent_db_path = ''persistent-storage'', persistent_db_options = db_options_default, storage_split_depth = 0\<rparr>,
     metrics_settings = None\<rparr>"

lemma demo_registry: "\<exists>reg. eth_registry_new demo_evm_host [demo_network 10, demo_network 20] = Inr reg"
  by (simp add: eth_registry_new_def registry_new_subscriber_def eth_subscriber_create_def get_current_block_number_def
      demo_evm_host_def)

lemma demo_engine_context: "\<exists>ctx. engine_context_new demo_engine_host demo_app_config = Inr ctx"
proof -
  have "\<exists>ks. snd (keystore_new demo_key_env \<lparr>rng_salt = [], rng_eth_nonce = [], rng_ton_nonce = []\<rparr> (''ab'', ''cd'') None (Inr ()) ''p'')
      = Inr ks"
    by (simp add: keystore_new_def open_keys_def decrypt_only_keys_def keystore_of_def decrypt_secret_key_def
        eth_generate_def ton_generate_def eth_from_phrase_def ton_from_phrase_def derive_secret_from_phrase_def
        stored_keys_new_def encrypt_part_def demo_key_env_def Let_def)
  with demo_registry show ?thesis
    by (auto simp: engine_context_new_def persistent_storage_new_def build_indexer_config_def sol_subscriber_of_def
        node_config_default_def demo_engine_host_def demo_app_config_def)
qed

theorem registry_exact_witness:
  "\<exists>reg. eth_registry_new demo_evm_host [demo_network 10, demo_network 20] = Inr reg
     \<and> set (registry_start reg) = {1} \<and> get_last_block_number reg 2 = Inl UnknownChainId"
proof -
  obtain reg where reg: "eth_registry_new demo_evm_host [demo_network 10, demo_network 20] = Inr reg"
    using demo_registry by blast
  from registry_exact [OF reg, of 2] reg show ?thesis by (simp add: demo_network_def)
qed

theorem split_depth_ignored_witness:
  "\<exists>ctx. engine_context_new demo_engine_host demo_app_config = Inr ctx
     \<and> bs_shard_split_depth (bridge_settings demo_app_config) = 10 \<and> ec_shard_split_depth ctx = 0"
proof -
  obtain ctx where ctx: "engine_context_new demo_engine_host demo_app_config = Inr ctx" using demo_engine_context by blast
  from split_depth_ignored [OF ctx] ctx show ?thesis by (simp add: demo_app_config_def)
qed

definition demo_bridge_details :: bridge_details where
  "demo_bridge_details = \<lparr>connector_code = [], connector_deploy_value = 0, details_connector_counter = 1, bd_staking = [3],
     bridge_active = True\<rparr>"

theorem subscribers_start_last_witness:
  "\<exists>ctx steps. engine_context_new demo_engine_host demo_app_config = Inr ctx
     \<and> engine_start ctx (Inr ()) (Some (Inr ())) (\<lambda>_. Some (bridge_new, [], Inr ()))
         (\<lambda>acc. initialize_staking (demo_abi\<lparr>unpack_bridge_details := (\<lambda>_. Inr demo_bridge_details)\<rparr>)
            [Inr (Some (demo_account [5]))] (\<lambda>_. Some (Inr ()))) = (steps, Some (Inr ()))
     \<and> StakingInitialized [3] \<in> set steps"
proof -
  let ?abi = "demo_abi\<lparr>unpack_bridge_details := (\<lambda>_. Inr demo_bridge_details)\<rparr>"
  obtain ctx where ctx: "engine_context_new demo_engine_host demo_app_config = Inr ctx" using demo_engine_context by blast
  let ?start = "engine_start ctx (Inr ()) (Some (Inr ())) (\<lambda>_. Some (bridge_new, [], Inr ()))
    (\<lambda>acc. initialize_staking ?abi ((\<lambda>_. [Inr (Some (demo_account [5]))]) acc) (\<lambda>_. Some (Inr ())))"
  obtain steps r where run: "?start = (steps, r)" by (cases ?start)
  have started: "EthStarted (registry_start (ec_eth_subscribers ctx)) \<in> set steps"
    using run by (auto simp: engine_start_def initialize_staking_def bridge_get_details_def call_local_def run_local_def demo_abi_def
        demo_account_def from_shard_account_opt_def from_shard_account_def split: if_splits)
  from subscribers_start_last [OF run started] ctx run show ?thesis
    by (auto simp: bridge_get_details_def call_local_def run_local_def demo_abi_def demo_bridge_details_def)
qed

end
