(* ===== verification/Verified_Votes.thy ===== *)
theory Verified_Votes
  imports Bridge_Update Eth_Subscriber Sol_Subscriber
begin

section \<open>From a log on an EVM chain to a vote\<close>

text \<open>
  The bridge's update of an ETH to TON event (\<open>src/engine/bridge/mod.rs\<close>) asks the subscriber of the chain
  (\<open>src/engine/eth_subscriber/mod.rs\<close>), which answers over a one-shot channel from a later update. Here the two are
  composed: the answer in \<open>Bridge_Update\<close> is that of a run of \<open>Eth_Subscriber\<close>.
\<close>

text \<open>
  \<open>verify\<close> with its wait: \<open>ops\<close> are the subscriber's operations from the request on. \<open>None\<close>: still waiting;
  a dropped sender is an error.
\<close>

definition verify_wait ::
  "nat \<Rightarrow> eth_ton_event_vote_data \<Rightarrow> eth_address \<Rightarrow> eth_event_abi \<Rightarrow> u16 \<Rightarrow> bool \<Rightarrow> eth_op list \<Rightarrow> eth_subscriber \<Rightarrow>
     verification_status res option"
where
  "verify_wait channel vote emitter parsed_abi blocks_to_confirm checks ops s =
     (case verify channel vote emitter parsed_abi blocks_to_confirm checks s of
        (s, _, Inl outcome) \<Rightarrow> Some (Inr outcome)
      | (s, _, Inr rx) \<Rightarrow>
          map_option (\<lambda>received. case received of Some outcome \<Rightarrow> Inr outcome | None \<Rightarrow> Inl (Foreign ''channel closed''))
            (map_of (snd (run_ops eth_step ops s)) rx))"

subsection \<open>What a channel stands for\<close>

text \<open>The confirmation that answers a channel holds what was asked for with it.\<close>

definition asked_for ::
  "nat \<Rightarrow> eth_ton_event_vote_data \<Rightarrow> eth_address \<Rightarrow> eth_event_abi \<Rightarrow> u64 \<Rightarrow> eth_subscriber \<Rightarrow> bool"
where
  "asked_for c vote emitter parsed target s \<longleftrightarrow>
     (\<forall>k conf. hm_get (pending_confirmations s) k = Some conf \<longrightarrow> status_tx conf = Some c \<longrightarrow>
        vote_data conf = vote \<and> pc_event_emitter conf = emitter \<and> pc_event_abi conf = parsed \<and> target_block conf = target)"

lemma asked_for_verify:
  assumes "asked_for c vote emitter parsed target s" "c' \<noteq> c \<or> \<not> checks
      \<or> vote' = vote \<and> emitter' = emitter \<and> parsed' = parsed \<and> ucast (event_block_number vote) + ucast blocks = target"
  shows "asked_for c vote emitter parsed target (fst (verify c' vote' emitter' parsed' blocks checks s))"
  using assms by (auto simp: asked_for_def verify_def Let_def hm_get_insert split: if_splits)

lemma eth_update_confirmations:
  assumes "eth_inv s" "hm_get (pending_confirmations (fst (eth_update w s))) k = Some conf"
  shows "\<exists>conf0. hm_get (pending_confirmations s) k = Some conf0 \<and> conf = conf0\<lparr>pc_status := pc_status conf\<rparr>"
proof (cases rule: eth_update_cases [of w s])
  case idle
  with assms(2) show ?thesis by (intro exI [of _ conf]) simp
next
  case (processed current_block events m)
  have m: "conf_wf m" using assms(1) processed(2) by (simp add: eth_inv_conf apply_events_conf)
  obtain kept to_check rejected where r: "retain_confirmations current_block m = (kept, to_check, rejected)"
    by (metis prod_cases3)
  obtain remaining resolved where res: "resolve_all w (completed w to_check) kept = (remaining, resolved)"
    by (cases "resolve_all w (completed w to_check) kept")
  have "hm_get kept k = Some conf"
    using assms(2) resolve_all_get [of w "completed w to_check" kept k] res
    unfolding processed(3) r by (auto simp: Let_def split: if_splits option.splits)
  then have "hm_get m k = Some conf" using kept_confirmation(1) [OF m r, of k] by simp
  with apply_events_get show ?thesis by (metis processed(2))
qed

lemma asked_for_step:
  assumes "eth_inv s" "asked_for c vote emitter parsed target s" "c \<notin># eth_opened op s"
  shows "asked_for c vote emitter parsed target (fst (eth_step op s))"
proof (cases op)
  case (EthVerify c' vote' emitter' parsed' blocks checks)
  with assms(3) have "c' \<noteq> c \<or> \<not> checks" by auto
  then have "asked_for c vote emitter parsed target (fst (verify c' vote' emitter' parsed' blocks checks s))"
    by (intro asked_for_verify [OF assms(2)]) blast
  with EthVerify show ?thesis by (simp add: case_prod_beta)
next
  case (EthUpdate w)
  show ?thesis
    unfolding asked_for_def
  proof (intro allI impI)
    fix k conf
    assume "hm_get (pending_confirmations (fst (eth_step op s))) k = Some conf" and tx: "status_tx conf = Some c"
    then have "hm_get (pending_confirmations (fst (eth_update w s))) k = Some conf"
      using EthUpdate by (simp add: case_prod_beta)
    from eth_update_confirmations [OF assms(1) this] obtain conf0 where
      conf0: "hm_get (pending_confirmations s) k = Some conf0" "conf = conf0\<lparr>pc_status := pc_status conf\<rparr>" by blast
    have same: "status_tx conf0 = status_tx conf" "target_block conf0 = target_block conf" "vote_data conf0 = vote_data conf"
      "pc_event_emitter conf0 = pc_event_emitter conf" "pc_event_abi conf0 = pc_event_abi conf"
      by (subst conf0(2), simp)+
    with assms(2) conf0(1) tx show "vote_data conf = vote \<and> pc_event_emitter conf = emitter \<and> pc_event_abi conf = parsed
        \<and> target_block conf = target"
      unfolding asked_for_def by metis
  qed
qed

subsection \<open>The evidence\<close>

text \<open>
  What the chain's endpoint returned in one update: the receipt of the transaction with status 1, in which a log
  that was not removed agrees with the request, after the block that the request waits for.
\<close>

definition eth_evidence ::
  "eth_world \<Rightarrow> eth_ton_event_vote_data \<Rightarrow> eth_address \<Rightarrow> eth_event_abi \<Rightarrow> u64 \<Rightarrow> bool"
where
  "eth_evidence w vote emitter parsed target \<longleftrightarrow>
     (\<exists>height. current_height w = Inr height \<and> target \<le> height)
     \<and> (\<exists>r log ev data. transaction_receipt w (event_transaction vote) = Inr (Some r) \<and> receipt_status r = Some 1
         \<and> log \<in> set (receipt_logs r) \<and> parse_log log = Inr (ReceivedEvent ev) \<and> log_removed log \<noteq> Some True
         \<and> ev_address ev = emitter \<and> ev_topic_hash ev = get_eth_topic_hash parsed
         \<and> ev_event_index ev = event_index vote \<and> ev_transaction_hash ev = event_transaction vote
         \<and> ev_block_number ev = ucast (event_block_number vote) \<and> ev_block_hash ev = event_block vote
         \<and> decode_and_map parsed (ev_data ev) = Inr data \<and> cell_hash w data = cell_hash w (et_event_data vote))"

lemma truncate_block_le:
  assumes "last_block < height"
  shows "truncate_block limit last_block height \<le> height"
  using assms by (auto simp: truncate_block_def split: option.split)

lemma asked_for_answer:
  assumes "eth_inv s" "asked_for c vote emitter parsed target s" "(c, Some Exists) \<in> set (snd (eth_step op s))"
    and "\<And>w ks. op = EthUpdate w \<Longrightarrow> mset (completed w ks) = mset ks"
  shows "\<exists>w. op = EthUpdate w \<and> eth_evidence w vote emitter parsed target"
proof (cases op)
  case (EthVerify c' vote' emitter' parsed' blocks checks)
  with assms(3) show ?thesis
    by (auto simp: verify_def Let_def split: if_splits option.splits)
next
  case (EthUpdate w)
  then have "(c, Some Exists) \<in> set (fst (snd (eth_update w s)))" using assms(3) by (simp add: case_prod_beta)
  from exists_receipt [OF assms(1) this] assms(4) [OF EthUpdate] obtain k conf current_block events r log ev data where
    e: "hm_get (pending_confirmations s) k = Some conf" "status_tx conf = Some c" "eth_processed w s current_block events"
      "target_block conf \<le> current_block"
      "transaction_receipt w (event_transaction (vote_data conf)) = Inr (Some r)" "receipt_status r = Some 1"
      "log \<in> set (receipt_logs r)" "parse_log log = Inr (ReceivedEvent ev)" "log_removed log \<noteq> Some True"
      "ev_address ev = pc_event_emitter conf" "ev_topic_hash ev = get_eth_topic_hash (pc_event_abi conf)"
      "ev_event_index ev = event_index (vote_data conf)" "ev_transaction_hash ev = event_transaction (vote_data conf)"
      "ev_block_number ev = ucast (event_block_number (vote_data conf))" "ev_block_hash ev = event_block (vote_data conf)"
      "decode_and_map (pc_event_abi conf) (ev_data ev) = Inr data"
      "cell_hash w data = cell_hash w (et_event_data (vote_data conf))"
    by blast
  from e(1,2) assms(2) have same: "vote_data conf = vote" "pc_event_emitter conf = emitter" "pc_event_abi conf = parsed"
      "target_block conf = target"
    unfolding asked_for_def by blast+
  have "\<exists>height. current_height w = Inr height \<and> target \<le> height"
    using e(3,4) same(4) truncate_block_le order_trans unfolding eth_processed_def by blast
  with e(5-17) EthUpdate show ?thesis unfolding eth_evidence_def same by blast
qed

lemma eth_opened_state: "eth_opened op s = eth_opened op s'"
  by (cases op) simp_all

lemma asked_for_run:
  assumes "eth_inv s" "asked_for c vote emitter parsed target s" "(c, Some Exists) \<in> set (snd (run_ops eth_step ops s))"
    and "\<forall>op \<in> set ops. c \<notin># eth_opened op s0"
    and "\<And>w ks. EthUpdate w \<in> set ops \<Longrightarrow> mset (completed w ks) = mset ks"
  shows "\<exists>w. EthUpdate w \<in> set ops \<and> eth_evidence w vote emitter parsed target"
  using assms
proof (induction ops arbitrary: s)
  case (Cons op ops)
  have "(c, Some Exists) \<in> set (snd (eth_step op s)) \<or> (c, Some Exists) \<in> set (snd (run_ops eth_step ops (fst (eth_step op s))))"
    using Cons.prems(3) by (auto split: prod.splits)
  then show ?case
  proof
    assume "(c, Some Exists) \<in> set (snd (eth_step op s))"
    from asked_for_answer [OF Cons.prems(1,2) this] Cons.prems(5) show ?thesis by auto
  next
    assume later: "(c, Some Exists) \<in> set (snd (run_ops eth_step ops (fst (eth_step op s))))"
    have "c \<notin># eth_opened op s" using Cons.prems(4) eth_opened_state [of op s s0] by simp
    from Cons.IH [OF eth_step_inv [OF Cons.prems(1)] asked_for_step [OF Cons.prems(1,2) this] later] Cons.prems(4,5)
    show ?thesis by auto
  qed
qed simp

lemma asked_for_unused:
  assumes "eth_inv s" "c \<notin># eth_waiting s"
  shows "asked_for c vote emitter parsed target s"
  unfolding asked_for_def
proof (intro allI impI)
  fix k conf
  assume "hm_get (pending_confirmations s) k = Some conf" "status_tx conf = Some c"
  then have "c \<in># eth_waiting s" by (force simp: eth_waiting_def dest!: map_of_SomeD)
  with assms(2) show "vote_data conf = vote \<and> pc_event_emitter conf = emitter \<and> pc_event_abi conf = parsed \<and> target_block conf = target"
    by simp
qed

text \<open>An answer that the event exists: the checks were passed and the evidence was there.\<close>

lemma verify_wait_Exists:
  assumes "eth_inv s" "c \<notin># eth_waiting s" "\<forall>op \<in> set ops. c \<notin># eth_opened op s"
    and "\<And>w ks. EthUpdate w \<in> set ops \<Longrightarrow> mset (completed w ks) = mset ks"
    and "verify_wait c vote emitter parsed blocks checks ops s = Some (Inr Exists)"
  shows "checks \<and> (\<exists>w. EthUpdate w \<in> set ops
    \<and> eth_evidence w vote emitter parsed (ucast (event_block_number vote) + ucast blocks))"
proof -
  let ?s = "fst (verify c vote emitter parsed blocks checks s)"
  have checks: checks using assms(5) by (cases checks) (simp_all add: verify_wait_def verify_def)
  then have "snd (snd (verify c vote emitter parsed blocks checks s)) = Inr c" by (simp add: verify_def Let_def)
  with assms(5) have "map_of (snd (run_ops eth_step ops ?s)) c = Some (Some Exists)"
    by (auto simp: verify_wait_def case_prod_beta split: option.splits)
  then have "(c, Some Exists) \<in> set (snd (run_ops eth_step ops ?s))" by (rule map_of_SomeD)
  moreover have "asked_for c vote emitter parsed (ucast (event_block_number vote) + ucast blocks) ?s"
    by (rule asked_for_verify [OF asked_for_unused [OF assms(1,2)]]) simp
  ultimately show ?thesis
    using asked_for_run [OF verify_inv [OF assms(1)] _ _ assms(3,4)] checks by blast
qed


subsection \<open>The composition\<close>

text \<open>
  What \<open>verify\<close> returns in the bridge's world is what the subscriber of the chain answers over the fresh channel;
  \<open>completed\<close> of each of its updates is an order of completion.
\<close>

definition answered_by :: "update_world \<Rightarrow> nat \<Rightarrow> (u32 \<Rightarrow> eth_op list) \<Rightarrow> (u32 \<Rightarrow> eth_subscriber) \<Rightarrow> bool" where
  "answered_by w c ops subscriber \<longleftrightarrow>
     (\<forall>chain vote emitter parsed blocks checks outcome.
        eth_verify w chain vote emitter parsed blocks checks = Inr outcome \<longrightarrow>
        verify_wait c vote emitter parsed blocks checks (ops chain) (subscriber chain) = Some (Inr outcome))
     \<and> (\<forall>chain. eth_inv (subscriber chain) \<and> c \<notin># eth_waiting (subscriber chain)
          \<and> (\<forall>op \<in> set (ops chain). c \<notin># eth_opened op (subscriber chain))
          \<and> (\<forall>u ks. EthUpdate u \<in> set (ops chain) \<longrightarrow> mset (completed u ks) = mset ks))"

lemma answered_by_Exists:
  assumes "answered_by w c ops subscriber" "eth_verify w chain vote emitter parsed blocks checks = Inr Exists"
  shows "checks \<and> (\<exists>u. EthUpdate u \<in> set (ops chain)
    \<and> eth_evidence u vote emitter parsed (ucast (event_block_number vote) + ucast blocks))"
  using assms(1) assms(2) unfolding answered_by_def
  by (intro verify_wait_Exists [of "subscriber chain" c "ops chain"]) simp_all

subsection \<open>The same for deposits on Solana\<close>

text \<open>What the bridge asks the Solana subscriber about an event contract.\<close>

definition sol_ton_request ::
  "update_env \<Rightarrow> sol_ton_event_configuration_state \<Rightarrow> sol_ton_event_init_data \<Rightarrow>
     (sol_ton_transaction_data \<times> sol_ton_account_data) res"
where
  "sol_ton_request env c init =
     (let vote = st_vote_data init; program = stc_program (network_configuration (st_details c))
      in rbind (rbind (decode_event_data env (st_event_abi c) (st_event_data vote)) (borsh_serialize env)) (\<lambda>decoded_event_data.
         rbind (parse_signature env (st_signature vote)) (\<lambda>signature.
           Inr (\<lparr>std_program_id = program, std_signature = signature, std_slot = slot vote,
                  std_block_time = block_time vote, std_seed = account_seed vote\<rparr>,
                \<lparr>sad_program_id = program, sad_seed = account_seed vote, sad_event_data = decoded_event_data\<rparr>))))"

lemma sol_ton_vote_outcome:
  assumes "update_sol_ton_event env w acc b = (b', effects, r)" "effects \<noteq> []"
  shows "\<exists>contract init c td ad outcome. hm_get (pending (sol_ton_events_state b)) acc = Some \<lparr>processing_started = False\<rparr>
    \<and> wait_contract_state w acc = Inr contract
    \<and> event_base_process (abi env) contract (ton_public_key env) False = Inr Vote
    \<and> sol_ton_event_init_data_of (abi env) contract = Inr init
    \<and> hm_get (sol_ton_event_configurations (during w 1 (during w 0
        (b\<lparr>sol_ton_events_state := snd (start_processing acc (sol_ton_events_state b))\<rparr>)))) (st_configuration init) = Some c
    \<and> sol_ton_request env c init = Inr (td, ad) \<and> verify_sol_ton w td ad = Inr outcome
    \<and> effects = [DeliverTon (vote_of (case outcome of Exists \<Rightarrow> sol_ton_event_contract_confirm
        | NotExists _ \<Rightarrow> sol_ton_event_contract_reject) acc [])]"
  using assms
  unfolding update_sol_ton_event_def Let_def sol_ton_request_def
  by (auto split: prod.splits sum.splits option.splits event_action.splits if_splits bool.splits verification_status.splits
      dest!: deliver_vote_effects start_processing_True simp: rbind_eq_Inr_iff)

subsection \<open>Properties\<close>

text \<open>
  C3: The endpoint, the subscriber and the bridge composed. The relay confirms an ETH to TON event only if
  the event contract asked for its vote, its configuration is known, the token checks passed if they are required, and
  in an update of the chain's subscriber the endpoint had reached the required block and returned the successful
  receipt with the log that the contract describes, whatever other tasks do to the bridge's and the subscribers'
  states in between and whatever other events wait.
\<close>

theorem confirmed_only_with_evidence:
  assumes "update_eth_ton_event env w acc b = (b', effects, r)"
    and "DeliverTon (vote_of eth_ton_event_contract_confirm acc []) \<in> set effects"
    and "answered_by w c ops subscriber"
  shows "\<exists>contract init configuration u.
      hm_get (pending (eth_ton_events_state b)) acc = Some \<lparr>processing_started = False\<rparr>
      \<and> wait_contract_state w acc = Inr contract
      \<and> event_base_process (abi env) contract (ton_public_key env) False = Inr Vote
      \<and> eth_ton_event_init_data_of (abi env) contract = Inr init
      \<and> hm_get (eth_ton_event_configurations (during w 1 (during w 0
          (b\<lparr>eth_ton_events_state := snd (start_processing acc (eth_ton_events_state b))\<rparr>)))) (et_configuration init)
        = Some configuration
      \<and> (check_token_root (mapping_context configuration) \<longrightarrow> check_token_wallet env w contract = Inr True)
      \<and> EthUpdate u \<in> set (ops (etc_chain_id (network_configuration (et_details configuration))))
      \<and> eth_evidence u (et_vote_data init) (etc_event_emitter (network_configuration (et_details configuration)))
          (et_event_abi configuration)
          (ucast (event_block_number (et_vote_data init))
            + ucast (event_blocks_to_confirm (network_configuration (et_details configuration))))"
proof -
  have "effects \<noteq> []" using assms(2) by auto
  from eth_ton_vote_outcome [OF assms(1) this] obtain outcome where
    entry: "hm_get (pending (eth_ton_events_state b)) acc = Some \<lparr>processing_started = False\<rparr>"
    and verified: "eth_ton_verified env w acc
        (during w 1 (during w 0 (b\<lparr>eth_ton_events_state := snd (start_processing acc (eth_ton_events_state b))\<rparr>))) outcome"
    and sent: "effects = [DeliverTon (vote_of (case outcome of Exists \<Rightarrow> eth_ton_event_contract_confirm
        | NotExists _ \<Rightarrow> eth_ton_event_contract_reject) acc [])]" by blast
  have "outcome = Exists"
    using assms(2) sent by (cases outcome) (simp_all add: vote_of_def vote_functions)
  with verified obtain contract init configuration checks where
    v: "wait_contract_state w acc = Inr contract"
      "event_base_process (abi env) contract (ton_public_key env) False = Inr Vote"
      "eth_ton_event_init_data_of (abi env) contract = Inr init"
      "hm_get (eth_ton_event_configurations (during w 1 (during w 0
          (b\<lparr>eth_ton_events_state := snd (start_processing acc (eth_ton_events_state b))\<rparr>)))) (et_configuration init)
        = Some configuration"
      "(if check_token_root (mapping_context configuration) then check_token_wallet env w contract else Inr True) = Inr checks"
      "eth_verify w (etc_chain_id (network_configuration (et_details configuration))) (et_vote_data init)
        (etc_event_emitter (network_configuration (et_details configuration))) (et_event_abi configuration)
        (event_blocks_to_confirm (network_configuration (et_details configuration))) checks = Inr Exists"
    unfolding eth_ton_verified_def by blast
  from answered_by_Exists [OF assms(3) v(6)] obtain u where checks: "checks = True"
    and u: "EthUpdate u \<in> set (ops (etc_chain_id (network_configuration (et_details configuration))))"
    "eth_evidence u (et_vote_data init) (etc_event_emitter (network_configuration (et_details configuration)))
      (et_event_abi configuration) (ucast (event_block_number (et_vote_data init))
        + ucast (event_blocks_to_confirm (network_configuration (et_details configuration))))" by blast
  have "check_token_root (mapping_context configuration) \<longrightarrow> check_token_wallet env w contract = Inr True"
    using v(5) checks by (simp split: if_split_asm)
  with entry v(1-4) u show ?thesis by blast
qed

text \<open>
  C4: The Solana subscriber and the bridge composed. The relay confirms a SOL to TON event only if the
  contract asked for its vote, its configuration is known, the node returned the transaction with the event's signature
  from the event's slot and time with an instruction of the configured program that names the event's seed, and the
  deposit account of that program and seed held exactly the event's data in the encoding of the configuration's ABI.
\<close>

theorem confirmed_only_with_deposit:
  assumes "update_sol_ton_event env w acc b = (b', effects, r)"
    and "DeliverTon (vote_of sol_ton_event_contract_confirm acc []) \<in> set effects"
    and "\<And>td ad outcome. verify_sol_ton w td ad = Inr outcome \<Longrightarrow>
      \<exists>s. snd (verify_sol_ton_event get_tx bs58 unpack_deposit rounds_of deposit_address td ad s) = Some (Inr outcome)"
  shows "\<exists>contract init c td ad.
      hm_get (pending (sol_ton_events_state b)) acc = Some \<lparr>processing_started = False\<rparr>
      \<and> wait_contract_state w acc = Inr contract
      \<and> event_base_process (abi env) contract (ton_public_key env) False = Inr Vote
      \<and> sol_ton_event_init_data_of (abi env) contract = Inr init
      \<and> hm_get (sol_ton_event_configurations (during w 1 (during w 0
          (b\<lparr>sol_ton_events_state := snd (start_processing acc (sol_ton_events_state b))\<rparr>)))) (st_configuration init) = Some c
      \<and> sol_ton_request env c init = Inr (td, ad)
      \<and> (\<exists>ct dt ixs. get_tx (std_signature td) = Inr ct \<and> ct_slot ct = slot (st_vote_data init)
          \<and> ct_block_time ct = Some (block_time (st_vote_data init)) \<and> ct_decoded ct = Some dt
          \<and> push_inner bs58 (case ct_inner ct of Some inner \<Rightarrow> concat inner | None \<Rightarrow> []) (instructions dt) = Inr ixs
          \<and> (\<exists>ix \<in> set ixs. unat (program_id_index ix) < length (account_keys dt)
              \<and> account_keys dt ! unat (program_id_index ix) = stc_program (network_configuration (st_details c))
              \<and> u128_from_le_bytes (take 16 (drop 1 (ix_data ix))) = account_seed (st_vote_data init)))
      \<and> (\<exists>raw elapsed. (Inr (), Inr (Some raw), elapsed) \<in>
            set (rounds_of (deposit_address (stc_program (network_configuration (st_details c))) (account_seed (st_vote_data init))))
          \<and> unpack_deposit raw = Inr (sad_event_data ad))"
proof -
  have "effects \<noteq> []" using assms(2) by auto
  from sol_ton_vote_outcome [OF assms(1) this] obtain contract init c td ad outcome where
    v: "hm_get (pending (sol_ton_events_state b)) acc = Some \<lparr>processing_started = False\<rparr>"
      "wait_contract_state w acc = Inr contract"
      "event_base_process (abi env) contract (ton_public_key env) False = Inr Vote"
      "sol_ton_event_init_data_of (abi env) contract = Inr init"
      "hm_get (sol_ton_event_configurations (during w 1 (during w 0
          (b\<lparr>sol_ton_events_state := snd (start_processing acc (sol_ton_events_state b))\<rparr>)))) (st_configuration init) = Some c"
      "sol_ton_request env c init = Inr (td, ad)"
    and outcome: "verify_sol_ton w td ad = Inr outcome"
    and sent: "effects = [DeliverTon (vote_of (case outcome of Exists \<Rightarrow> sol_ton_event_contract_confirm
        | NotExists _ \<Rightarrow> sol_ton_event_contract_reject) acc [])]" by blast
  have "outcome = Exists"
    using assms(2) sent by (cases outcome) (simp_all add: vote_of_def vote_functions)
  with assms(3) [OF outcome] obtain s where
    "snd (verify_sol_ton_event get_tx bs58 unpack_deposit rounds_of deposit_address td ad s) = Some (Inr Exists)" by blast
  note proofs = sol_ton_proofs [OF this]
  from v(6) have fields: "std_slot td = slot (st_vote_data init)" "std_block_time td = block_time (st_vote_data init)"
      "std_seed td = account_seed (st_vote_data init)" "std_program_id td = stc_program (network_configuration (st_details c))"
      "sad_seed ad = account_seed (st_vote_data init)" "sad_program_id ad = stc_program (network_configuration (st_details c))"
    by (auto simp: sol_ton_request_def Let_def rbind_eq_Inr_iff)
  from v proofs [unfolded fields] show ?thesis by blast
qed

subsection \<open>Witnesses\<close>

text \<open>A new subscriber that is updated once after the request, by the world of \<open>Eth_Subscriber\<close>.\<close>

definition demo_fresh_eth :: eth_subscriber where
  "demo_fresh_eth = eth_subscriber_new \<lparr>max_block_range = Some 100\<rparr> 20"

definition demo_verified_world :: update_world where
  "demo_verified_world = demo_world\<lparr>eth_verify := (\<lambda>chain vote emitter parsed blocks checks.
     case verify_wait 7 vote emitter parsed blocks checks [EthUpdate demo_eth_world] demo_fresh_eth of
       Some received \<Rightarrow> received | None \<Rightarrow> Inl (Foreign ''waiting''))\<rparr>"

lemma demo_confirmed:
  "verify_wait 7 \<lparr>event_transaction = [2], event_index = 0, et_event_data = [], event_block_number = 10, event_block = [3]\<rparr> [5]
     \<lparr>get_eth_topic_hash = [9], decode_and_map = Inr\<rparr> 12 True [EthUpdate demo_eth_world] demo_fresh_eth = Some (Inr Exists)"
  by (simp add: verify_wait_def demo_fresh_eth_def demo_eth_simps eth_update_def truncate_block_def process_blocks_def make_filter_def
      update_topics_map_def find_event_def demo_log_def parse_log_def as_u32_def panics_def resolve_def answer_def check_def)

lemma demo_confirm_sent:
  "fst (snd (update_eth_ton_event (demo_update_env Pending) demo_verified_world [1] demo_voting_bridge)) =
     [DeliverTon (vote_of eth_ton_event_contract_confirm [1] [])]"
  by (simp add: update_eth_ton_event_def Let_def demo_verified_world_def demo_update_simps demo_confirmed)

theorem confirmed_only_with_evidence_witness:
  "\<exists>vote emitter parsed target. eth_evidence demo_eth_world vote emitter parsed target"
proof -
  obtain b' effects r where run: "update_eth_ton_event (demo_update_env Pending) demo_verified_world [1] demo_voting_bridge = (b', effects, r)"
    by (metis prod_cases3)
  have sent: "DeliverTon (vote_of eth_ton_event_contract_confirm [1] []) \<in> set effects"
    using demo_confirm_sent run by simp
  have "answered_by demo_verified_world 7 (\<lambda>_. [EthUpdate demo_eth_world]) (\<lambda>_. demo_fresh_eth)"
    unfolding answered_by_def
    by (auto simp: demo_verified_world_def demo_fresh_eth_def eth_inv_def eth_waiting_def eth_subscriber_new_def
        demo_eth_world_def split: option.splits)
  from confirmed_only_with_evidence [OF run sent this] show ?thesis by auto
qed



definition demo_solana_env :: update_env where
  "demo_solana_env = (demo_update_env Pending)\<lparr>abi := demo_abi\<lparr>
     unpack_st_init := (\<lambda>_. Inr \<lparr>st_vote_data = \<lparr>account_seed = 2, slot = 8, block_time = 9,
        st_signature = ''s'', st_event_data = []\<rparr>, st_configuration = [4], st_staking = []\<rparr>)\<rparr>,
     parse_signature := (\<lambda>_. Inr [1])\<rparr>"

definition demo_confirmed_transaction :: confirmed_transaction where
  "demo_confirmed_transaction = \<lparr>ct_slot = 8, ct_block_time = Some 9, ct_decoded = Some demo_transaction, ct_inner = None\<rparr>"

definition demo_solana_world :: update_world where
  "demo_solana_world = demo_world\<lparr>verify_sol_ton := (\<lambda>td ad.
     case snd (verify_sol_ton_event (\<lambda>_. Inr demo_confirmed_transaction) (\<lambda>_. Inr []) (\<lambda>_. Inr [1])
         (\<lambda>_. [(Inr (), Inr (Some [5]), 0)]) (\<lambda>p s. p) td ad demo_sol) of
       Some received \<Rightarrow> received | None \<Rightarrow> Inl (Foreign ''waiting''))\<rparr>"

definition demo_solana_bridge :: bridge where
  "demo_solana_bridge = bridge_new\<lparr>sol_ton_events_state := demo_pending,
     sol_ton_event_configurations := [([4], \<lparr>st_details = demo_details \<lparr>stc_program = [6], stc_proxy = [],
        stc_start_timestamp = 0, stc_end_timestamp = 0\<rparr> [10], st_event_abi = []\<rparr>)]\<rparr>"

lemma demo_deposit_seed: "u128_from_le_bytes (take 16 (drop 1 (3 # 2 # replicate 15 0))) = 2"
  by code_simp

lemma demo_deposit_confirmed:
  "snd (verify_sol_ton_event (\<lambda>_. Inr demo_confirmed_transaction) (\<lambda>_. Inr []) (\<lambda>_. Inr [1]) (\<lambda>_. [(Inr (), Inr (Some [5]), 0)])
      (\<lambda>p s. p) \<lparr>std_program_id = [6], std_signature = [1], std_slot = 8, std_block_time = 9, std_seed = 2\<rparr>
      \<lparr>sad_program_id = [6], sad_seed = 2, sad_event_data = [1]\<rparr> demo_sol) = Some (Inr Exists)"
  by (simp add: demo_sol_simps verify_sol_ton_event_def get_rpc_client_def verify_sol_ton_transaction_def
      verify_sol_ton_account_def demo_transaction_def demo_confirmed_transaction_def demo_deposit_seed [simplified])

lemma demo_deposit_sent:
  "fst (snd (update_sol_ton_event demo_solana_env demo_solana_world [1] demo_solana_bridge)) =
     [DeliverTon (vote_of sol_ton_event_contract_confirm [1] [])]"
  by (simp add: update_sol_ton_event_def Let_def demo_solana_env_def demo_solana_world_def demo_solana_bridge_def demo_update_simps
      sol_ton_event_init_data_of_def demo_deposit_confirmed)

theorem confirmed_only_with_deposit_witness:
  "\<exists>contract init. wait_contract_state demo_solana_world [1] = Inr contract
     \<and> sol_ton_event_init_data_of (abi demo_solana_env) contract = Inr init
     \<and> ct_slot demo_confirmed_transaction = slot (st_vote_data init)"
proof -
  obtain b' effects r where run: "update_sol_ton_event demo_solana_env demo_solana_world [1] demo_solana_bridge = (b', effects, r)"
    by (metis prod_cases3)
  have sent: "DeliverTon (vote_of sol_ton_event_contract_confirm [1] []) \<in> set effects"
    using demo_deposit_sent run by simp
  have answered: "\<exists>s. snd (verify_sol_ton_event (\<lambda>_. Inr demo_confirmed_transaction) (\<lambda>_. Inr []) (\<lambda>_. Inr [1])
      (\<lambda>_. [(Inr (), Inr (Some [5]), 0)]) (\<lambda>p s. p) td ad s) = Some (Inr outcome)"
    if "verify_sol_ton demo_solana_world td ad = Inr outcome" for td ad outcome
    using that by (intro exI [of _ demo_sol]) (simp add: demo_solana_world_def split: option.splits)
  from confirmed_only_with_deposit [OF run sent answered] show ?thesis by (metis sum.inject(2))
qed

end
