(* ===== verification/Spec2Isabelle.thy ===== *)
theory Spec2Isabelle
  imports Code_Hash_Index Runtime_Storage Event_Lifecycle Bridge_Update Eth_Subscriber Sol_Subscriber Bridge_Read Ton_Subscriber Staking Bridge_Search Bridge_Run Engine Verified_Votes
begin

text \<open>
  \<^bold>\<open>The Octus bridge relay.\<close> A relay follows the TON (Everscale) masterchain and shards as a node, watches
  EVM chains and Solana through their RPC endpoints, and votes on the events of the bridge: an event contract
  on TON describes a transfer, the relay checks that the transfer happened on the chain it comes from, and
  sends its confirmation, its rejection or its signature. Relays are elected for rounds and rewarded for them.
  This library models the relay's own code under \<open>src/\<close> function by function and proves what makes it correct; what
  is left out is named at the end.

  \<^bold>\<open>How the parts interact.\<close> The node calls \<open>TonSubscriber\<close> for every block. It updates the cache of shard states
  and the persistent index of accounts by code hash, hands the transactions of subscribed accounts to their
  listeners, and answers the queue of sent messages and the tasks that wait for a contract's state. The bridge's
  listeners turn transactions into operations on its registries: connectors, event configurations and pending
  events of four directions. Each pending event has an update task, which reads the event's contract, asks the
  subscriber of the source chain for a verification, and delivers a vote through the keystore and the message
  queue. The subscribers of the EVM chains and of Solana keep the questions that are not answered yet and
  answer them from a polling loop. Staking follows the rounds, takes part in the elections and collects rewards.
  The engine reads the settings and keys, creates and starts all of these in order, and exports their metrics.

  \<^bold>\<open>Theories.\<close> Every source path below is relative to \<open>src/\<close> of the crate.

  Foundations:
    \<^item> \<open>Prelude\<close>: the integer types at their width, the errors, \<open>rbind\<close> for the question mark operator, hash maps
      as association lists with their lemmas (collection \<open>hm_simps\<close>), and the locale \<open>counted_registry\<close>: a
      map with an atomic counter of its entries.
    \<^item> \<open>Oneshot\<close>: maps that hold the senders of one-shot channels; the locale \<open>oneshot_registry\<close> proves once that a
      channel is answered at most once and is never lost, for every sequence of operations.
    \<^item> \<open>Shards\<close>: \<open>utils/shard_utils.rs\<close>, prefixes of accounts on 64-bit words; the locale \<open>shard_lib\<close> is what is
      used of the library's \<open>ShardIdent\<close>, interpreted on its documented meaning.
    \<^item> \<open>Accounts\<close>: \<open>utils/existing_contract.rs\<close>. \<open>Tx_Context\<close>: \<open>utils/tx_context.rs\<close>.
    \<^item> \<open>Memory_Cache\<close>: \<open>utils/memory_cache.rs\<close> and \<open>engine/ton_meta\<close>; the cache refines a log of insertions.

  Contracts:
    \<^item> \<open>Abi\<close>: \<open>engine/ton_contracts/*_contract.rs\<close>, the description of every function and event.
    \<^item> \<open>Contracts\<close>: \<open>models.rs\<close> and the getters of \<open>engine/ton_contracts/mod.rs\<close>, with what an event contract
      calls for (\<open>EventBase::process\<close>). \<open>Staking_Contracts\<close>: the same for staking, and \<open>utils/tristate.rs\<close>.

  TON:
    \<^item> \<open>Runtime_Storage\<close>: the shard states in \<open>storage/mod.rs\<close>, with splits and merges of shards.
    \<^item> \<open>Code_Hash_Index\<close>: the two RocksDB indices of \<open>storage/mod.rs\<close>, for a block and for rebuilding shards.
    \<^item> \<open>Pending_Messages\<close>: \<open>utils/pending_messages_queue.rs\<close>, with its cached minimum of expirations.
    \<^item> \<open>Ton_Subscriber\<close>: blocks, subscriptions, watch channels, awaiters and the signature id of
      \<open>engine/ton_subscriber/mod.rs\<close>. \<open>Node_Sync\<close>: the rest of that file, the node's callbacks, the snapshot
      of the storage, the wait for the synchronisation and the start.
    \<^item> \<open>Delivery\<close>: \<open>engine/keystore/mod.rs\<close> (signing) and the delivery loop in \<open>engine/mod.rs\<close>.

  Bridge (\<open>engine/bridge/mod.rs\<close>):
    \<^item> \<open>Bridge_Events\<close>: \<open>EventsState\<close> and the handlers of the four kinds of event transactions; the locale
      \<open>event_handler\<close> is what they share, and each handler interprets it.
    \<^item> \<open>Event_Lifecycle\<close>: the step relation of the tasks that share the map of pending events, in any interleaving.
    \<^item> \<open>Bridge_Config\<close>: connectors, event configurations, their loading, flags and expiry, the invariant of the
      bridge's state; locale \<open>expiry\<close> for the three kinds that expire.
    \<^item> \<open>Bridge_Read\<close>: the implementations of \<open>ReadFromTransaction\<close>. \<open>Bridge_Update\<close>: the four update tasks, with
      arbitrary changes by other tasks at every wait. \<open>Bridge_Search\<close>: the search for events left over at a
      start. \<open>Bridge_Start\<close>: \<open>Bridge::new\<close>, and its composition with the node's callbacks. \<open>Bridge_Run\<close>: every sequence of
      the bridge's operations, update tasks and the search included, keeps the invariant.

  Source chains:
    \<^item> \<open>Eth_Subscriber\<close>: \<open>engine/eth_subscriber/mod.rs\<close> and \<open>models.rs\<close>: logs, block ranges, pending confirmations,
      the check of an event, and the verification of the relay's address.
    \<^item> \<open>Solana\<close>, \<open>Sol_Subscriber\<close>: \<open>engine/sol_subscriber/mod.rs\<close>: proposals, deposits, transactions and votes.
    \<^item> \<open>Rpc_Requests\<close>: \<open>utils/retry.rs\<close> and the repeated requests of both subscribers.
    \<^item> \<open>Verified_Votes\<close>: the bridge's update tasks composed with the subscribers that answer them.

  Staking and process:
    \<^item> \<open>Staking\<close>: \<open>engine/staking/mod.rs\<close>; the manager and the tasks it spawns are a step relation
      (\<open>sys_step\<close>) in which a \<open>Notify\<close> is the number of its notifications.
    \<^item> \<open>Stored_Keys\<close>: \<open>config/stored_keys.rs\<close> and the commands of \<open>main.rs\<close>; locale \<open>from_phrase_and_path\<close>,
      interpreted on both kinds of keys. \<open>Settings\<close>: \<open>config/*.rs\<close>, settings as written and as used.
    \<^item> \<open>Metrics\<close>: the series of a scrape. \<open>Engine\<close>: the registry of chains, the creation and the start of
      the engine in \<open>engine/mod.rs\<close>, and the run command of \<open>main.rs\<close> with reloads and signals.

  \<^bold>\<open>What the lemmas show.\<close>
    \<^item> Safety of votes: an event is confirmed only with the evidence of its source chain, from the
      endpoint's answers through the subscriber to the vote (\<open>Verified_Votes\<close>, from the facts of
      \<open>Eth_Subscriber\<close>, \<open>Sol_Subscriber\<close> and \<open>Bridge_Update\<close>), and at most once per deployment in every interleaving.
    \<^item> Consistency of the state: the bridge's invariant and the agreement of the two indices hold after every
      sequence of operations or callbacks, failing ones included; updating and rebuilding the index is exact,
      and what a restart finds in it is exactly what the configurations want.
    \<^item> Messages and waiting tasks: every channel is answered at most once and not lost; messages expire exactly
      when they have to; the cached minimum does not change the outcome; a delivery loop ends with its first
      round that is not an expiry; elections never get stuck on a missed notification.
    \<^item> Values: the ranges of blocks, prefixes of shards, round trips of the keys, the time until a request is given up.
    \<^item> Error behaviour: lemmas with a negative statement (a postponed event is never voted on, a nonce used twice
      reveals the phrase, a wake-up is lost in one interleaving) record what the code really does.

  \<^bold>\<open>Conventions.\<close> An \<open>anyhow::Result\<close> is \<open>error + 'a\<close>; a panic is the error value \<open>Panic\<close>. Addresses and hashes are
  byte lists; only lemmas that need their length assume it. Maps are association lists with distinct keys
  in an arbitrary order, as a Rust hash map gives no other promise. Integers keep their width and wrap as in a
  release build; where the code panics or saturates, the definition does. A channel is a number, its answer is an
  output of the operation. What other tasks do while an operation waits is a function or a list of steps in
  its environment. Third-party code (the node, the VM, the ABI library, ciphers, RPC clients, cells) is a
  record of functions (\<open>abi_env\<close>, \<open>tx_env\<close>, \<open>ton_env\<close>, \<open>node_env\<close>, \<open>signer_env\<close>, \<open>key_env\<close>) or the
  answers of a world (\<open>update_world\<close>, \<open>eth_world\<close>, \<open>sol_world\<close>); the laws a theorem needs are its hypotheses, and its witness
  instantiates them.

  \<^bold>\<open>Loops.\<close> There is no artificial bound. A loop that waits for the outside runs over the list of
  answers the outside gives; \<open>None\<close> means that the list ended while the code still waits. That it does return is
  proved where the code promises it: \<open>retry_returns\<close> (one attempt more than the number of repetitions is
  enough), the property of the delivery loop (it runs on exactly while messages expire), and the property of the elections. All other recursion is structural or has a
  measure, and \<open>inductive\<close> relations are used for tasks in arbitrary interleavings.

  \<^bold>\<open>Not modelled.\<close> The runtime's scheduling and locks except as interleaving of atomic steps; logging; the
  declarations that macros turn into parsers (\<open>argh\<close>, \<open>serde\<close>) and the tuning of RocksDB's tables
  (\<open>storage/tables.rs\<close>), which hold no logic of the program; \<open>config/mod.rs\<close>'s loader of the network's global
  configuration, which only calls the parser; the feature \<open>double-broadcast\<close>, off by default; the loader of the
  generated bindings (\<open>engine/eth_subscriber/contracts.rs\<close>); tests. The number of repetitions in \<open>utils/retry.rs\<close> is computed
  with real logarithms instead of 64-bit floats.
\<close>

end
